(* ===== verification/Prefix_Codec.thy ===== *)
theory Prefix_Codec
  imports Main
begin

text \<open>
  The contract of a self-delimiting encoding: a decoder that finds an encoded value at the front of
  its input gives back the value and exactly the input after it. The byte layer, the metadata
  entries and the message frames are instances; what follows from the contract (no two values share
  an encoding, no encoding is a prefix of another, a stream of encodings splits in one way) is
  proved once here.
\<close>

fun dec_many :: "('b list \<Rightarrow> ('a \<times> 'b list) option) \<Rightarrow> nat \<Rightarrow> 'b list \<Rightarrow> ('a list \<times> 'b list) option" where
  "dec_many dec 0 bs = Some ([], bs)"
| "dec_many dec (Suc n) bs =
     (case dec bs of
        None \<Rightarrow> None
      | Some (x, rest) \<Rightarrow>
          (case dec_many dec n rest of
             None \<Rightarrow> None
           | Some (xs, rest') \<Rightarrow> Some (x # xs, rest')))"

locale prefix_codec =
  fixes enc :: "'a \<Rightarrow> 'b list"
    and dec :: "'b list \<Rightarrow> ('a \<times> 'b list) option"
    and ok :: "'a \<Rightarrow> bool"
  assumes dec_enc: "ok x \<Longrightarrow> dec (enc x @ rest) = Some (x, rest)"
begin

lemma dec_enc_alone: "ok x \<Longrightarrow> dec (enc x) = Some (x, [])"
  using dec_enc [of x "[]"] by simp

lemma unique_parse:
  assumes "ok x" and "ok y" and "enc x @ xs = enc y @ ys"
  shows "x = y \<and> xs = ys"
  using dec_enc [OF assms(1), of xs] dec_enc [OF assms(2), of ys] assms(3)
  by (metis option.inject prod.inject)

lemma enc_inj: "ok x \<Longrightarrow> ok y \<Longrightarrow> enc x = enc y \<Longrightarrow> x = y"
  using unique_parse [of x y "[]" "[]"] by simp

lemma stream: "list_all ok xs \<Longrightarrow> dec_many dec (length xs) (concat (map enc xs) @ rest) = Some (xs, rest)"
  by (induction xs) (simp_all add: dec_enc)

lemma stream_unique:
  assumes "list_all ok xs" and "list_all ok ys" and "length xs = length ys"
    and "concat (map enc xs) @ r = concat (map enc ys) @ s"
  shows "xs = ys \<and> r = s"
  using stream [OF assms(1), of r] stream [OF assms(2), of s] assms(3, 4)
  by (metis option.inject prod.inject)

end

text \<open>An encoding whose decoder always consumes something: a loop over the stream makes progress.\<close>

locale framed_codec = prefix_codec enc dec ok
  for enc :: "'a \<Rightarrow> 'b list" and dec :: "'b list \<Rightarrow> ('a \<times> 'b list) option" and ok :: "'a \<Rightarrow> bool" +
  assumes dec_progress: "dec bs = Some (x, rest) \<Longrightarrow> length rest < length bs"
begin

lemma enc_nonempty: "ok x \<Longrightarrow> enc x \<noteq> []"
  using dec_progress dec_enc_alone by fastforce

lemma dec_many_bound: "dec_many dec n bs = Some (xs, rest) \<Longrightarrow> n + length rest \<le> length bs"
proof (induction n arbitrary: bs xs)
  case 0
  then show ?case by simp
next
  case (Suc n)
  then obtain x r ys where d: "dec bs = Some (x, r)" and "dec_many dec n r = Some (ys, rest)"
    by (auto split: option.splits prod.splits)
  then show ?case using Suc.IH [of r ys] dec_progress [OF d] by simp
qed

end

end
