(* ===== verification/Prelude.thy ===== *)
theory Prelude
  imports Main "HOL-Library.Word" "HOL-Library.AList"
begin

text \<open>
  What every theory of the development shares: the machine integers and strings of Go, the
  outcome type that tells a returning call from a panicking one, Go maps as association lists
  and the error values of the repository, together with the collections of rewrite rules the
  component theories use (\<open>go_defs\<close> for small definitions that are unfolded freely,
  \<open>wire_simps\<close> for the byte layer, \<open>gomap_simps\<close> for maps).
\<close>

named_theorems go_defs "small definitions unfolded in component proofs"
named_theorems wire_simps "rewrite rules of the byte layer"
named_theorems gomap_simps "rewrite rules of Go maps"

section \<open>Machine integers and strings\<close>

type_synonym byte = "8 word"
type_synonym u32 = "32 word"
type_synonym u64 = "64 word"

text \<open>
  A Go string is a sequence of bytes; it is modelled by Isabelle's \<^typ>\<open>string\<close>, whose characters
  are the 256 byte values, so that literals read as in the source. The two conversions of
  \<^verbatim>\<open>protocol/message.go\<close> between strings and byte slices are the maps below.
\<close>

definition byte_of_char :: "char \<Rightarrow> byte" where
  "byte_of_char c = word_of_nat (of_char c)"

definition char_of_byte :: "byte \<Rightarrow> char" where
  "char_of_byte b = char_of (unat b)"

lemma of_char_less_256: "(of_char c :: nat) < 256"
  by (metis of_char_mod_256 mod_less_divisor zero_less_numeral)

lemma char_of_byte_of_char [simp]: "char_of_byte (byte_of_char c) = c"
  by (simp add: char_of_byte_def byte_of_char_def of_nat_inverse of_char_less_256)

lemma byte_of_char_of_byte [simp]: "byte_of_char (char_of_byte b) = b"
  using unsigned_less [of b, where ?'a = nat] by (simp add: char_of_byte_def byte_of_char_def)

text \<open>The decimal rendering that \<^verbatim>\<open>%v\<close> and \<^verbatim>\<open>%d\<close> give a non-negative number.\<close>

fun dec_of_nat :: "nat \<Rightarrow> string" where
  "dec_of_nat n =
     (if n < 10 then [char_of (48 + n)]
      else dec_of_nat (n div 10) @ [char_of (48 + n mod 10)])"

declare dec_of_nat.simps [simp del]

lemma dec_of_nat_nonempty [simp]: "dec_of_nat n \<noteq> []"
  by (subst dec_of_nat.simps) simp

definition dec_of_int :: "int \<Rightarrow> string" where
  "dec_of_int i = (if i < 0 then ''-'' @ dec_of_nat (nat (- i)) else dec_of_nat (nat i))"

section \<open>Outcomes\<close>

text \<open>
  A Go call either returns or panics. A panic leaves the state as it was when it was raised, so
  operations that can panic return the outcome beside the state they reached.
\<close>

datatype 'a outcome = Return 'a | Panic

text \<open>
  A function whose deferred closure calls \<^verbatim>\<open>recover\<close> and whose result is not named returns the
  zero value of its result type when its body panics.
\<close>

fun recover_with :: "'a \<Rightarrow> 'a outcome \<Rightarrow> 'a" where
  "recover_with z (Return x) = x"
| "recover_with z Panic = z"

section \<open>Go maps\<close>

text \<open>
  A Go map is an association list with distinct keys (\<open>gomap_ok\<close>). The order of the list is the
  order in which \<^verbatim>\<open>range\<close> happens to enumerate the map; Go leaves it open, and the theorems
  quantify over all lists, so over all orders. Two lists are the same map when \<open>map_of\<close> agrees.
\<close>

type_synonym ('k, 'v) gomap = "('k \<times> 'v) list"

definition gomap_ok :: "('k, 'v) gomap \<Rightarrow> bool" where
  "gomap_ok m \<longleftrightarrow> distinct (map fst m)"

definition gomap_get :: "'v \<Rightarrow> ('k, 'v) gomap \<Rightarrow> 'k \<Rightarrow> 'v" where
  \<comment> \<open>\<^verbatim>\<open>m[k]\<close>: the zero value of the element type when the key is absent.\<close>
  "gomap_get z m k = (case map_of m k of None \<Rightarrow> z | Some v \<Rightarrow> v)"

abbreviation gomap_set :: "'k \<Rightarrow> 'v \<Rightarrow> ('k, 'v) gomap \<Rightarrow> ('k, 'v) gomap" where
  "gomap_set \<equiv> AList.update"

abbreviation gomap_del :: "'k \<Rightarrow> ('k, 'v) gomap \<Rightarrow> ('k, 'v) gomap" where
  "gomap_del \<equiv> AList.delete"

lemma gomap_ok_Nil [simp, intro]: "gomap_ok []"
  by (simp add: gomap_ok_def)

lemma gomap_ok_set [simp, intro]: "gomap_ok m \<Longrightarrow> gomap_ok (gomap_set k v m)"
  by (simp add: gomap_ok_def distinct_update)

lemma gomap_ok_del [simp, intro]: "gomap_ok m \<Longrightarrow> gomap_ok (gomap_del k m)"
  by (simp add: gomap_ok_def distinct_delete)

lemma map_of_gomap_set [simp, gomap_simps]: "map_of (gomap_set k v m) = (map_of m)(k \<mapsto> v)"
  by (rule update_conv')

lemma map_of_gomap_del [simp, gomap_simps]: "map_of (gomap_del k m) = (map_of m)(k := None)"
  by (rule delete_conv')

lemma gomap_get_set [simp]: "gomap_get z (gomap_set k v m) k' = (if k' = k then v else gomap_get z m k')"
  by (simp add: gomap_get_def)

lemma gomap_set_fresh: "k \<notin> fst ` set m \<Longrightarrow> gomap_set k v m = m @ [(k, v)]"
  by (induction m) auto

lemma map_of_None_dom: "map_of m k = None \<longleftrightarrow> k \<notin> fst ` set m"
  by (rule map_of_eq_None_iff)

lemma gomap_ok_map_of_mem: "gomap_ok m \<Longrightarrow> (k, v) \<in> set m \<longleftrightarrow> map_of m k = Some v"
  by (simp add: gomap_ok_def map_of_eq_Some_iff)

section \<open>Error values\<close>

text \<open>
  The error values the code creates, compares or inspects. Go compares sentinel errors by
  identity, so each sentinel is a constructor; \<open>NewError\<close> stands for an error made in place by
  \<^verbatim>\<open>errors.New\<close> or \<^verbatim>\<open>fmt.Errorf\<close> and for errors of other packages known only by their text.
  The nil error is \<^term>\<open>None\<close> of type \<^typ>\<open>'a option\<close>. A \<open>NetOpError\<close> carries its text, whether its
  \<^verbatim>\<open>Addr\<close> field is set, and the error it wraps.
\<close>

datatype go_error =
    EOF | ErrUnexpectedEOF | NetErrClosed
  | NetOpError string bool "go_error option"
  | DeadlineExceeded | Canceled
  | ErrMessageTooLong | ErrMetaKVMissing
  | ErrServerClosed | ErrReqReachLimit | ErrListenerClosed | CmuxErrServerClosed
  | ErrShutdown | ErrUnsupportedCodec | ErrUnsupportedMsgStatusType
  | ErrXClientShutdown | ErrXClientNoServer | ErrServerUnavailable
  | ErrServiceNotFound
  | ServiceError string
  | MultiErr "go_error list"
  | NewError string

fun join_spaces :: "string list \<Rightarrow> string" where
  "join_spaces [] = []"
| "join_spaces [s] = s"
| "join_spaces (s # t # ts) = s @ '' '' @ join_spaces (t # ts)"

text \<open>\<open>err_string e\<close> is \<^verbatim>\<open>e.Error()\<close>.\<close>

fun err_string :: "go_error \<Rightarrow> string" where
  "err_string EOF = ''EOF''"
| "err_string ErrUnexpectedEOF = ''unexpected EOF''"
| "err_string NetErrClosed = ''use of closed network connection''"
| "err_string (NetOpError s a e) = s"
| "err_string DeadlineExceeded = ''context deadline exceeded''"
| "err_string Canceled = ''context canceled''"
| "err_string ErrMessageTooLong = ''message is too long''"
| "err_string ErrMetaKVMissing = ''wrong metadata lines. some keys or values are missing''"
| "err_string ErrServerClosed = ''http: Server closed''"
| "err_string ErrReqReachLimit = ''request reached rate limit''"
| "err_string ErrListenerClosed = ''mux: listener closed''"
| "err_string CmuxErrServerClosed = ''mux: server closed''"
| "err_string ErrShutdown = ''connection is shut down''"
| "err_string ErrUnsupportedCodec = ''unsupported codec''"
| "err_string ErrUnsupportedMsgStatusType = ''unsupported msg status type''"
| "err_string ErrXClientShutdown = ''xClient is shut down''"
| "err_string ErrXClientNoServer = ''can not found any server''"
| "err_string ErrServerUnavailable = ''selected server is unavailable''"
| "err_string ErrServiceNotFound = ''service not found from consul agent''"
| "err_string (ServiceError s) = s"
| "err_string (MultiErr es) = ''['' @ join_spaces (map err_string es) @ '']''"
| "err_string (NewError s) = s"

text \<open>
  \<^verbatim>\<open>errors.Is\<close> compares along the chain of wrapped errors; of the errors above only a
  \<^verbatim>\<open>net.OpError\<close> wraps another one.
\<close>

fun errors_Is :: "go_error \<Rightarrow> go_error \<Rightarrow> bool" where
  "errors_Is (NetOpError s a (Some e)) t \<longleftrightarrow> NetOpError s a (Some e) = t \<or> errors_Is e t"
| "errors_Is e t \<longleftrightarrow> e = t"

text \<open>\<^verbatim>\<open>errors.As(err, &serviceError)\<close>: some error of the chain is a \<^verbatim>\<open>ServiceError\<close>.\<close>

fun errors_As_ServiceError :: "go_error \<Rightarrow> bool" where
  "errors_As_ServiceError (NetOpError s a (Some e)) = errors_As_ServiceError e"
| "errors_As_ServiceError (ServiceError s) = True"
| "errors_As_ServiceError e = False"

section \<open>Invariants of a step relation\<close>

text \<open>
  Where goroutines interleave, a component is a step relation. A predicate that every step preserves
  holds in every state a run reaches from a state where it holds.
\<close>

locale step_invariant =
  fixes step :: "'s \<Rightarrow> 's \<Rightarrow> bool" and inv :: "'s \<Rightarrow> bool"
  assumes step_inv: "inv s \<Longrightarrow> step s s' \<Longrightarrow> inv s'"
begin

lemma run_inv: "step\<^sup>*\<^sup>* s s' \<Longrightarrow> inv s \<Longrightarrow> inv s'"
  by (induction rule: rtranclp_induct) (auto intro: step_inv)

end

end
