(* ===== verification/Go_Bytes.thy ===== *)
theory Go_Bytes
  imports Prelude
begin

text \<open>
  The parts of Go's standard library the wire format rests on: \<^verbatim>\<open>encoding/binary\<close> in big-endian
  order, slices with a length and a capacity, \<^verbatim>\<open>copy\<close>, and \<^verbatim>\<open>io.ReadFull\<close> over a byte stream.
\<close>

unbundle bit_operations_syntax

section \<open>Big-endian integers\<close>

definition be32 :: "u32 \<Rightarrow> byte list" where
  \<comment> \<open>the four bytes \<^verbatim>\<open>binary.BigEndian.PutUint32\<close> stores\<close>
  "be32 v = [ucast (drop_bit 24 v), ucast (drop_bit 16 v), ucast (drop_bit 8 v), ucast v]"

definition be64 :: "u64 \<Rightarrow> byte list" where
  "be64 v = [ucast (drop_bit 56 v), ucast (drop_bit 48 v), ucast (drop_bit 40 v),
             ucast (drop_bit 32 v), ucast (drop_bit 24 v), ucast (drop_bit 16 v),
             ucast (drop_bit 8 v), ucast v]"

definition u32_of :: "byte list \<Rightarrow> u32" where
  \<comment> \<open>\<^verbatim>\<open>binary.BigEndian.Uint32\<close> of a slice of at least four bytes\<close>
  "u32_of b = ucast (b ! 3) OR push_bit 8 (ucast (b ! 2)) OR push_bit 16 (ucast (b ! 1))
     OR push_bit 24 (ucast (b ! 0))"

definition u64_of :: "byte list \<Rightarrow> u64" where
  "u64_of b = ucast (b ! 7) OR push_bit 8 (ucast (b ! 6)) OR push_bit 16 (ucast (b ! 5))
     OR push_bit 24 (ucast (b ! 4)) OR push_bit 32 (ucast (b ! 3)) OR push_bit 40 (ucast (b ! 2))
     OR push_bit 48 (ucast (b ! 1)) OR push_bit 56 (ucast (b ! 0))"

lemma length_be32 [simp, wire_simps]: "length (be32 v) = 4"
  by (simp add: be32_def)

lemma length_be64 [simp, wire_simps]: "length (be64 v) = 8"
  by (simp add: be64_def)

lemma u32_of_be32 [simp, wire_simps]: "u32_of (be32 v @ bs) = v"
proof (rule bit_word_eqI)
  fix n :: nat
  assume "n < LENGTH(32)"
  then consider "n < 8" | "8 \<le> n" "n < 16" | "16 \<le> n" "n < 24" | "24 \<le> n" "n < 32"
    by fastforce
  then show "bit (u32_of (be32 v @ bs)) n = bit v n"
    by cases (simp_all add: u32_of_def be32_def bit_simps, auto)
qed

lemma u32_of_be32_alone [simp, wire_simps]: "u32_of (be32 v) = v"
  using u32_of_be32 [of v "[]"] by simp

lemma u64_of_be64 [simp, wire_simps]: "u64_of (be64 v @ bs) = v"
proof (rule bit_word_eqI)
  fix n :: nat
  assume "n < LENGTH(64)"
  then consider "n < 8" | "8 \<le> n" "n < 16" | "16 \<le> n" "n < 24" | "24 \<le> n" "n < 32"
    | "32 \<le> n" "n < 40" | "40 \<le> n" "n < 48" | "48 \<le> n" "n < 56" | "56 \<le> n" "n < 64"
    by fastforce
  then show "bit (u64_of (be64 v @ bs)) n = bit v n"
    by cases (simp_all add: u64_of_def be64_def bit_simps, auto)
qed

lemma u64_of_be64_alone [simp, wire_simps]: "u64_of (be64 v) = v"
  using u64_of_be64 [of v "[]"] by simp

text \<open>A byte is known by its eight bits, which decides every equation between masks and shifts.\<close>

lemma less_8_cases: "n < (8 :: nat) \<longleftrightarrow> n = 0 \<or> n = 1 \<or> n = 2 \<or> n = 3 \<or> n = 4 \<or> n = 5 \<or> n = 6 \<or> n = 7"
  by auto

lemma byte_eqI: "(\<And>n. n \<in> {0, 1, 2, 3, 4, 5, 6, 7} \<Longrightarrow> bit x n = bit y n) \<Longrightarrow> (x :: byte) = y"
  by (rule bit_word_eqI) (simp add: less_8_cases)

text \<open>The two directions compose to the identity the other way round as well.\<close>

lemma bit_byte_beyond [simp]: "8 \<le> n \<Longrightarrow> bit (x :: byte) n = False"
  using bit_imp_le_length [of x n] by auto

lemma bytes_of_u32:
  fixes a b c d :: byte
  defines "w \<equiv> (ucast d OR push_bit 8 (ucast c) OR push_bit 16 (ucast b) OR push_bit 24 (ucast a) :: u32)"
  shows "ucast (drop_bit 24 w) = a" "ucast (drop_bit 16 w) = b" "ucast (drop_bit 8 w) = c" "ucast w = d"
  unfolding w_def by (rule byte_eqI, auto simp: bit_simps)+

lemma be32_u32_of:
  assumes "length b = 4"
  shows "be32 (u32_of b) = b"
proof -
  obtain b0 b1 b2 b3 where b: "b = [b0, b1, b2, b3]"
    using assms by (auto simp: numeral_eq_Suc length_Suc_conv)
  have "u32_of b = ucast b3 OR push_bit 8 (ucast b2) OR push_bit 16 (ucast b1) OR push_bit 24 (ucast b0)"
    by (simp add: b u32_of_def)
  then show ?thesis by (simp only: b be32_def bytes_of_u32)
qed

lemma bytes_of_u64:
  fixes a b c d e f g h :: byte
  defines "w \<equiv> (ucast h OR push_bit 8 (ucast g) OR push_bit 16 (ucast f) OR push_bit 24 (ucast e)
     OR push_bit 32 (ucast d) OR push_bit 40 (ucast c) OR push_bit 48 (ucast b) OR push_bit 56 (ucast a) :: u64)"
  shows "ucast (drop_bit 56 w) = a" "ucast (drop_bit 48 w) = b" "ucast (drop_bit 40 w) = c"
    "ucast (drop_bit 32 w) = d" "ucast (drop_bit 24 w) = e" "ucast (drop_bit 16 w) = f"
    "ucast (drop_bit 8 w) = g" "ucast w = h"
  unfolding w_def by (rule bit_word_eqI, simp add: bit_simps)+

lemma be64_u64_of:
  assumes "length b = 8"
  shows "be64 (u64_of b) = b"
proof -
  obtain b0 b1 b2 b3 b4 b5 b6 b7 where b: "b = [b0, b1, b2, b3, b4, b5, b6, b7]"
    using assms by (auto simp: numeral_eq_Suc length_Suc_conv)
  have "u64_of b = ucast b7 OR push_bit 8 (ucast b6) OR push_bit 16 (ucast b5) OR push_bit 24 (ucast b4)
     OR push_bit 32 (ucast b3) OR push_bit 40 (ucast b2) OR push_bit 48 (ucast b1) OR push_bit 56 (ucast b0)"
    by (simp add: b u64_of_def)
  then show ?thesis by (simp only: b be64_def bytes_of_u64)
qed

section \<open>Conversions of lengths\<close>

text \<open>\<^verbatim>\<open>uint32(len(x))\<close> keeps the low 32 bits; \<^verbatim>\<open>int(l)\<close> of a \<^verbatim>\<open>uint32\<close> is \<^term>\<open>unat l\<close>, as \<^verbatim>\<open>int\<close> has 64 bits.\<close>

abbreviation uint32 :: "nat \<Rightarrow> u32" where
  "uint32 n \<equiv> word_of_nat n"

lemma unat_uint32 [wire_simps]: "n < 2 ^ 32 \<Longrightarrow> unat (uint32 n) = n"
  by (rule of_nat_inverse) simp_all

section \<open>Slices\<close>

text \<open>
  A slice is its backing array from the first element to the capacity, and its length. Slicing is
  bounded by the capacity and not by the length: \<^verbatim>\<open>s[lo:hi]\<close> may reach past \<^verbatim>\<open>len(s)\<close>.
\<close>

datatype gslice = Slice (backing: "byte list") (slen: nat)

definition scap :: "gslice \<Rightarrow> nat" where
  "scap s = length (backing s)"

definition sbytes :: "gslice \<Rightarrow> byte list" where
  "sbytes s = take (slen s) (backing s)"

definition make_slice :: "nat \<Rightarrow> gslice" where
  "make_slice n = Slice (replicate n 0) n"

abbreviation nil_slice :: gslice where
  "nil_slice \<equiv> Slice [] 0"

definition reslice :: "gslice \<Rightarrow> nat \<Rightarrow> nat \<Rightarrow> gslice option" where
  \<comment> \<open>\<^verbatim>\<open>s[lo:hi]\<close>; \<^term>\<open>None\<close> is the panic of a bound out of range\<close>
  "reslice s lo hi =
     (if lo \<le> hi \<and> hi \<le> scap s then Some (Slice (drop lo (backing s)) (hi - lo)) else None)"

definition slice_ok :: "gslice \<Rightarrow> bool" where
  "slice_ok s \<longleftrightarrow> slen s \<le> scap s"

lemma slice_ok_make [simp]: "slice_ok (make_slice n)"
  by (simp add: slice_ok_def make_slice_def scap_def)

lemma slice_ok_reslice: "reslice s lo hi = Some t \<Longrightarrow> slice_ok t"
  by (auto simp: reslice_def slice_ok_def scap_def split: if_splits)

lemma reslice_Some_iff:
  "reslice s lo hi = Some t \<longleftrightarrow> lo \<le> hi \<and> hi \<le> scap s \<and> t = Slice (drop lo (backing s)) (hi - lo)"
  by (auto simp: reslice_def)

lemma reslice_None_iff: "reslice s lo hi = None \<longleftrightarrow> \<not> (lo \<le> hi \<and> hi \<le> scap s)"
  by (auto simp: reslice_def)

text \<open>Reading the piece \<open>xs\<close> out of a slice whose backing array has it after \<open>pre\<close>.\<close>

lemma reslice_piece [wire_simps]:
  assumes "lo = length pre" and "hi = length pre + length xs"
  shows "reslice (Slice (pre @ xs @ post) l) lo hi = Some (Slice (xs @ post) (length xs))"
  using assms by (simp add: reslice_def scap_def)

lemma sbytes_piece [simp, wire_simps]: "sbytes (Slice (xs @ post) (length xs)) = xs"
  by (simp add: sbytes_def)

lemma sbytes_piece_of_length [wire_simps]: "n = length xs \<Longrightarrow> sbytes (Slice (xs @ post) n) = xs"
  by simp

section \<open>copy into a buffer\<close>

definition copy_range :: "'a list \<Rightarrow> nat \<Rightarrow> nat \<Rightarrow> 'a list \<Rightarrow> 'a list" where
  \<comment> \<open>the buffer after \<^verbatim>\<open>copy(dst[lo:hi], src)\<close>, the bounds being in range\<close>
  "copy_range dst lo hi src =
     (let n = min (hi - lo) (length src) in take lo dst @ take n src @ drop (lo + n) dst)"

lemma length_copy_range: "lo \<le> hi \<Longrightarrow> hi \<le> length dst \<Longrightarrow> length (copy_range dst lo hi src) = length dst"
  by (auto simp: copy_range_def Let_def min_def)

text \<open>Filling the zeroed buffer from the left: what is written so far, then the zeroes that remain.\<close>

lemma copy_range_fill:
  assumes "lo = length done_part" and "hi = lo + length src" and "length src \<le> k"
  shows "copy_range (done_part @ replicate k z) lo hi src = (done_part @ src) @ replicate (k - length src) z"
  using assms by (simp add: copy_range_def)

section \<open>Readers\<close>

text \<open>
  An \<^verbatim>\<open>io.Reader\<close> is the bytes it will still deliver and the error it then ends with. How the bytes
  are cut into single reads does not matter to \<^verbatim>\<open>io.ReadFull\<close>.
\<close>

record reader =
  rd_bytes :: "byte list"
  rd_err :: go_error

definition ReadFull :: "reader \<Rightarrow> nat \<Rightarrow> byte list \<times> go_error option \<times> reader" where
  \<comment> \<open>the bytes stored into the buffer of length \<open>n\<close>, the error, and the reader afterwards\<close>
  "ReadFull r n =
     (if n \<le> length (rd_bytes r)
      then (take n (rd_bytes r), None, r\<lparr>rd_bytes := drop n (rd_bytes r)\<rparr>)
      else (rd_bytes r,
            Some (if rd_bytes r \<noteq> [] \<and> rd_err r = EOF then ErrUnexpectedEOF else rd_err r),
            r\<lparr>rd_bytes := []\<rparr>))"

lemma ReadFull_enough [wire_simps]:
  "n = length xs \<Longrightarrow> ReadFull \<lparr>rd_bytes = xs @ rest, rd_err = e\<rparr> n = (xs, None, \<lparr>rd_bytes = rest, rd_err = e\<rparr>)"
  by (simp add: ReadFull_def)

lemma ReadFull_None_iff: "fst (snd (ReadFull r n)) = None \<longleftrightarrow> n \<le> length (rd_bytes r)"
  by (simp add: ReadFull_def)

lemma ReadFull_NoneD:
  assumes "ReadFull r n = (bs, None, r')"
  shows "n \<le> length (rd_bytes r)" and "bs = take n (rd_bytes r)" and "length bs = n"
    and "r' = r\<lparr>rd_bytes := drop n (rd_bytes r)\<rparr>"
  using assms by (auto simp: ReadFull_def split: if_splits)

lemma ReadFull_SomeD:
  assumes "ReadFull r n = (bs, Some e, r')"
  shows "length (rd_bytes r) < n" and "bs = rd_bytes r"
    and "e = (if rd_bytes r \<noteq> [] \<and> rd_err r = EOF then ErrUnexpectedEOF else rd_err r)"
    and "r' = r\<lparr>rd_bytes := []\<rparr>"
  using assms by (auto simp: ReadFull_def split: if_splits)

end
