(* ===== verification/Header.thy ===== *)
theory Header
  imports Go_Bytes
begin

text \<open>
  The fixed twelve-byte header of \<^verbatim>\<open>protocol/message.go\<close>: magic number, version, the flag byte
  (message type, heartbeat, oneway and status bits), the serialization nibble and the sequence
  number. The bit-level accessors follow the source; an abstract record of the fields is the
  specification they are shown to implement.
\<close>

section \<open>Constants of the protocol\<close>

type_synonym MessageType = byte
type_synonym MessageStatusType = byte
type_synonym SerializeType = byte

definition MagicNumber :: byte where
  "MagicNumber = 0x08"

definition Request :: MessageType where
  "Request = 0"

definition Response :: MessageType where
  "Response = 1"

definition NormalStatus :: MessageStatusType where
  "NormalStatus = 0"

definition ErrorStatus :: MessageStatusType where
  "ErrorStatus = 1"

definition SerializeNone :: SerializeType where
  "SerializeNone = 0"

definition JSON :: SerializeType where
  "JSON = 1"

definition ProtoBuffer :: SerializeType where
  "ProtoBuffer = 2"

lemmas proto_consts = MagicNumber_def Request_def Response_def NormalStatus_def ErrorStatus_def
  SerializeNone_def JSON_def ProtoBuffer_def

section \<open>The header and its accessors\<close>

type_synonym header = "byte list" \<comment> \<open>\<^verbatim>\<open>[12]byte\<close>\<close>

definition wf_header :: "header \<Rightarrow> bool" where
  "wf_header h \<longleftrightarrow> length h = 12"

definition CheckMagicNumber :: "header \<Rightarrow> bool" where
  "CheckMagicNumber h \<longleftrightarrow> h ! 0 = MagicNumber"

definition Version :: "header \<Rightarrow> byte" where
  "Version h = h ! 1"

definition SetVersion :: "header \<Rightarrow> byte \<Rightarrow> header" where
  "SetVersion h v = h[1 := v]"

definition MessageType :: "header \<Rightarrow> MessageType" where
  "MessageType h = drop_bit 7 (h ! 2 AND 0x80)"

definition SetMessageType :: "header \<Rightarrow> MessageType \<Rightarrow> header" where
  "SetMessageType h mt = h[2 := h ! 2 OR push_bit 7 mt]"

definition IsHeartbeat :: "header \<Rightarrow> bool" where
  "IsHeartbeat h \<longleftrightarrow> h ! 2 AND 0x40 = 0x40"

definition SetHeartbeat :: "header \<Rightarrow> bool \<Rightarrow> header" where
  "SetHeartbeat h hb =
     (if hb then h[2 := h ! 2 OR 0x40] else h[2 := h ! 2 AND NOT 0x40])"

definition IsOneway :: "header \<Rightarrow> bool" where
  "IsOneway h \<longleftrightarrow> h ! 2 AND 0x20 = 0x20"

definition SetOneway :: "header \<Rightarrow> bool \<Rightarrow> header" where
  "SetOneway h oneway =
     (if oneway then h[2 := h ! 2 OR 0x20] else h[2 := h ! 2 AND NOT 0x20])"

definition MessageStatusType :: "header \<Rightarrow> MessageStatusType" where
  "MessageStatusType h = h ! 2 AND 0x03"

definition SetMessageStatusType :: "header \<Rightarrow> MessageStatusType \<Rightarrow> header" where
  "SetMessageStatusType h mt = h[2 := (h ! 2 AND NOT 0x03) OR (mt AND 0x03)]"

definition SerializeType :: "header \<Rightarrow> SerializeType" where
  "SerializeType h = drop_bit 4 (h ! 3 AND 0xF0)"

definition SetSerializeType :: "header \<Rightarrow> SerializeType \<Rightarrow> header" where
  "SetSerializeType h st = h[3 := (h ! 3 AND NOT 0xF0) OR push_bit 4 st]"

definition Seq :: "header \<Rightarrow> u64" where
  "Seq h = u64_of (drop 4 h)"

definition SetSeq :: "header \<Rightarrow> u64 \<Rightarrow> header" where
  "SetSeq h s = copy_range h 4 12 (be64 s)"

lemmas header_getters = CheckMagicNumber_def Version_def MessageType_def IsHeartbeat_def
  IsOneway_def MessageStatusType_def SerializeType_def Seq_def

lemmas header_setters = SetVersion_def SetMessageType_def SetHeartbeat_def SetOneway_def
  SetMessageStatusType_def SetSerializeType_def SetSeq_def

section \<open>Bit facts\<close>

lemma mask_eq_iff_bit:
  "(x :: byte) AND 0x40 = 0x40 \<longleftrightarrow> bit x 6"
  "(x :: byte) AND 0x20 = 0x20 \<longleftrightarrow> bit x 5"
proof -
  have "x AND 0x40 = 0x40" if "bit x 6"
    by (rule byte_eqI) (use that in \<open>auto simp: bit_simps\<close>)
  moreover have "bit x 6" if "x AND 0x40 = 0x40"
  proof -
    have "bit (x AND 0x40) 6" by (simp add: that)
    then show ?thesis by (simp add: bit_simps)
  qed
  ultimately show "x AND 0x40 = 0x40 \<longleftrightarrow> bit x 6" by blast
  have "x AND 0x20 = 0x20" if "bit x 5"
    by (rule byte_eqI) (use that in \<open>auto simp: bit_simps\<close>)
  moreover have "bit x 5" if "x AND 0x20 = 0x20"
  proof -
    have "bit (x AND 0x20) 5" by (simp add: that)
    then show ?thesis by (simp add: bit_simps)
  qed
  ultimately show "x AND 0x20 = 0x20 \<longleftrightarrow> bit x 5" by blast
qed

section \<open>The abstract header\<close>

record header_view =
  v_magic :: byte
  v_version :: byte
  v_type :: MessageType
  v_heartbeat :: bool
  v_oneway :: bool
  v_status :: MessageStatusType
  v_serialize :: SerializeType
  v_seq :: u64
  v_spare :: "byte \<times> byte" \<comment> \<open>the bits no accessor reads\<close>

definition header_view :: "header \<Rightarrow> header_view" where
  "header_view h =
     \<lparr>v_magic = h ! 0, v_version = Version h, v_type = MessageType h,
      v_heartbeat = IsHeartbeat h, v_oneway = IsOneway h, v_status = MessageStatusType h,
      v_serialize = SerializeType h, v_seq = Seq h, v_spare = (h ! 2 AND 0x1C, h ! 3 AND 0x0F)\<rparr>"

lemmas header_view_defs = header_view_def header_getters mask_eq_iff_bit

lemma Seq_update: "i < 4 \<Longrightarrow> Seq (h[i := x]) = Seq h"
  by (simp add: Seq_def)

lemma SetSeq_nth: "wf_header h \<Longrightarrow> i < 4 \<Longrightarrow> SetSeq h s ! i = h ! i"
  by (simp add: SetSeq_def copy_range_def wf_header_def nth_append)

lemma Seq_SetSeq: "wf_header h \<Longrightarrow> Seq (SetSeq h s) = s"
  by (simp add: Seq_def SetSeq_def copy_range_def wf_header_def)

lemma wf_header_setters [simp, intro]:
  assumes "wf_header h"
  shows "wf_header (SetVersion h v)" "wf_header (SetMessageType h mt)" "wf_header (SetHeartbeat h hb)"
    "wf_header (SetOneway h ow)" "wf_header (SetMessageStatusType h ms)"
    "wf_header (SetSerializeType h st)" "wf_header (SetSeq h s)"
  using assms by (simp_all add: wf_header_def header_setters length_copy_range)

lemma view_SetVersion: "wf_header h \<Longrightarrow> header_view (SetVersion h v) = (header_view h)\<lparr>v_version := v\<rparr>"
  by (simp add: header_view_defs SetVersion_def wf_header_def)

lemma view_SetMessageType:
  "wf_header h \<Longrightarrow> header_view (SetMessageType h mt) = (header_view h)\<lparr>v_type := MessageType h OR (mt AND 1)\<rparr>"
  by (simp add: header_view_defs SetMessageType_def wf_header_def)
    ((intro conjI impI byte_eqI)?, (auto simp: bit_simps)+)

lemma view_SetHeartbeat: "wf_header h \<Longrightarrow> header_view (SetHeartbeat h hb) = (header_view h)\<lparr>v_heartbeat := hb\<rparr>"
  by (simp add: header_view_defs SetHeartbeat_def wf_header_def)
    ((intro conjI impI byte_eqI)?, (auto simp: bit_simps)+)

lemma view_SetOneway: "wf_header h \<Longrightarrow> header_view (SetOneway h ow) = (header_view h)\<lparr>v_oneway := ow\<rparr>"
  by (simp add: header_view_defs SetOneway_def wf_header_def)
    ((intro conjI impI byte_eqI)?, (auto simp: bit_simps)+)

lemma view_SetMessageStatusType:
  "wf_header h \<Longrightarrow> header_view (SetMessageStatusType h ms) = (header_view h)\<lparr>v_status := ms AND 3\<rparr>"
  by (simp add: header_view_defs SetMessageStatusType_def wf_header_def)
    ((intro conjI impI byte_eqI)?, (auto simp: bit_simps)+)

lemma view_SetSerializeType:
  "wf_header h \<Longrightarrow> header_view (SetSerializeType h st) = (header_view h)\<lparr>v_serialize := st AND 0x0F\<rparr>"
  by (simp add: header_view_defs SetSerializeType_def wf_header_def)
    ((intro conjI impI byte_eqI)?, (auto simp: bit_simps)+)

lemma view_SetSeq: "wf_header h \<Longrightarrow> header_view (SetSeq h s) = (header_view h)\<lparr>v_seq := s\<rparr>"
  by (simp add: header_view_def Seq_SetSeq) (simp add: header_getters SetSeq_nth)

lemmas header_view_setters = view_SetVersion view_SetMessageType view_SetHeartbeat view_SetOneway
  view_SetMessageStatusType view_SetSerializeType view_SetSeq

lemma flag_byte_ext:
  assumes "drop_bit 7 (x AND 0x80) = drop_bit 7 (y AND 0x80)" "bit x 6 = bit y 6" "bit x 5 = bit y 5"
    "x AND 0x03 = y AND 0x03" "x AND 0x1C = (y :: byte) AND 0x1C"
  shows "x = y"
proof -
  have "bit x 7 = bit y 7"
    using arg_cong [OF assms(1), of "\<lambda>w. bit w 0"] by (simp add: bit_simps)
  moreover have "bit x 0 = bit y 0" "bit x 1 = bit y 1"
    using arg_cong [OF assms(4), of "\<lambda>w. bit w 0"] arg_cong [OF assms(4), of "\<lambda>w. bit w 1"]
    by (simp_all add: bit_simps)
  moreover have "bit x 2 = bit y 2" "bit x 3 = bit y 3" "bit x 4 = bit y 4"
    using arg_cong [OF assms(5), of "\<lambda>w. bit w 2"] arg_cong [OF assms(5), of "\<lambda>w. bit w 3"]
      arg_cong [OF assms(5), of "\<lambda>w. bit w 4"] by (simp_all add: bit_simps)
  ultimately show ?thesis
    using assms(2, 3) by (intro byte_eqI) auto
qed

lemma serialize_byte_ext:
  assumes "drop_bit 4 (x AND 0xF0) = drop_bit 4 (y AND 0xF0)" "x AND 0x0F = (y :: byte) AND 0x0F"
  shows "x = y"
proof -
  have "bit x 4 = bit y 4" "bit x 5 = bit y 5" "bit x 6 = bit y 6" "bit x 7 = bit y 7"
    using arg_cong [OF assms(1), of "\<lambda>w. bit w 0"] arg_cong [OF assms(1), of "\<lambda>w. bit w 1"]
      arg_cong [OF assms(1), of "\<lambda>w. bit w 2"] arg_cong [OF assms(1), of "\<lambda>w. bit w 3"]
    by (simp_all add: bit_simps)
  moreover have "bit x 0 = bit y 0" "bit x 1 = bit y 1" "bit x 2 = bit y 2" "bit x 3 = bit y 3"
    using arg_cong [OF assms(2), of "\<lambda>w. bit w 0"] arg_cong [OF assms(2), of "\<lambda>w. bit w 1"]
      arg_cong [OF assms(2), of "\<lambda>w. bit w 2"] arg_cong [OF assms(2), of "\<lambda>w. bit w 3"]
    by (simp_all add: bit_simps)
  ultimately show ?thesis
    by (intro byte_eqI) auto
qed

lemma Seq_ext:
  assumes "wf_header h" "wf_header h'" "Seq h = Seq h'"
  shows "drop 4 h = drop 4 h'"
proof -
  have "be64 (u64_of (drop 4 h)) = be64 (u64_of (drop 4 h'))"
    using assms(3) by (simp add: Seq_def)
  then show ?thesis using assms(1, 2) by (simp add: be64_u64_of wf_header_def)
qed

lemma header_view_inj:
  assumes wf: "wf_header h" "wf_header h'" and eq: "header_view h = header_view h'"
  shows "h = h'"
proof -
  have bytes: "h ! 0 = h' ! 0" "h ! 1 = h' ! 1" "h ! 2 = h' ! 2" "h ! 3 = h' ! 3"
    using eq by (auto simp: header_view_defs intro: flag_byte_ext serialize_byte_ext)
  have "take 4 h = take 4 h'"
    using wf bytes by (intro nth_equalityI) (auto simp: wf_header_def numeral_eq_Suc less_Suc_eq)
  moreover have "drop 4 h = drop 4 h'"
    using eq by (intro Seq_ext wf) (simp add: header_view_def)
  ultimately show ?thesis by (metis append_take_drop_id)
qed
section \<open>Properties\<close>

text \<open>
  C31: every setter of the header is the update of one field of the abstract header and leaves all
  others, the spare bits included, as they were. The message type is the exception: the setter can
  only switch the bit on. Status and serialization keep the bits their field has room for.
\<close>

theorem header_setters_refine:
  assumes "wf_header h"
  shows "header_view (SetVersion h v) = (header_view h)\<lparr>v_version := v\<rparr> \<and>
    header_view (SetMessageType h mt) = (header_view h)\<lparr>v_type := MessageType h OR (mt AND 1)\<rparr> \<and>
    header_view (SetHeartbeat h hb) = (header_view h)\<lparr>v_heartbeat := hb\<rparr> \<and>
    header_view (SetOneway h ow) = (header_view h)\<lparr>v_oneway := ow\<rparr> \<and>
    header_view (SetMessageStatusType h ms) = (header_view h)\<lparr>v_status := ms AND 3\<rparr> \<and>
    header_view (SetSerializeType h st) = (header_view h)\<lparr>v_serialize := st AND 0x0F\<rparr> \<and>
    header_view (SetSeq h s) = (header_view h)\<lparr>v_seq := s\<rparr>"
  using assms by (simp add: header_view_setters)

theorem header_setters_refine_witness:
  "header_view (SetSeq (replicate 12 0) 7) = (header_view (replicate 12 0))\<lparr>v_seq := 7\<rparr>"
  using header_setters_refine [of "replicate 12 0"] by (simp add: wf_header_def)

text \<open>
  The fields and the spare bits are all there is to a header: two well-formed headers with the
  same abstract header are the same twelve bytes, so the packing of fields into bits loses nothing.
\<close>

theorem header_packing_lossless:
  assumes "wf_header h" and "wf_header h'"
  shows "header_view h = header_view h' \<longleftrightarrow> h = h'"
  using header_view_inj [OF assms] by blast

theorem header_packing_lossless_witness:
  "header_view [8, 0, 0, 0, 0, 0, 0, 0, 0, 0, 0, 0] \<noteq> header_view [8, 0, 0, 0, 0, 0, 0, 0, 0, 0, 0, 7]"
  by (subst header_packing_lossless) (simp_all add: wf_header_def)

end
