(* ===== verification/Message.thy ===== *)
theory Message
  imports Prefix_Codec Header
begin

text \<open>
  The messages of \<^verbatim>\<open>protocol/message.go\<close>: the message type, its construction and cloning, the
  encoder, the decoder with the panics its slice expressions can raise and the deferred
  \<^verbatim>\<open>recover\<close>, and \<^verbatim>\<open>Read\<close>. A frame on the wire is the header, the length of the rest, and four
  length-prefixed fields: service path, service method, metadata, payload.
\<close>

section \<open>Messages\<close>

record message =
  Header :: header
  ServicePath :: string
  ServiceMethod :: string
  Metadata :: "(string, string) gomap"
  Payload :: "byte list"
  mdata :: gslice \<comment> \<open>the buffer \<^verbatim>\<open>data\<close> that \<^verbatim>\<open>Decode\<close> reuses\<close>

definition NewMessage :: message where
  "NewMessage =
     \<lparr>Header = (replicate 12 0)[0 := MagicNumber], ServicePath = [], ServiceMethod = [],
      Metadata = [], Payload = [], mdata = nil_slice\<rparr>"

definition Clone :: "message \<Rightarrow> message" where
  "Clone m =
     (let c = NewMessage;
          c = c\<lparr>Header := Header m\<rparr>;
          c = c\<lparr>ServicePath := ServicePath m\<rparr>
      in c\<lparr>ServiceMethod := ServiceMethod m\<rparr>)"

abbreviation upd_Header :: "(header \<Rightarrow> header) \<Rightarrow> message \<Rightarrow> message" where
  "upd_Header f m \<equiv> m\<lparr>Header := f (Header m)\<rparr>"

section \<open>Strings and bytes\<close>

definition StringToSliceByte :: "string \<Rightarrow> byte list" where
  "StringToSliceByte s = map byte_of_char s"

definition SliceByteToString :: "byte list \<Rightarrow> string" where
  "SliceByteToString b = map char_of_byte b"

lemma length_StringToSliceByte [simp, wire_simps]: "length (StringToSliceByte s) = length s"
  by (simp add: StringToSliceByte_def)

lemma length_SliceByteToString [simp, wire_simps]: "length (SliceByteToString b) = length b"
  by (simp add: SliceByteToString_def)

lemma SliceByteToString_inverse [simp, wire_simps]: "SliceByteToString (StringToSliceByte s) = s"
  by (simp add: SliceByteToString_def StringToSliceByte_def comp_def)

lemma StringToSliceByte_inverse [simp]: "StringToSliceByte (SliceByteToString b) = b"
  by (simp add: SliceByteToString_def StringToSliceByte_def comp_def)

section \<open>Encoding\<close>

fun encodeMetadata :: "(string, string) gomap \<Rightarrow> byte list \<Rightarrow> byte list" where
  "encodeMetadata [] bb = bb"
| "encodeMetadata ((k, v) # m) bb =
     encodeMetadata m
       (bb @ be32 (uint32 (length k)) @ StringToSliceByte k
           @ be32 (uint32 (length v)) @ StringToSliceByte v)"

definition Encode :: "message \<Rightarrow> byte list" where
  "Encode m =
     (let meta = encodeMetadata (Metadata m) [];
          spL = length (ServicePath m);
          smL = length (ServiceMethod m);
          payload = Payload m;
          totalL = (4 + spL) + (4 + smL) + (4 + length meta) + (4 + length payload);
          metaStart = 12 + 4 + (4 + spL) + (4 + smL);
          payLoadStart = metaStart + (4 + length meta);
          l = 12 + 4 + totalL;
          data = replicate l 0;
          data = copy_range data 0 l (Header m);
          data = copy_range data 12 16 (be32 (uint32 totalL));
          data = copy_range data 16 20 (be32 (uint32 spL));
          data = copy_range data 20 (20 + spL) (StringToSliceByte (ServicePath m));
          data = copy_range data (20 + spL) (24 + spL) (be32 (uint32 smL));
          data = copy_range data (24 + spL) metaStart (StringToSliceByte (ServiceMethod m));
          data = copy_range data metaStart (metaStart + 4) (be32 (uint32 (length meta)));
          data = copy_range data (metaStart + 4) payLoadStart meta;
          data = copy_range data payLoadStart (payLoadStart + 4) (be32 (uint32 (length payload)))
      in copy_range data (payLoadStart + 4) l payload)"

section \<open>Decoding\<close>

text \<open>
  The loop of \<^verbatim>\<open>decodeMetadata\<close>. All its arithmetic is on \<^verbatim>\<open>uint32\<close> and wraps around; its slice
  expressions are bounded by the capacity of \<open>data\<close>. It ends in every case: an iteration that does
  not panic moves the position forward.
\<close>

function decode_meta_loop ::
    "u32 \<Rightarrow> gslice \<Rightarrow> u32 \<Rightarrow> (string, string) gomap \<Rightarrow> ((string, string) gomap \<times> go_error option) outcome"
where
  "decode_meta_loop l data n m =
     (if n < l then
        (case reslice data (unat n) (unat (n + 4)) of
           None \<Rightarrow> Panic
         | Some b1 \<Rightarrow>
             let sl = u32_of (sbytes b1); n1 = n + 4
             in if n1 + sl > l - 4 then Return (m, Some ErrMetaKVMissing)
                else (case reslice data (unat n1) (unat (n1 + sl)) of
                        None \<Rightarrow> Panic
                      | Some kb \<Rightarrow>
                          let k = SliceByteToString (sbytes kb); n2 = n1 + sl
                          in (case reslice data (unat n2) (unat (n2 + 4)) of
                                None \<Rightarrow> Panic
                              | Some b2 \<Rightarrow>
                                  let sl2 = u32_of (sbytes b2); n3 = n2 + 4
                                  in if n3 + sl2 > l then Return (m, Some ErrMetaKVMissing)
                                     else (case reslice data (unat n3) (unat (n3 + sl2)) of
                                             None \<Rightarrow> Panic
                                           | Some vb \<Rightarrow>
                                               decode_meta_loop l data (n3 + sl2)
                                                 (gomap_set k (SliceByteToString (sbytes vb)) m)))))
      else Return (m, None))"
  by pat_completeness auto
termination
proof (relation "measure (\<lambda>(l, data, n, m). 2 ^ 32 - unat n)", goal_cases)
  case 1
  then show ?case by simp
next
  case (2 l data n m b1 sl n1 kb k n2 b2 sl2 n3 vb)
  have "unat n \<le> unat n1" "unat n1 \<le> unat n2" "unat n2 \<le> unat n3" "unat n3 \<le> unat (n3 + sl2)"
    using 2 by (auto simp: reslice_Some_iff)
  moreover have "unat n \<noteq> unat n1"
    using 2 by (simp add: word_unat_eq_iff [symmetric])
  moreover have "unat (n3 + sl2) < 2 ^ 32"
    using unsigned_less [of "n3 + sl2", where ?'a = nat] by simp
  ultimately show ?case by auto
qed

declare decode_meta_loop.simps [simp del]

definition decodeMetadata :: "u32 \<Rightarrow> gslice \<Rightarrow> ((string, string) gomap \<times> go_error option) outcome" where
  "decodeMetadata l data = decode_meta_loop l data 0 []"

text \<open>
  One length-prefixed field of a frame: the prefix \<^verbatim>\<open>data[n:n+4]\<close> and the field
  \<^verbatim>\<open>data[n+4:n+4+len]\<close>; the result is the field and its end.
\<close>

definition length_at :: "gslice \<Rightarrow> nat \<Rightarrow> u32 option" where
  "length_at data n =
     (case reslice data n (n + 4) of None \<Rightarrow> None | Some b \<Rightarrow> Some (u32_of (sbytes b)))"

definition field_at :: "gslice \<Rightarrow> nat \<Rightarrow> (gslice \<times> nat) option" where
  "field_at data n =
     (case length_at data n of
        None \<Rightarrow> None
      | Some fl \<Rightarrow>
          let nEnd = n + 4 + unat fl
          in (case reslice data (n + 4) nEnd of None \<Rightarrow> None | Some f \<Rightarrow> Some (f, nEnd)))"

text \<open>The body of \<^verbatim>\<open>Decode\<close> after the frame has been read into \<open>data\<close>.\<close>

definition decode_fields :: "gslice \<Rightarrow> message \<Rightarrow> go_error option outcome \<times> message" where
  "decode_fields data m =
     (case field_at data 0 of
        None \<Rightarrow> (Panic, m)
      | Some (sp, n) \<Rightarrow>
          let m = m\<lparr>ServicePath := SliceByteToString (sbytes sp)\<rparr>
          in (case field_at data n of
                None \<Rightarrow> (Panic, m)
              | Some (sm, n) \<Rightarrow>
                  let m = m\<lparr>ServiceMethod := SliceByteToString (sbytes sm)\<rparr>
                  in (case length_at data n of
                        None \<Rightarrow> (Panic, m)
                      | Some mdl \<Rightarrow>
                          let n = n + 4; nEnd = n + unat mdl;
                              (out, m) =
                                (if mdl > 0
                                 then (case reslice data n nEnd of
                                         None \<Rightarrow> (Panic, m)
                                       | Some mdslice \<Rightarrow>
                                           (case decodeMetadata mdl mdslice of
                                              Panic \<Rightarrow> (Panic, m)
                                            | Return (md, err) \<Rightarrow> (Return err, m\<lparr>Metadata := md\<rparr>)))
                                 else (Return None, m))
                          in (case out of
                                Panic \<Rightarrow> (Panic, m)
                              | Return (Some err) \<Rightarrow> (Return (Some err), m)
                              | Return None \<Rightarrow>
                                  (case field_at data nEnd of
                                     None \<Rightarrow> (Panic, m)
                                   | Some (py, n) \<Rightarrow> (Return None, m\<lparr>Payload := sbytes py\<rparr>))))))"

text \<open>
  \<^verbatim>\<open>Decode\<close> up to the point where the frame is in the buffer: the magic number, the rest of the
  header, the length, the limit \<^verbatim>\<open>MaxMessageLength\<close> (0 for none) and the frame itself. A short read
  overwrites the front of what it reads into.
\<close>

definition decode_frame ::
    "int \<Rightarrow> message \<Rightarrow> reader \<Rightarrow> (go_error + gslice) \<times> message \<times> reader" where
  "decode_frame MaxMessageLength m r =
     (let (b, err, r) = ReadFull r 1; m = upd_Header (\<lambda>h. copy_range h 0 1 b) m
      in case err of Some e \<Rightarrow> (Inl e, m, r) | None \<Rightarrow>
      if \<not> CheckMagicNumber (Header m)
      then (Inl (NewError (''wrong magic number: '' @ dec_of_nat (unat (Header m ! 0)))), m, r)
      else
      let (b, err, r) = ReadFull r 11; m = upd_Header (\<lambda>h. copy_range h 1 12 b) m
      in case err of Some e \<Rightarrow> (Inl e, m, r) | None \<Rightarrow>
      let (lenData, err, r) = ReadFull r 4
      in case err of Some e \<Rightarrow> (Inl e, m, r) | None \<Rightarrow>
      let totalLen = unat (u32_of lenData)
      in if MaxMessageLength > 0 \<and> int totalLen > MaxMessageLength then (Inl ErrMessageTooLong, m, r)
      else
      let m = m\<lparr>mdata := (if scap (mdata m) \<ge> totalLen then Slice (backing (mdata m)) totalLen
                          else make_slice totalLen)\<rparr>;
          (b, err, r) = ReadFull r totalLen;
          m = m\<lparr>mdata := Slice (copy_range (backing (mdata m)) 0 totalLen b) totalLen\<rparr>
      in case err of Some e \<Rightarrow> (Inl e, m, r) | None \<Rightarrow> (Inr (mdata m), m, r))"

definition decode_body :: "int \<Rightarrow> message \<Rightarrow> reader \<Rightarrow> go_error option outcome \<times> message \<times> reader" where
  "decode_body MaxMessageLength m r =
     (case decode_frame MaxMessageLength m r of
        (Inl e, m, r) \<Rightarrow> (Return (Some e), m, r)
      | (Inr data, m, r) \<Rightarrow> (case decode_fields data m of (out, m) \<Rightarrow> (out, m, r)))"

text \<open>The deferred closure recovers a panic; the unnamed error result is then nil.\<close>

definition Decode :: "int \<Rightarrow> message \<Rightarrow> reader \<Rightarrow> go_error option \<times> message \<times> reader" where
  "Decode MaxMessageLength m r =
     (case decode_body MaxMessageLength m r of (out, m, r) \<Rightarrow> (recover_with None out, m, r))"

definition Read :: "int \<Rightarrow> reader \<Rightarrow> (go_error + message) \<times> reader" where
  "Read MaxMessageLength r =
     (case Decode MaxMessageLength NewMessage r of
        (Some e, m, r) \<Rightarrow> (Inl e, r)
      | (None, m, r) \<Rightarrow> (Inr m, r))"

section \<open>The header of a new message\<close>

lemma view_NewMessage: "wf_header (Header NewMessage)" "header_view (Header NewMessage) =
    \<lparr>v_magic = MagicNumber, v_version = 0, v_type = Request, v_heartbeat = False, v_oneway = False,
     v_status = NormalStatus, v_serialize = SerializeNone, v_seq = 0, v_spare = (0, 0)\<rparr>"
  by (simp_all add: NewMessage_def wf_header_def header_view_def header_getters proto_consts u64_of_def)

lemma header_view_select:
  "IsHeartbeat h = v_heartbeat (header_view h)" "IsOneway h = v_oneway (header_view h)"
  "SerializeType h = v_serialize (header_view h)" "Seq h = v_seq (header_view h)"
  "MessageStatusType h = v_status (header_view h)" "CheckMagicNumber h \<longleftrightarrow> v_magic (header_view h) = MagicNumber"
  by (simp_all add: header_view_def CheckMagicNumber_def)

end
