(* ===== verification/Message_Wire.thy ===== *)
theory Message_Wire
  imports Message
begin

text \<open>
  Correctness of the wire format: the layout of an encoded message, the round trip through the
  decoder, streams of frames, what a frame that decodes looks like, and what the decoder makes of
  malformed input. The contract of a self-delimiting encoding is discharged for frames here.
\<close>


section \<open>Layout\<close>

definition field :: "byte list \<Rightarrow> byte list" where
  "field bs = be32 (uint32 (length bs)) @ bs"

definition meta_bytes :: "(string, string) gomap \<Rightarrow> byte list" where
  "meta_bytes m = concat (map (\<lambda>(k, v). field (StringToSliceByte k) @ field (StringToSliceByte v)) m)"

definition frame_body :: "message \<Rightarrow> byte list" where
  "frame_body m =
     field (StringToSliceByte (ServicePath m)) @ field (StringToSliceByte (ServiceMethod m))
     @ field (meta_bytes (Metadata m)) @ field (Payload m)"

definition frame :: "message \<Rightarrow> byte list" where
  "frame m = Header m @ field (frame_body m)"

lemma length_field [simp, wire_simps]: "length (field bs) = 4 + length bs"
  by (simp add: field_def)

lemma field_neq_Nil [simp]: "field bs \<noteq> []"
  by (simp add: field_def be32_def)

lemma sbytes_full [simp, wire_simps]: "sbytes (Slice xs (length xs)) = xs"
  by (simp add: sbytes_def)

lemma sbytes_string [simp, wire_simps]:
  "sbytes (Slice (StringToSliceByte s @ ys) (length s)) = StringToSliceByte s"
  by (simp add: sbytes_def)

lemma encodeMetadata_eq: "encodeMetadata m bb = bb @ meta_bytes m"
  by (induction m bb rule: encodeMetadata.induct) (simp_all add: meta_bytes_def field_def)

text \<open>Pieces copied one after the other into a zeroed buffer of their total length.\<close>

fun fill :: "'a list \<Rightarrow> nat \<Rightarrow> 'a list list \<Rightarrow> 'a list" where
  "fill d pos [] = d"
| "fill d pos (p # ps) = fill (copy_range d pos (pos + length p) p) (pos + length p) ps"

lemma fill_concat:
  "fill (done_part @ replicate (length (concat ps)) z) (length done_part) ps = done_part @ concat ps"
proof (induction ps arbitrary: done_part)
  case Nil
  then show ?case by simp
next
  case (Cons p ps)
  then show ?case
    using copy_range_fill [of "length done_part" done_part _ p "length (concat (p # ps))" z]
      Cons.IH [of "done_part @ p"] by simp
qed

lemma fill_all: "n = length (concat ps) \<Longrightarrow> fill (replicate n z) 0 ps = concat ps"
  using fill_concat [of "[]" ps z] by simp

lemma copy_range_upto: "lo + length src \<le> hi \<Longrightarrow> copy_range d lo hi src = copy_range d lo (lo + length src) src"
  by (simp add: copy_range_def min_absorb2)

lemma Encode_frame:
  assumes "wf_header (Header m)"
  shows "Encode m = frame m"
proof -
  let ?me = "meta_bytes (Metadata m)"
  let ?n = "16 + (length (ServicePath m) + (length (ServiceMethod m) + (length ?me + length (Payload m))))"
  have h: "length (Header m) = 12" using assms by (simp add: wf_header_def)
  have "Encode m = fill (replicate (16 + ?n) 0) 0
      [Header m, be32 (uint32 ?n),
       be32 (uint32 (length (ServicePath m))), StringToSliceByte (ServicePath m),
       be32 (uint32 (length (ServiceMethod m))), StringToSliceByte (ServiceMethod m),
       be32 (uint32 (length ?me)), ?me, be32 (uint32 (length (Payload m))), Payload m]"
    using copy_range_upto [of 0 "Header m" "16 + ?n" "replicate (16 + ?n) 0"]
    by (simp add: Encode_def Let_def encodeMetadata_eq h add.assoc)
  also have "\<dots> = frame m"
    by (subst fill_all) (simp_all add: h frame_def frame_body_def field_def)
  finally show ?thesis .
qed
section \<open>Decoding what was encoded\<close>

lemma length_at_field:
  assumes "n = length pre" and "length xs < 2 ^ 32"
  shows "length_at (Slice (pre @ field xs @ post) l) n = Some (uint32 (length xs))"
  using assms by (simp add: length_at_def field_def reslice_piece [of _ pre _ "be32 _"] wire_simps)

lemma field_at_field:
  assumes "n = length pre" and "length xs < 2 ^ 32"
  shows "field_at (Slice (pre @ field xs @ post) l) n =
    Some (Slice (xs @ post) (length xs), n + 4 + length xs)"
proof -
  have "reslice (Slice ((pre @ be32 (uint32 (length xs))) @ xs @ post) l) (n + 4) (n + 4 + length xs) =
      Some (Slice (xs @ post) (length xs))"
    by (rule reslice_piece) (simp_all add: assms)
  then show ?thesis
    using assms by (simp add: field_at_def length_at_field unat_uint32) (simp add: field_def)
qed

lemma uint32_less: "n < 2 ^ 32 \<Longrightarrow> m < 2 ^ 32 \<Longrightarrow> uint32 n < uint32 m \<longleftrightarrow> n < m"
  by (simp add: word_less_nat_alt unat_uint32)

lemma uint32_add: "uint32 n + 4 = uint32 (n + 4)" "uint32 n + uint32 k = uint32 (n + k)"
  by simp_all

lemma uint32_minus: "4 \<le> n \<Longrightarrow> uint32 n - 4 = uint32 (n - 4)"
  by (simp add: of_nat_diff)

lemma decode_meta_step:
  fixes m :: "(string, string) gomap"
  assumes data: "data = Slice (pre @ field kb @ field vb @ post) c"
    and L: "length pre + 8 + length kb + length vb \<le> L" "L < 2 ^ 32"
  shows "decode_meta_loop (uint32 L) data (uint32 (length pre)) m =
    decode_meta_loop (uint32 L) data (uint32 (length pre + 8 + length kb + length vb))
      (gomap_set (SliceByteToString kb) (SliceByteToString vb) m)"
proof -
  define p a b where "p = length pre" and "a = length kb" and "b = length vb"
  have u: "unat (uint32 x) = x" if "x \<le> L" for x
    using that L(2) by (simp add: unat_uint32)
  have r1: "reslice data p (p + 4) = Some (Slice (be32 (uint32 a) @ kb @ field vb @ post) 4)"
    unfolding data using reslice_piece [of p pre "p + 4" "be32 (uint32 a)"]
    by (simp add: p_def a_def field_def)
  have r2: "reslice data (p + 4) (p + 4 + a) = Some (Slice (kb @ field vb @ post) a)"
    unfolding data using reslice_piece [of "p + 4" "pre @ be32 (uint32 a)" "p + 4 + a" kb]
    by (simp add: p_def a_def field_def)
  have r3: "reslice data (p + 4 + a) (p + 4 + a + 4) = Some (Slice (be32 (uint32 b) @ vb @ post) 4)"
    unfolding data using reslice_piece [of "p + 4 + a" "pre @ field kb" "p + 4 + a + 4" "be32 (uint32 b)"]
    by (simp add: p_def a_def b_def field_def)
  have r4: "reslice data (p + 4 + a + 4) (p + 4 + a + 4 + b) = Some (Slice (vb @ post) b)"
    unfolding data using reslice_piece [of "p + 4 + a + 4" "pre @ field kb @ be32 (uint32 b)" "p + 4 + a + 4 + b" vb]
    by (simp add: p_def a_def b_def field_def)
  have c1: "uint32 p < uint32 L" and c2: "\<not> uint32 L - 4 < uint32 (p + 4 + a)"
    and c3: "\<not> uint32 L < uint32 (p + 4 + a + 4 + b)"
    using L by (simp_all add: word_less_nat_alt uint32_minus unat_uint32 p_def a_def b_def del: of_nat_add of_nat_diff)
  have s: "sbytes (Slice (be32 w @ bs) 4) = be32 w" "sbytes (Slice (kb @ bs) a) = kb"
      "sbytes (Slice (vb @ bs) b) = vb" for w bs
    by (simp_all add: sbytes_def a_def b_def)
  have lens: "p \<le> L" "p + 4 \<le> L" "p + 4 + a \<le> L" "p + 4 + a + 4 \<le> L" "p + 4 + a + 4 + b \<le> L"
    using L by (simp_all add: p_def a_def b_def)
  have "decode_meta_loop (uint32 L) data (uint32 p) m =
    decode_meta_loop (uint32 L) data (uint32 (p + 4 + a + 4 + b))
      (gomap_set (SliceByteToString kb) (SliceByteToString vb) m)"
    by (subst decode_meta_loop.simps)
      (simp only: c1 c2 c3 if_True if_False Let_def uint32_add u lens r1 r2 r3 r4 option.case s
        u32_of_be32_alone)
  then show ?thesis
    by (simp add: p_def a_def b_def algebra_simps)
qed


lemma decode_meta_entries:
  fixes acc :: "(string, string) gomap"
  assumes "length pre + length (meta_bytes es) < 2 ^ 32"
  shows "decode_meta_loop (uint32 (length pre + length (meta_bytes es)))
      (Slice (pre @ meta_bytes es @ post) c) (uint32 (length pre)) acc =
    Return (foldl (\<lambda>m (k, v). gomap_set k v m) acc es, None)"
  using assms
proof (induction es arbitrary: pre acc)
  case Nil
  then show ?case by (subst decode_meta_loop.simps) (simp add: meta_bytes_def)
next
  case (Cons e es)
  obtain k v where e: "e = (k, v)" by (cases e)
  let ?kb = "StringToSliceByte k" and ?vb = "StringToSliceByte v"
  let ?pre = "pre @ field ?kb @ field ?vb"
  have mb: "meta_bytes (e # es) = field ?kb @ field ?vb @ meta_bytes es"
    by (simp add: meta_bytes_def e)
  have lp: "length ?pre = length pre + 8 + length ?kb + length ?vb" by simp
  have L: "length pre + length (meta_bytes (e # es)) = length ?pre + length (meta_bytes es)"
    by (simp add: mb)
  have "decode_meta_loop (uint32 (length ?pre + length (meta_bytes es)))
      (Slice (pre @ meta_bytes (e # es) @ post) c) (uint32 (length pre)) acc =
    decode_meta_loop (uint32 (length ?pre + length (meta_bytes es)))
      (Slice (pre @ meta_bytes (e # es) @ post) c) (uint32 (length ?pre)) (gomap_set k v acc)"
    using decode_meta_step [of "Slice (pre @ meta_bytes (e # es) @ post) c" pre ?kb ?vb
        "meta_bytes es @ post" c "length ?pre + length (meta_bytes es)" acc] Cons.prems
    unfolding L lp by (simp add: mb)
  also have "\<dots> = Return (foldl (\<lambda>m (k, v). gomap_set k v m) (gomap_set k v acc) es, None)"
    using Cons.IH [of ?pre "gomap_set k v acc"] Cons.prems unfolding L by (simp add: mb)
  finally show ?case unfolding L by (simp add: e)
qed

lemma foldl_gomap_set:
  "distinct (map fst acc @ map fst es) \<Longrightarrow> foldl (\<lambda>m (k, v). gomap_set k v m) acc es = acc @ es"
proof (induction es arbitrary: acc)
  case Nil
  then show ?case by simp
next
  case (Cons e es)
  then have "gomap_set (fst e) (snd e) acc = acc @ [e]"
    using gomap_set_fresh [of "fst e" acc "snd e"] by simp
  then show ?case
    using Cons.IH [of "acc @ [e]"] Cons.prems by (cases e) simp
qed

lemma decodeMetadata_meta_bytes:
  assumes "gomap_ok m" and "length (meta_bytes m) < 2 ^ 32"
  shows "decodeMetadata (uint32 (length (meta_bytes m))) (Slice (meta_bytes m @ post) c) = Return (m, None)"
  using decode_meta_entries [of "[]" m post c "[]"] foldl_gomap_set [of "[]" m] assms
  by (simp add: decodeMetadata_def gomap_ok_def)


lemma length_meta_bytes_pos: "es \<noteq> [] \<Longrightarrow> 0 < length (meta_bytes es)"
  by (cases es) (auto simp: meta_bytes_def)

lemma decode_fields_frame_body:
  assumes "gomap_ok (Metadata m)" and "length (frame_body m) < 2 ^ 32"
  shows "decode_fields (Slice (frame_body m) l) m0 =
    (Return None,
     m0\<lparr>ServicePath := ServicePath m, ServiceMethod := ServiceMethod m,
        Metadata := if Metadata m = [] then Metadata m0 else Metadata m, Payload := Payload m\<rparr>)"
proof -
  let ?sp = "StringToSliceByte (ServicePath m)" and ?sm = "StringToSliceByte (ServiceMethod m)"
  let ?me = "meta_bytes (Metadata m)" and ?py = "Payload m"
  let ?s = "Slice (frame_body m) l"
  define p1 p2 p3 where "p1 = 4 + length ?sp" and "p2 = p1 + 4 + length ?sm" and "p3 = p2 + 4 + length ?me"
  have lens: "length ?sp < 2 ^ 32" "length ?sm < 2 ^ 32" "length ?me < 2 ^ 32" "length ?py < 2 ^ 32"
    using assms(2) by (simp_all add: frame_body_def)
  have f1: "field_at ?s 0 = Some (Slice (?sp @ field ?sm @ field ?me @ field ?py) (length ?sp), p1)"
    using field_at_field [of 0 "[]" ?sp "field ?sm @ field ?me @ field ?py" l] lens
    by (simp add: frame_body_def p1_def)
  have f2: "field_at ?s p1 = Some (Slice (?sm @ field ?me @ field ?py) (length ?sm), p2)"
    using field_at_field [of p1 "field ?sp" ?sm "field ?me @ field ?py" l] lens
    by (simp add: frame_body_def p1_def p2_def)
  have l3: "length_at ?s p2 = Some (uint32 (length ?me))"
    using length_at_field [of p2 "field ?sp @ field ?sm" ?me "field ?py" l] lens
    by (simp add: frame_body_def p1_def p2_def)
  have r3: "reslice ?s (p2 + 4) p3 = Some (Slice (?me @ field ?py) (length ?me))"
    using reslice_piece [of "p2 + 4" "field ?sp @ field ?sm @ be32 (uint32 (length ?me))" p3 ?me "field ?py" l]
    by (simp add: frame_body_def p1_def p2_def p3_def field_def [of ?me])
  have f4: "field_at ?s p3 = Some (Slice (?py @ []) (length ?py), p3 + 4 + length ?py)"
    using field_at_field [of p3 "field ?sp @ field ?sm @ field ?me" ?py "[]" l] lens
    by (simp add: frame_body_def p1_def p2_def p3_def)
  have u: "p2 + 4 + unat (uint32 (length ?me)) = p3"
    using lens by (simp add: unat_uint32 p3_def)
  show ?thesis
  proof (cases "Metadata m = []")
    case True
    then have "?me = []" by (simp add: meta_bytes_def)
    then show ?thesis
      using True f1 f2 l3 f4 by (simp add: decode_fields_def p3_def)
  next
    case False
    then have "0 < uint32 (length ?me)"
      using length_meta_bytes_pos [of "Metadata m"] lens by (simp add: word_less_nat_alt unat_uint32)
    then show ?thesis
      using False f1 f2 l3 r3 f4 decodeMetadata_meta_bytes [OF assms(1) lens(3)]
      by (simp add: decode_fields_def u)
  qed
qed

definition within_limit :: "int \<Rightarrow> nat \<Rightarrow> bool" where
  "within_limit lim n \<longleftrightarrow> \<not> (lim > 0 \<and> int n > lim)"

lemma decode_frame_complete:
  assumes H: "wf_header H" "CheckMagicNumber H" and lim: "within_limit lim (length body)"
    and len: "length body < 2 ^ 32" and m: "wf_header (Header m)" "mdata m = nil_slice"
  shows "decode_frame lim m \<lparr>rd_bytes = H @ field body @ rest, rd_err = e\<rparr> =
    (Inr (Slice body (length body)), m\<lparr>Header := H, mdata := Slice body (length body)\<rparr>,
     \<lparr>rd_bytes = rest, rd_err = e\<rparr>)"
proof -
  obtain h hs where Hc: "H = h # hs" "length hs = 11"
    using H by (cases H) (auto simp: wf_header_def)
  have len1: "length (Header m) = 12" using m by (simp add: wf_header_def)
  then obtain k ks where Mc: "Header m = k # ks" "length ks = 11"
    by (cases "Header m") auto
  have r1: "ReadFull \<lparr>rd_bytes = H @ field body @ rest, rd_err = e\<rparr> 1 =
      ([h], None, \<lparr>rd_bytes = hs @ field body @ rest, rd_err = e\<rparr>)"
    using ReadFull_enough [of 1 "[h]"] by (simp add: Hc)
  have r2: "ReadFull \<lparr>rd_bytes = hs @ field body @ rest, rd_err = e\<rparr> 11 =
      (hs, None, \<lparr>rd_bytes = field body @ rest, rd_err = e\<rparr>)"
    by (rule ReadFull_enough) (simp add: Hc)
  have r3: "ReadFull \<lparr>rd_bytes = field body @ rest, rd_err = e\<rparr> 4 =
      (be32 (uint32 (length body)), None, \<lparr>rd_bytes = body @ rest, rd_err = e\<rparr>)"
    using ReadFull_enough [of 4 "be32 (uint32 (length body))"] by (simp add: field_def)
  have r4: "ReadFull \<lparr>rd_bytes = body @ rest, rd_err = e\<rparr> (length body) =
      (body, None, \<lparr>rd_bytes = rest, rd_err = e\<rparr>)"
    by (rule ReadFull_enough) simp
  have h0: "copy_range (Header m) 0 1 [h] = h # ks" and h1: "copy_range (h # ks) 1 12 hs = H"
    using Mc Hc by (simp_all add: copy_range_def)
  have c: "copy_range (replicate (length body) 0) 0 (length body) body = body" "copy_range [] 0 0 [] = ([] :: byte list)"
    by (simp_all add: copy_range_def)
  have u: "unat (uint32 (length body)) = length body"
    using len by (rule unat_uint32)
  have mg: "CheckMagicNumber (h # ks)"
    using H Hc by (simp add: CheckMagicNumber_def)
  show ?thesis
    using m lim
    by (simp add: decode_frame_def r1 r2 r3 r4 h0 h1 c mg u within_limit_def scap_def
        make_slice_def Let_def del: One_nat_def)
qed

section \<open>Messages that survive the wire\<close>

definition wire_ok :: "int \<Rightarrow> message \<Rightarrow> bool" where
  "wire_ok lim m \<longleftrightarrow>
     wf_header (Header m) \<and> CheckMagicNumber (Header m) \<and> gomap_ok (Metadata m) \<and>
     length (frame_body m) < 2 ^ 32 \<and> within_limit lim (length (frame_body m))"

definition received :: "message \<Rightarrow> message" where
  "received m = m\<lparr>mdata := Slice (frame_body m) (length (frame_body m))\<rparr>"

lemma Read_Encode:
  assumes "wire_ok lim m"
  shows "Read lim \<lparr>rd_bytes = Encode m @ rest, rd_err = e\<rparr> =
    (Inr (received m), \<lparr>rd_bytes = rest, rd_err = e\<rparr>)"
proof -
  have n: "wf_header (Header NewMessage)" "mdata NewMessage = nil_slice" "Metadata NewMessage = []"
    by (simp_all add: NewMessage_def wf_header_def)
  have "Encode m @ rest = Header m @ field (frame_body m) @ rest"
    using assms by (simp add: wire_ok_def Encode_frame frame_def)
  then show ?thesis
    using assms n
    by (simp add: wire_ok_def Read_def Decode_def decode_body_def decode_frame_complete
        decode_fields_frame_body) (simp add: received_def)
qed


section \<open>What any decoded frame looks like\<close>

lemma ReadFull_split:
  assumes "ReadFull r n = (b, None, r')"
  shows "rd_bytes r = b @ rd_bytes r' \<and> length b = n \<and> r' = r\<lparr>rd_bytes := rd_bytes r'\<rparr>"
  using assms by (auto simp: ReadFull_def split: if_splits)

text \<open>A reader that starts with a complete frame that the decoder accepts.\<close>

definition complete_frame :: "int \<Rightarrow> reader \<Rightarrow> header \<Rightarrow> byte list \<Rightarrow> byte list \<Rightarrow> bool" where
  "complete_frame lim r H body rest \<longleftrightarrow>
     rd_bytes r = H @ field body @ rest \<and> wf_header H \<and> CheckMagicNumber H \<and>
     length body < 2 ^ 32 \<and> within_limit lim (length body)"

lemma field_of_bytes: "length lb = 4 \<Longrightarrow> length body = unat (u32_of lb) \<Longrightarrow> lb @ body = field body"
  by (simp add: field_def be32_u32_of)

lemma unat_u32_less: "unat (w :: u32) < 2 ^ 32"
  using unsigned_less [of w, where ?'a = nat] by simp

lemma decode_frame_InrD:
  assumes "decode_frame lim m r = (Inr d, m', r')" and wf: "wf_header (Header m)"
  obtains H body where "complete_frame lim r H body (rd_bytes r')"
    and "r' = r\<lparr>rd_bytes := rd_bytes r'\<rparr>"
proof -
  obtain b1 b2 lb b4 r1 r2 r3 where
    q: "ReadFull r 1 = (b1, None, r1)" "ReadFull r1 11 = (b2, None, r2)"
      "ReadFull r2 4 = (lb, None, r3)" "ReadFull r3 (unat (u32_of lb)) = (b4, None, r')"
      and mg: "CheckMagicNumber (copy_range (Header m) 0 1 b1)"
      and lim: "within_limit lim (unat (u32_of lb))"
    using assms(1)
    by (auto simp: decode_frame_def Let_def within_limit_def split: prod.splits option.splits if_splits)
  note s = q [THEN ReadFull_split]
  have "copy_range (Header m) 0 1 b1 = b1 @ drop 1 (Header m)"
    using s(1) by (simp add: copy_range_def)
  then have mg1: "CheckMagicNumber (b1 @ b2)"
    using mg s(1) by (simp add: CheckMagicNumber_def nth_append)
  have "lb @ b4 = field b4"
    using s by (intro field_of_bytes) simp_all
  then have "rd_bytes r = (b1 @ b2) @ field b4 @ rd_bytes r'"
    using s by (metis append.assoc)
  moreover have "r' = r\<lparr>rd_bytes := rd_bytes r'\<rparr>"
    using s by (metis reader.surjective reader.update_convs(1))
  ultimately show ?thesis
    using that [of "b1 @ b2" b4] s lim mg1 unat_u32_less [of "u32_of lb"]
    by (simp add: complete_frame_def wf_header_def)
qed

lemma decode_frame_InlD:
  assumes "decode_frame lim m r = (Inl e, m', r')"
  shows "e \<in> {rd_err r, ErrUnexpectedEOF, ErrMessageTooLong} \<or>
    (\<exists>b. e = NewError (''wrong magic number: '' @ dec_of_nat (unat (b :: byte))))"
  using assms
  by (auto simp: decode_frame_def Let_def ReadFull_def split: prod.splits option.splits if_splits)

definition meta_error_ok :: "((string, string) gomap \<times> go_error option) outcome \<Rightarrow> bool" where
  "meta_error_ok out = (case out of Return (m, Some e) \<Rightarrow> e = ErrMetaKVMissing | _ \<Rightarrow> True)"

lemma meta_error_ok_simps [simp]:
  "meta_error_ok Panic" "meta_error_ok (Return (m, None))"
  "meta_error_ok (Return (m, Some e)) \<longleftrightarrow> e = ErrMetaKVMissing"
  by (simp_all add: meta_error_ok_def)

lemma decode_meta_loop_error: "meta_error_ok (decode_meta_loop l data n m)"
proof (induction l data n m rule: decode_meta_loop.induct)
  case (1 l data n m)
  show ?case
    by (subst decode_meta_loop.simps) (simp add: Let_def "1.IH" split: option.split)
qed

lemma decode_fields_error: "decode_fields data m = (Return (Some e), m') \<Longrightarrow> e = ErrMetaKVMissing"
  by (auto simp: decode_fields_def decodeMetadata_def Let_def
      split: option.splits prod.splits if_splits outcome.splits)
    (metis decode_meta_loop_error meta_error_ok_simps(3))+

lemma Read_complete_frame:
  assumes "complete_frame lim r H body rest"
  shows "Read lim r =
    (case decode_fields (Slice body (length body))
            (NewMessage\<lparr>Header := H, mdata := Slice body (length body)\<rparr>) of
       (Return (Some e), m) \<Rightarrow> Inl e
     | (_, m) \<Rightarrow> Inr m,
     r\<lparr>rd_bytes := rest\<rparr>)"
proof -
  have n: "wf_header (Header NewMessage)" "mdata NewMessage = nil_slice"
    by (simp_all add: NewMessage_def wf_header_def)
  have r: "r = \<lparr>rd_bytes = H @ field body @ rest, rd_err = rd_err r\<rparr>"
    using assms by (simp add: complete_frame_def)
  have "decode_frame lim NewMessage r =
      (Inr (Slice body (length body)), NewMessage\<lparr>Header := H, mdata := Slice body (length body)\<rparr>,
       r\<lparr>rd_bytes := rest\<rparr>)"
    using assms n by (subst (1 2) r) (simp add: complete_frame_def decode_frame_complete)
  then show ?thesis
    by (simp add: Read_def Decode_def decode_body_def split: prod.splits outcome.splits option.splits)
qed

lemma Read_InrD:
  assumes "Read lim r = (Inr m, r')"
  obtains H body where "complete_frame lim r H body (rd_bytes r')"
    and "r' = r\<lparr>rd_bytes := rd_bytes r'\<rparr>"
proof -
  have n: "wf_header (Header NewMessage)" by (simp add: NewMessage_def wf_header_def)
  obtain d m1 where "decode_frame lim NewMessage r = (Inr d, m1, r')"
    using assms
    by (auto simp: Read_def Decode_def decode_body_def split: prod.splits option.splits sum.splits)
  then show ?thesis by (rule decode_frame_InrD [OF _ n]) (rule that)
qed

lemma Read_InlD:
  assumes "Read lim r = (Inl e, r')"
  shows "e \<in> {rd_err r, ErrUnexpectedEOF, ErrMessageTooLong, ErrMetaKVMissing} \<or>
    (\<exists>b. e = NewError (''wrong magic number: '' @ dec_of_nat (unat (b :: byte))))"
proof -
  consider m1 where "decode_frame lim NewMessage r = (Inl e, m1, r')"
    | d m1 m2 where "decode_frame lim NewMessage r = (Inr d, m1, r')"
        "decode_fields d m1 = (Return (Some e), m2)"
    using assms
    by (auto simp: Read_def Decode_def decode_body_def elim!: recover_with.elims
        split: prod.splits option.splits sum.splits)
  then show ?thesis
  proof cases
    case 1
    then show ?thesis by (blast dest: decode_frame_InlD)
  next
    case 2
    then show ?thesis by (simp add: decode_fields_error [OF 2(2)])
  qed
qed

lemma length_at_SomeD:
  assumes "length_at (Slice bs l) n = Some w"
  shows "n + 4 \<le> length bs \<and> w = u32_of (take 4 (drop n bs))"
  using assms by (auto simp: length_at_def reslice_def scap_def sbytes_def split: if_splits)

lemma field_at_SomeD:
  assumes "field_at (Slice bs l) n = Some (f, n')"
  shows "\<exists>xs. drop n bs = field xs @ drop n' bs \<and> sbytes f = xs \<and> n' = n + 4 + length xs \<and> n' \<le> length bs"
proof -
  obtain w where w: "length_at (Slice bs l) n = Some w"
      "reslice (Slice bs l) (n + 4) (n + 4 + unat w) = Some f" and n': "n' = n + 4 + unat w"
    using assms by (auto simp: field_at_def Let_def split: option.splits)
  let ?xs = "take (unat w) (drop (n + 4) bs)"
  have le: "n + 4 + unat w \<le> length bs" and f: "f = Slice (drop (n + 4) bs) (unat w)"
    using w(2) by (auto simp: reslice_Some_iff scap_def)
  have "take 4 (drop n bs) @ ?xs = field ?xs"
    by (rule field_of_bytes) (use le length_at_SomeD [OF w(1)] in auto)
  moreover have "drop n bs = take 4 (drop n bs) @ ?xs @ drop n' bs"
    using append_take_drop_id [of 4 "drop n bs"] append_take_drop_id [of "unat w" "drop (n + 4) bs"] n'
    by (simp add: add.commute add.left_commute)
  ultimately have "drop n bs = field ?xs @ drop n' bs"
    by (metis append.assoc)
  then show ?thesis
    using f le n' by (intro exI [of _ ?xs]) (simp add: sbytes_def)
qed

text \<open>A body that decodes without a panic is four fields, followed by bytes that are ignored.\<close>

lemma decode_fields_sound:
  assumes "decode_fields (Slice body l) m0 = (Return None, m)"
  shows "\<exists>mdb post. body = field (StringToSliceByte (ServicePath m)) @ field (StringToSliceByte (ServiceMethod m))
      @ field mdb @ field (Payload m) @ post"
proof -
  obtain sp n1 sm n2 mdl n3 py n4 where
    f: "field_at (Slice body l) 0 = Some (sp, n1)" "field_at (Slice body l) n1 = Some (sm, n2)"
      "length_at (Slice body l) n2 = Some mdl" "n3 = n2 + 4 + unat mdl"
      "field_at (Slice body l) n3 = Some (py, n4)"
    and m: "ServicePath m = SliceByteToString (sbytes sp)" "ServiceMethod m = SliceByteToString (sbytes sm)"
      "Payload m = sbytes py"
    using assms
    by (auto simp: decode_fields_def Let_def split: option.splits prod.splits if_splits outcome.splits)
  note s1 = field_at_SomeD [OF f(1)] and s2 = field_at_SomeD [OF f(2)] and s4 = field_at_SomeD [OF f(5)]
  let ?mdb = "take (unat mdl) (drop (n2 + 4) body)"
  have "take 4 (drop n2 body) @ ?mdb = field ?mdb"
    by (rule field_of_bytes) (use length_at_SomeD [OF f(3)] s4 f(4) in auto)
  moreover have "drop n2 body = take 4 (drop n2 body) @ ?mdb @ drop n3 body"
    using append_take_drop_id [of 4 "drop n2 body"] append_take_drop_id [of "unat mdl" "drop (n2 + 4) body"] f(4)
    by (simp add: add.commute add.left_commute)
  ultimately have "drop n2 body = field ?mdb @ drop n3 body"
    by (metis append.assoc)
  then have e3: "field ?mdb @ drop n3 body = drop n2 body" by simp
  have "field (sbytes sp) @ drop n1 body = body" "field (sbytes sm) @ drop n2 body = drop n1 body"
    "field (sbytes py) @ drop n4 body = drop n3 body"
    using s1 s2 s4 by auto
  then have "body = field (StringToSliceByte (ServicePath m)) @ field (StringToSliceByte (ServiceMethod m))
      @ field ?mdb @ field (Payload m) @ drop n4 body"
    by (simp only: m StringToSliceByte_inverse e3)
  then show ?thesis by blast
qed

lemma u32_of_take [simp]: "u32_of (take 4 b) = u32_of b"
  by (simp add: u32_of_def)

lemma field_at_None:
  assumes "length body < 4 \<or> length body < 4 + unat (u32_of body)"
  shows "field_at (Slice body l) 0 = None"
  using assms by (auto simp: field_at_def length_at_def reslice_def scap_def sbytes_def Let_def)

section \<open>The frame as a self-delimiting encoding\<close>

definition frame_dec :: "byte list \<Rightarrow> (message \<times> byte list) option" where
  "frame_dec bs =
     (case Read 0 \<lparr>rd_bytes = bs, rd_err = EOF\<rparr> of
        (Inl e, r) \<Rightarrow> None
      | (Inr m, r) \<Rightarrow> Some (m\<lparr>mdata := nil_slice\<rparr>, rd_bytes r))"

definition frame_ok :: "message \<Rightarrow> bool" where
  "frame_ok m \<longleftrightarrow> wire_ok 0 m \<and> mdata m = nil_slice"

interpretation frames: framed_codec Encode frame_dec frame_ok
proof unfold_locales
  fix m rest
  assume "frame_ok m"
  then show "frame_dec (Encode m @ rest) = Some (m, rest)"
    by (simp add: frame_dec_def frame_ok_def Read_Encode) (simp add: received_def)
next
  fix bs m rest
  assume "frame_dec bs = Some (m, rest)"
  then obtain m1 r where "Read 0 \<lparr>rd_bytes = bs, rd_err = EOF\<rparr> = (Inr m1, r)" and "rest = rd_bytes r"
    by (auto simp: frame_dec_def split: sum.splits prod.splits)
  then show "length rest < length bs"
    by (auto simp: complete_frame_def wf_header_def elim!: Read_InrD)
qed

interpretation words: framed_codec be32 "\<lambda>bs. if length bs < 4 then None else Some (u32_of bs, drop 4 bs)" "\<lambda>_. True"
  by unfold_locales (auto split: if_splits)

section \<open>Properties\<close>

text \<open>
  C4: what is written is what is read. A message with a well-formed header, distinct metadata keys
  and a body that fits 32 bits and the limit is read back from its encoding with every field as it
  was, whatever order the metadata was enumerated in, and the reader stands right behind the frame.
\<close>

theorem read_encode_roundtrip:
  assumes "wire_ok lim m"
  shows "Read lim \<lparr>rd_bytes = Encode m @ rest, rd_err = e\<rparr> =
    (Inr (received m), \<lparr>rd_bytes = rest, rd_err = e\<rparr>)"
  using assms by (rule Read_Encode)

definition sample_message :: message where
  "sample_message = NewMessage
     \<lparr>ServicePath := ''Arith'', ServiceMethod := ''Mul'', Metadata := [(''k'', ''v''), (''a'', '''')],
      Payload := [1, 2, 3]\<rparr>"

lemma sample_message_ok: "wire_ok 100 sample_message" "frame_ok sample_message"
  by (simp_all add: wire_ok_def frame_ok_def sample_message_def NewMessage_def wf_header_def
      CheckMagicNumber_def gomap_ok_def frame_body_def meta_bytes_def within_limit_def)

theorem read_encode_roundtrip_witness:
  "Read 100 \<lparr>rd_bytes = Encode sample_message @ [9, 9], rd_err = EOF\<rparr> =
    (Inr (received sample_message), \<lparr>rd_bytes = [9, 9], rd_err = EOF\<rparr>)"
  by (rule read_encode_roundtrip) (rule sample_message_ok)

text \<open>
  A connection carries a sequence of messages unambiguously. From the concatenated encodings of
  any list of messages the reader recovers exactly that list, and leaves the bytes after it.
\<close>

theorem message_stream:
  assumes "list_all frame_ok ms"
  shows "dec_many frame_dec (length ms) (concat (map Encode ms) @ rest) = Some (ms, rest)"
  using assms by (rule frames.stream)

theorem message_stream_witness:
  "dec_many frame_dec 2 (concat (map Encode [sample_message, sample_message]) @ [7]) =
    Some ([sample_message, sample_message], [7])"
  using message_stream [of "[sample_message, sample_message]" "[7]"] sample_message_ok
  by (simp add: numeral_2_eq_2)

text \<open>
  C26: the encoder, which computes offsets and copies pieces into a buffer, produces the header, the
  length of the rest, and the four length-prefixed fields one after the other: no gap, no overlap.
\<close>

theorem encode_layout:
  assumes "wf_header (Header m)"
  shows "Encode m = Header m @ field (frame_body m)"
  using Encode_frame [OF assms] by (simp add: frame_def)

theorem encode_layout_witness:
  "Encode NewMessage = Header NewMessage @ field [0, 0, 0, 0, 0, 0, 0, 0, 0, 0, 0, 0, 0, 0, 0, 0]"
  using encode_layout [of NewMessage]
  by (simp add: NewMessage_def wf_header_def frame_body_def field_def meta_bytes_def be32_def
      StringToSliceByte_def)

text \<open>
  C36: framing is never lost. Whenever \<^verbatim>\<open>Read\<close> returns a message, even one whose body made the decoder
  panic, it has consumed one complete frame with the right magic number and within the limit, and
  not a byte more.
\<close>

theorem read_consumes_one_frame:
  assumes "Read lim r = (Inr m, r')"
  shows "\<exists>H body. complete_frame lim r H body (rd_bytes r') \<and> r' = r\<lparr>rd_bytes := rd_bytes r'\<rparr>"
  using Read_InrD [OF assms] by metis

theorem read_consumes_one_frame_witness:
  "\<exists>H body. complete_frame 100 \<lparr>rd_bytes = Encode sample_message @ [9, 9], rd_err = EOF\<rparr> H body [9, 9]"
  using read_consumes_one_frame [OF Read_Encode [OF sample_message_ok(1), of "[9, 9]" EOF]] by simp

text \<open>
  A body the decoder accepts without panicking is exactly the length-prefixed service path,
  service method, some metadata section and payload that the message reports, followed by bytes that
  are ignored: the decoder invents nothing.
\<close>

theorem decode_fields_only_what_is_there:
  assumes "decode_fields (Slice body l) m0 = (Return None, m)"
  shows "\<exists>mdb post. body = field (StringToSliceByte (ServicePath m)) @ field (StringToSliceByte (ServiceMethod m))
      @ field mdb @ field (Payload m) @ post"
  using assms by (rule decode_fields_sound)

theorem decode_fields_only_what_is_there_witness:
  "\<exists>mdb post. frame_body sample_message = field (StringToSliceByte ''Arith'') @ field (StringToSliceByte ''Mul'')
      @ field mdb @ field [1, 2, 3] @ post"
proof -
  have "decode_fields (Slice (frame_body sample_message) 0) NewMessage =
      (Return None, sample_message)"
    using sample_message_ok(1)
    by (subst decode_fields_frame_body) (simp_all add: wire_ok_def sample_message_def NewMessage_def)
  from decode_fields_only_what_is_there [OF this] show ?thesis
    by (simp add: sample_message_def)
qed

text \<open>
  A malformed body is not an error. When the length prefix of the service path does not fit the
  frame, the slice expression panics, the deferred recover swallows the panic, and \<^verbatim>\<open>Read\<close> reports
  success with a message that has the header and nothing else.
\<close>

theorem malformed_body_accepted:
  assumes "complete_frame lim r H body rest"
    and "length body < 4 \<or> length body < 4 + unat (u32_of body)"
  shows "Read lim r =
    (Inr (NewMessage\<lparr>Header := H, mdata := Slice body (length body)\<rparr>), r\<lparr>rd_bytes := rest\<rparr>)"
  using Read_complete_frame [OF assms(1)] field_at_None [OF assms(2)]
  by (simp add: decode_fields_def)

theorem malformed_body_accepted_witness:
  "Read 0 \<lparr>rd_bytes = Header NewMessage @ field [0, 0, 0, 9] @ [5], rd_err = EOF\<rparr> =
    (Inr (NewMessage\<lparr>mdata := Slice [0, 0, 0, 9] 4\<rparr>), \<lparr>rd_bytes = [5], rd_err = EOF\<rparr>)"
proof -
  have "complete_frame 0 \<lparr>rd_bytes = Header NewMessage @ field [0, 0, 0, 9] @ [5], rd_err = EOF\<rparr>
      (Header NewMessage) [0, 0, 0, 9] [5]"
    by (simp add: complete_frame_def wf_header_def CheckMagicNumber_def NewMessage_def within_limit_def)
  from malformed_body_accepted [OF this] show ?thesis
    by (simp add: u32_of_def)
qed

text \<open>
  \<^verbatim>\<open>Read\<close> fails only with the error of the underlying reader, an unexpected end of file, a wrong
  magic number, a message beyond the limit or missing metadata. In particular it never reports the
  rate-limit error that the server's connection loop tests for.
\<close>

theorem read_errors:
  assumes "Read lim r = (Inl e, r')"
  shows "e \<in> {rd_err r, ErrUnexpectedEOF, ErrMessageTooLong, ErrMetaKVMissing} \<or>
    (\<exists>b. e = NewError (''wrong magic number: '' @ dec_of_nat (unat (b :: byte))))"
  using assms by (rule Read_InlD)

theorem read_errors_witness:
  "fst (Read 0 \<lparr>rd_bytes = [], rd_err = EOF\<rparr>) = Inl EOF \<and>
   EOF \<in> {EOF, ErrUnexpectedEOF, ErrMessageTooLong, ErrMetaKVMissing}"
proof -
  have "Read 0 \<lparr>rd_bytes = [], rd_err = EOF\<rparr> = (Inl EOF, \<lparr>rd_bytes = [], rd_err = EOF\<rparr>)"
    by (simp add: Read_def Decode_def decode_body_def decode_frame_def ReadFull_def Let_def)
  with read_errors [OF this] show ?thesis by simp
qed

end
