(* ===== verification/Reflect.thy ===== *)
theory Reflect
  imports Message_Wire
begin

text \<open>
  What the server uses of Go's \<^verbatim>\<open>reflect\<close> package: types, methods and dynamic values. A type is a
  pointer to a type or a type with a package path and a name; it carries the names of the interfaces
  it implements. The values themselves, of type \<open>'v\<close>, and their methods are parameters, collected in
  the record \<open>golib\<close> together with the marshalling libraries.
\<close>

datatype rtype =
    PtrT (Elem: rtype) (implemented: "string list")
  | BaseT (base_PkgPath: string) (base_Name: string) (implemented: "string list")

definition is_Pointer :: "rtype \<Rightarrow> bool" where
  "is_Pointer t \<longleftrightarrow> (case t of PtrT e i \<Rightarrow> True | BaseT p n i \<Rightarrow> False)"

definition PkgPath :: "rtype \<Rightarrow> string" where
  \<comment> \<open>pointer types are unnamed\<close>
  "PkgPath t = (case t of PtrT e i \<Rightarrow> [] | BaseT p n i \<Rightarrow> p)"

definition TypeName :: "rtype \<Rightarrow> string" where
  "TypeName t = (case t of PtrT e i \<Rightarrow> [] | BaseT p n i \<Rightarrow> n)"

definition Implements :: "rtype \<Rightarrow> string \<Rightarrow> bool" where
  "Implements t iface \<longleftrightarrow> iface \<in> set (implemented t)"

definition typeOfError :: rtype where
  "typeOfError = BaseT [] ''error'' [''error'']"

definition typeOfContext :: string where
  "typeOfContext = ''context.Context''"

text \<open>
  A method of a registered instance: its name and package path, the types of its parameters (the
  receiver first) and results, and the function itself. Calling it on the argument and the reply
  value either returns an error value or panics, and changes both values. The receiver and the context
  that the method is also given are part of the function: what a method does is taken to depend on its
  argument and the reply object only, not on state that the service keeps between calls, and not on the
  deadline or the values of the context.
\<close>

record 'v rmethod =
  m_Name :: string
  m_PkgPath :: string
  m_In :: "rtype list"
  m_Out :: "rtype list"
  m_Func :: "'v \<Rightarrow> 'v \<Rightarrow> go_error option outcome \<times> 'v \<times> 'v"

record 'v golib =
  proto_Marshal :: "'v \<Rightarrow> (go_error + byte list) option" \<comment> \<open>\<^term>\<open>None\<close>: not a \<^verbatim>\<open>proto.Marshaler\<close>\<close>
  pb_Marshal :: "'v \<Rightarrow> (go_error + byte list) option" \<comment> \<open>\<^term>\<open>None\<close>: not a \<^verbatim>\<open>pb.Message\<close>\<close>
  proto_Unmarshal :: "'v \<Rightarrow> (byte list \<Rightarrow> go_error option \<times> 'v) option"
  pb_Unmarshal :: "'v \<Rightarrow> (byte list \<Rightarrow> go_error option \<times> 'v) option"
  json_Marshal :: "'v \<Rightarrow> go_error + byte list"
  json_Decode :: "'v \<Rightarrow> byte list \<Rightarrow> go_error option \<times> 'v"
  type_string :: "'v \<Rightarrow> string" \<comment> \<open>what \<^verbatim>\<open>%T\<close> prints\<close>
  reflect_New :: "rtype \<Rightarrow> 'v" \<comment> \<open>\<^verbatim>\<open>reflect.New(t).Interface()\<close>: a pointer to the zero value of \<open>t\<close>\<close>
  has_type :: "rtype \<Rightarrow> 'v \<Rightarrow> bool" \<comment> \<open>the value is a pointer to a value of that type\<close>
  Reset :: "'v \<Rightarrow> 'v option" \<comment> \<open>the value after its \<^verbatim>\<open>Reset\<close> method; \<^term>\<open>None\<close>: it has none\<close>

end
