(* ===== verification/Pool.thy ===== *)
theory Pool
  imports Reflect
begin

text \<open>
  The pools of argument and reply objects of \<^verbatim>\<open>server/pool.go\<close>: a map from types to \<^verbatim>\<open>sync.Pool\<close>s. A
  \<^verbatim>\<open>sync.Pool\<close> promises little: \<^verbatim>\<open>Get\<close> hands out one of the objects put into it or a new one, as it
  likes. The choice is an argument (\<^term>\<open>None\<close> for a new object), so every statement holds for every
  choice.
\<close>

type_synonym 'v typePools = "(rtype, 'v list) gomap"

definition pool_New :: "'v golib \<Rightarrow> rtype \<Rightarrow> 'v" where
  "pool_New lib t = (if is_Pointer t then reflect_New lib (Elem t) else reflect_New lib t)"

definition pool_Init :: "rtype \<Rightarrow> 'v typePools \<Rightarrow> 'v typePools" where
  \<comment> \<open>replaces a pool that may be there already\<close>
  "pool_Init t p = gomap_set t [] p"

definition pool_Put :: "'v golib \<Rightarrow> rtype \<Rightarrow> 'v \<Rightarrow> 'v typePools \<Rightarrow> 'v typePools outcome" where
  "pool_Put lib t x p =
     (case Reset lib x of
        None \<Rightarrow> Return p
      | Some x' \<Rightarrow>
          (case map_of p t of
             None \<Rightarrow> Panic \<comment> \<open>\<^verbatim>\<open>Put\<close> on a nil pool\<close>
           | Some items \<Rightarrow> Return (gomap_set t (x' # items) p)))"

definition pool_Get :: "'v golib \<Rightarrow> rtype \<Rightarrow> nat option \<Rightarrow> 'v typePools \<Rightarrow> ('v \<times> 'v typePools) outcome" where
  "pool_Get lib t pick p =
     (case map_of p t of
        None \<Rightarrow> Panic
      | Some items \<Rightarrow>
          (case pick of
             None \<Rightarrow> Return (pool_New lib t, p)
           | Some i \<Rightarrow>
               if i < length items
               then Return (items ! i, gomap_set t (take i items @ drop (Suc i) items) p)
               else Return (pool_New lib t, p)))"

definition pool_GetRaw :: "'v golib \<Rightarrow> rtype \<Rightarrow> 'v" where
  "pool_GetRaw lib t = (if is_Pointer t then reflect_New lib (Elem t) else reflect_New lib t)"

section \<open>The contract of an object pool\<close>

text \<open>
  What the request handler relies on: for a type the pool knows, getting and putting never panics,
  and an object from the pool is as good as a new one. \<open>fresh\<close> is a new object, \<open>typed\<close> says that an
  object may be put back under a type.
\<close>

locale object_pool =
  fixes inv :: "'p \<Rightarrow> bool" and known :: "'p \<Rightarrow> 't set" and fresh :: "'t \<Rightarrow> 'v" and typed :: "'t \<Rightarrow> 'v \<Rightarrow> bool"
    and init :: "'t \<Rightarrow> 'p \<Rightarrow> 'p" and put :: "'t \<Rightarrow> 'v \<Rightarrow> 'p \<Rightarrow> 'p outcome"
    and get :: "'t \<Rightarrow> nat option \<Rightarrow> 'p \<Rightarrow> ('v \<times> 'p) outcome"
  assumes inv_init: "inv p \<Longrightarrow> inv (init t p)"
    and known_init: "known (init t p) = insert t (known p)"
    and put_known: "inv p \<Longrightarrow> t \<in> known p \<Longrightarrow> typed t x \<Longrightarrow>
      \<exists>p'. put t x p = Return p' \<and> inv p' \<and> known p' = known p"
    and get_known: "inv p \<Longrightarrow> t \<in> known p \<Longrightarrow>
      \<exists>p'. get t pick p = Return (fresh t, p') \<and> inv p' \<and> known p' = known p"
begin

lemma inits: "inv p \<Longrightarrow> inv (fold init ts p) \<and> known (fold init ts p) = set ts \<union> known p"
  by (induction ts arbitrary: p) (auto simp: inv_init known_init)

lemma get_after_put:
  assumes "inv p" "t \<in> known p" "typed t x"
  shows "\<exists>p1 p2. put t x p = Return p1 \<and> get t pick p1 = Return (fresh t, p2) \<and> inv p2 \<and> known p2 = known p"
proof -
  obtain p1 where p1: "put t x p = Return p1" "inv p1" "known p1 = known p"
    using put_known [OF assms] by blast
  then show ?thesis
    using get_known [of p1 t pick] assms(2) by auto
qed

end

section \<open>The type pools satisfy it\<close>

text \<open>
  The documented behaviour of \<^verbatim>\<open>Reset\<close> (for generated protobuf messages, \<^verbatim>\<open>*x = T{}\<close>): it leaves the zero
  value of the object's type.
\<close>

definition Reset_zeroes :: "'v golib \<Rightarrow> bool" where
  "Reset_zeroes lib \<longleftrightarrow> (\<forall>t x z. has_type lib t x \<longrightarrow> Reset lib x = Some z \<longrightarrow> z = reflect_New lib t)"

definition pooled_type :: "'v golib \<Rightarrow> rtype \<Rightarrow> 'v \<Rightarrow> bool" where
  \<comment> \<open>the object a pool for \<open>t\<close> holds: a pointer to the pointed-to type, or to the type itself\<close>
  "pooled_type lib t x = has_type lib (if is_Pointer t then Elem t else t) x"

definition pools_inv :: "'v golib \<Rightarrow> 'v typePools \<Rightarrow> bool" where
  "pools_inv lib p \<longleftrightarrow> Reset_zeroes lib \<and> gomap_ok p \<and>
     (\<forall>t items. map_of p t = Some items \<longrightarrow> (\<forall>x \<in> set items. x = pool_New lib t))"

definition known_types :: "'v typePools \<Rightarrow> rtype set" where
  "known_types p = dom (map_of p)"

lemma pool_Put_known:
  assumes "pools_inv lib p" "t \<in> known_types p" "pooled_type lib t x"
  shows "\<exists>p'. pool_Put lib t x p = Return p' \<and> pools_inv lib p' \<and> known_types p' = known_types p"
proof (cases "Reset lib x")
  case None
  then show ?thesis using assms by (simp add: pool_Put_def)
next
  case (Some z)
  obtain items where items: "map_of p t = Some items"
    using assms(2) by (auto simp: known_types_def)
  have "z = pool_New lib t"
    using assms(1,3) Some by (auto simp: pools_inv_def Reset_zeroes_def pooled_type_def pool_New_def split: if_splits)
  then show ?thesis
    using assms(1) Some items by (auto simp: pool_Put_def pools_inv_def known_types_def)
qed

lemma pool_Get_known:
  assumes "pools_inv lib p" "t \<in> known_types p"
  shows "\<exists>p'. pool_Get lib t pick p = Return (pool_New lib t, p') \<and> pools_inv lib p' \<and> known_types p' = known_types p"
proof -
  obtain items where items: "map_of p t = Some items"
    using assms(2) by (auto simp: known_types_def)
  have new: "x = pool_New lib t" if "x \<in> set items" for x
    using assms(1) items that by (auto simp: pools_inv_def)
  show ?thesis
    using assms(1) items new
    by (auto simp: pool_Get_def pools_inv_def known_types_def split: option.split
        dest!: in_set_takeD in_set_dropD)
qed

interpretation type_pools: object_pool "pools_inv lib" known_types "pool_New lib" "pooled_type lib"
    pool_Init "pool_Put lib" "pool_Get lib" for lib
proof unfold_locales
  fix p :: "'a typePools" and t
  assume "pools_inv lib p"
  then show "pools_inv lib (pool_Init t p)"
    by (auto simp: pools_inv_def pool_Init_def)
next
  fix p :: "'a typePools" and t
  show "known_types (pool_Init t p) = insert t (known_types p)"
    by (auto simp: known_types_def pool_Init_def)
qed (auto intro: pool_Put_known pool_Get_known)

section \<open>Properties\<close>

text \<open>
  C23: the pools never carry data from one request to another. If \<^verbatim>\<open>Reset\<close> does what it is documented
  to do, an object put back and then taken out again, whichever object the pool picks, is equal to a
  newly allocated one, and neither step panics for a registered type.
\<close>

theorem pool_objects_are_clean:
  assumes "pools_inv lib p" and "t \<in> known_types p" and "pooled_type lib t x"
  shows "\<exists>p1 p2. pool_Put lib t x p = Return p1 \<and> pool_Get lib t pick p1 = Return (pool_GetRaw lib t, p2) \<and>
    pools_inv lib p2 \<and> known_types p2 = known_types p"
  using type_pools.get_after_put [OF assms, of pick] by (simp add: pool_New_def pool_GetRaw_def)

text \<open>A small library for the examples: the values are numbers, the zero value is 0.\<close>

definition nat_lib :: "nat golib" where
  "nat_lib =
     \<lparr>proto_Marshal = (\<lambda>v. Some (Inr [word_of_nat v])), pb_Marshal = (\<lambda>_. None),
      proto_Unmarshal = (\<lambda>v. Some (\<lambda>bs. case bs of [] \<Rightarrow> (Some (NewError ''empty''), v) | b # _ \<Rightarrow> (None, unat b))),
      pb_Unmarshal = (\<lambda>_. None),
      json_Marshal = (\<lambda>v. Inr [word_of_nat v]),
      json_Decode = (\<lambda>v bs. case bs of [] \<Rightarrow> (Some EOF, v) | b # _ \<Rightarrow> (None, unat b)),
      type_string = (\<lambda>_. ''nat''), reflect_New = (\<lambda>_. 0), has_type = (\<lambda>_ _. True), Reset = (\<lambda>_. Some 0)\<rparr>"

lemma nat_lib_Reset: "Reset_zeroes nat_lib"
  by (simp add: Reset_zeroes_def nat_lib_def)

lemma nat_lib_has_type: "has_type nat_lib t x"
  by (simp add: nat_lib_def)

theorem pool_objects_are_clean_witness:
  "\<exists>p1 p2. pool_Put nat_lib (BaseT [] ''int'' []) 7 (pool_Init (BaseT [] ''int'' []) []) = Return p1 \<and>
    pool_Get nat_lib (BaseT [] ''int'' []) (Some 0) p1 = Return (pool_GetRaw nat_lib (BaseT [] ''int'' []), p2)"
proof -
  let ?t = "BaseT [] ''int'' []"
  have "pools_inv nat_lib (pool_Init ?t [])" "?t \<in> known_types (pool_Init ?t [])" "pooled_type nat_lib ?t 7"
    using nat_lib_Reset by (simp_all add: pools_inv_def pool_Init_def known_types_def pooled_type_def
        nat_lib_has_type gomap_ok_def)
  from pool_objects_are_clean [OF this, of "Some 0"] show ?thesis by blast
qed

end
