(* ===== verification/Plugin.thy ===== *)
theory Plugin
  imports Message_Wire
begin

text \<open>
  The error aggregate of \<^verbatim>\<open>error/multi_error.go\<close> and the plugin container of \<^verbatim>\<open>server/plugin.go\<close>. A
  plugin is an opaque value that may implement some of the hook interfaces; its hooks act on a world
  state \<open>'w\<close> that stands for everything outside the container (the registry service, sockets, the
  plugin's own fields).
\<close>

section \<open>MultiError\<close>

record MultiError =
  Errors :: "go_error list"

definition NewMultiError :: "go_error list \<Rightarrow> MultiError" where
  "NewMultiError errors = \<lparr>Errors = errors\<rparr>"

definition MultiError_Append :: "MultiError \<Rightarrow> go_error \<Rightarrow> MultiError" where
  "MultiError_Append e err = e\<lparr>Errors := Errors e @ [err]\<rparr>"

definition MultiError_Error :: "MultiError \<Rightarrow> string" where
  "MultiError_Error e = ''['' @ join_spaces (map err_string (Errors e)) @ '']''"

text \<open>The aggregate as a value of type \<^verbatim>\<open>error\<close>.\<close>

abbreviation as_error :: "MultiError \<Rightarrow> go_error" where
  "as_error e \<equiv> MultiErr (Errors e)"

definition ErrorOrNil :: "MultiError option \<Rightarrow> go_error option" where
  \<comment> \<open>the receiver is a pointer that may be nil\<close>
  "ErrorOrNil e =
     (case e of
        None \<Rightarrow> None
      | Some e \<Rightarrow> if length (Errors e) = 0 then None else Some (as_error e))"

lemma MultiError_Error_as_error: "MultiError_Error e = err_string (as_error e)"
  by (simp add: MultiError_Error_def)

lemma ErrorOrNil_None_iff: "ErrorOrNil (Some e) = None \<longleftrightarrow> Errors e = []"
  by (simp add: ErrorOrNil_def)

lemma foldl_Append: "Errors (foldl MultiError_Append e errs) = Errors e @ errs"
  by (induction errs arbitrary: e) (simp_all add: MultiError_Append_def)

section \<open>Plugins\<close>

type_synonym conn = nat \<comment> \<open>the identity of a \<^verbatim>\<open>net.Conn\<close>\<close>

text \<open>
  A plugin and the interfaces its dynamic type implements: \<^verbatim>\<open>RegisterPlugin\<close> (both methods),
  \<^verbatim>\<open>PostConnAcceptPlugin\<close>, \<^verbatim>\<open>PostConnClosePlugin\<close> and \<^verbatim>\<open>PreCallPlugin\<close>. \<^verbatim>\<open>pl_id\<close> is what interface
  comparison compares. A hook returns its results and the world after the call.
\<close>

record ('a, 'w) plugin =
  pl_id :: nat
  pl_Register :: "(string \<Rightarrow> 'w \<Rightarrow> go_error option \<times> 'w) option"
  pl_UnRegister :: "(string \<Rightarrow> 'w \<Rightarrow> go_error option \<times> 'w) option"
  pl_HandleConnAccept :: "(conn \<Rightarrow> 'w \<Rightarrow> (conn \<times> bool) \<times> 'w) option"
  pl_HandleConnClose :: "(conn \<Rightarrow> 'w \<Rightarrow> bool \<times> 'w) option"
  pl_PreCall :: "(string \<Rightarrow> string \<Rightarrow> 'a \<Rightarrow> 'w \<Rightarrow> ('a \<times> go_error option) \<times> 'w) option"

record ('a, 'w) pluginContainer =
  plugins :: "('a, 'w) plugin list"

definition Add :: "('a, 'w) pluginContainer \<Rightarrow> ('a, 'w) plugin \<Rightarrow> ('a, 'w) pluginContainer" where
  "Add p plugin = p\<lparr>plugins := plugins p @ [plugin]\<rparr>"

fun remove_loop :: "('a, 'w) plugin list \<Rightarrow> nat \<Rightarrow> ('a, 'w) plugin list \<Rightarrow> ('a, 'w) plugin list" where
  "remove_loop [] i acc = acc"
| "remove_loop (pp # ps) i acc = remove_loop ps i (if pl_id pp \<noteq> i then acc @ [pp] else acc)"

definition Remove :: "('a, 'w) pluginContainer \<Rightarrow> ('a, 'w) plugin \<Rightarrow> ('a, 'w) pluginContainer" where
  "Remove p plugin = p\<lparr>plugins := remove_loop (plugins p) (pl_id plugin) []\<rparr>"

definition All :: "('a, 'w) pluginContainer \<Rightarrow> ('a, 'w) plugin list" where
  "All p = plugins p"

text \<open>The two registration loops; \<open>errs\<close> is the slice of errors collected so far.\<close>

fun do_register_loop ::
    "('a, 'w) plugin list \<Rightarrow> string \<Rightarrow> go_error list \<Rightarrow> 'w \<Rightarrow> go_error list \<times> 'w" where
  "do_register_loop [] name errs w = (errs, w)"
| "do_register_loop (pp # ps) name errs w =
     (case pl_Register pp of
        None \<Rightarrow> do_register_loop ps name errs w
      | Some register \<Rightarrow>
          (case register name w of
             (None, w) \<Rightarrow> do_register_loop ps name errs w
           | (Some err, w) \<Rightarrow> do_register_loop ps name (errs @ [err]) w))"

fun do_unregister_loop ::
    "('a, 'w) plugin list \<Rightarrow> string \<Rightarrow> go_error list \<Rightarrow> 'w \<Rightarrow> go_error list \<times> 'w" where
  "do_unregister_loop [] name errs w = (errs, w)"
| "do_unregister_loop (pp # ps) name errs w =
     (case pl_UnRegister pp of
        None \<Rightarrow> do_unregister_loop ps name errs w
      | Some unregister \<Rightarrow>
          (case unregister name w of
             (None, w) \<Rightarrow> do_unregister_loop ps name errs w
           | (Some err, w) \<Rightarrow> do_unregister_loop ps name (errs @ [err]) w))"

definition errors_result :: "go_error list \<Rightarrow> go_error option" where
  \<comment> \<open>the tail both loops share: a MultiError when something was collected\<close>
  "errors_result errs = (if length errs > 0 then Some (as_error (NewMultiError errs)) else None)"

definition DoRegister :: "('a, 'w) pluginContainer \<Rightarrow> string \<Rightarrow> 'w \<Rightarrow> go_error option \<times> 'w" where
  "DoRegister p name w =
     (case do_register_loop (plugins p) name [] w of (errs, w) \<Rightarrow> (errors_result errs, w))"

definition DoUnRegister :: "('a, 'w) pluginContainer \<Rightarrow> string \<Rightarrow> 'w \<Rightarrow> go_error option \<times> 'w" where
  "DoUnRegister p name w =
     (case do_unregister_loop (plugins p) name [] w of (errs, w) \<Rightarrow> (errors_result errs, w))"

fun post_accept_loop ::
    "(conn \<Rightarrow> 'w \<Rightarrow> 'w) \<Rightarrow> ('a, 'w) plugin list \<Rightarrow> conn \<Rightarrow> 'w \<Rightarrow> (conn \<times> bool) \<times> 'w" where
  "post_accept_loop close [] c w = ((c, True), w)"
| "post_accept_loop close (pp # ps) c w =
     (case pl_HandleConnAccept pp of
        None \<Rightarrow> post_accept_loop close ps c w
      | Some handle \<Rightarrow>
          (case handle c w of
             ((c, flag), w) \<Rightarrow>
               if \<not> flag then ((c, False), close c w) else post_accept_loop close ps c w))"

definition DoPostConnAccept ::
    "(conn \<Rightarrow> 'w \<Rightarrow> 'w) \<Rightarrow> ('a, 'w) pluginContainer \<Rightarrow> conn \<Rightarrow> 'w \<Rightarrow> (conn \<times> bool) \<times> 'w" where
  \<comment> \<open>\<open>close\<close> is \<^verbatim>\<open>conn.Close()\<close>\<close>
  "DoPostConnAccept close p c w = post_accept_loop close (plugins p) c w"

fun post_close_loop :: "('a, 'w) plugin list \<Rightarrow> conn \<Rightarrow> 'w \<Rightarrow> bool \<times> 'w" where
  "post_close_loop [] c w = (True, w)"
| "post_close_loop (pp # ps) c w =
     (case pl_HandleConnClose pp of
        None \<Rightarrow> post_close_loop ps c w
      | Some handle \<Rightarrow>
          (case handle c w of (flag, w) \<Rightarrow> if \<not> flag then (False, w) else post_close_loop ps c w))"

definition DoPostConnClose :: "('a, 'w) pluginContainer \<Rightarrow> conn \<Rightarrow> 'w \<Rightarrow> bool \<times> 'w" where
  "DoPostConnClose p c w = post_close_loop (plugins p) c w"

fun pre_call_loop ::
    "('a, 'w) plugin list \<Rightarrow> string \<Rightarrow> string \<Rightarrow> 'a \<Rightarrow> 'w \<Rightarrow> ('a \<times> go_error option) \<times> 'w" where
  "pre_call_loop [] s m args w = ((args, None), w)"
| "pre_call_loop (pp # ps) s m args w =
     (case pl_PreCall pp of
        None \<Rightarrow> pre_call_loop ps s m args w
      | Some precall \<Rightarrow>
          (case precall s m args w of
             ((args, Some err), w) \<Rightarrow> ((args, Some err), w)
           | ((args, None), w) \<Rightarrow> pre_call_loop ps s m args w))"

definition DoPreCall ::
    "('a, 'w) pluginContainer \<Rightarrow> string \<Rightarrow> string \<Rightarrow> 'a \<Rightarrow> 'w \<Rightarrow> ('a \<times> go_error option) \<times> 'w" where
  "DoPreCall p s m args w = pre_call_loop (plugins p) s m args w"

section \<open>The container as an interface\<close>

text \<open>
  What a client of \<^verbatim>\<open>PluginContainer\<close> relies on: additions go to the end, and removal takes away every
  occurrence of a plugin and nothing else.
\<close>

locale plugin_container =
  fixes add :: "'c \<Rightarrow> 'p \<Rightarrow> 'c" and remove :: "'c \<Rightarrow> 'p \<Rightarrow> 'c" and all :: "'c \<Rightarrow> 'p list"
    and ident :: "'p \<Rightarrow> 'i"
  assumes all_add: "all (add c p) = all c @ [p]"
    and all_remove: "all (remove c p) = filter (\<lambda>q. ident q \<noteq> ident p) (all c)"
begin

lemma remove_add_fresh:
  assumes "ident p \<notin> ident ` set (all c)"
  shows "all (remove (add c p) p) = all c"
  using assms by (auto simp: all_add all_remove image_iff intro!: filter_True)

lemma remove_idem: "all (remove (remove c p) p) = all (remove c p)"
  by (simp add: all_remove)

lemma remove_absent: "ident p \<notin> ident ` set (all (remove c p))"
  by (auto simp: all_remove)

lemma all_adds: "all (foldl add c ps) = all c @ ps"
  by (induction ps arbitrary: c) (simp_all add: all_add)

end

lemma remove_loop_filter: "remove_loop ps i acc = acc @ filter (\<lambda>q. pl_id q \<noteq> i) ps"
  by (induction ps arbitrary: acc) simp_all

interpretation container: plugin_container Add Remove All pl_id
  by unfold_locales (simp_all add: Add_def Remove_def All_def remove_loop_filter)

section \<open>What the hooks compute\<close>

text \<open>
  A registration pass calls every plugin that implements the interface, in order, whatever the ones
  before returned: its world is the sequential composition of all calls, and its errors are theirs.
\<close>

fun run_all :: "(string \<Rightarrow> 'w \<Rightarrow> go_error option \<times> 'w) list \<Rightarrow> string \<Rightarrow> 'w \<Rightarrow> go_error option list \<times> 'w" where
  "run_all [] name w = ([], w)"
| "run_all (f # fs) name w =
     (case f name w of (r, w) \<Rightarrow> (case run_all fs name w of (rs, w) \<Rightarrow> (r # rs, w)))"

definition collected :: "go_error option list \<Rightarrow> go_error list" where
  "collected rs = List.map_filter id rs"

lemma collected_simps [simp]:
  "collected [] = []" "collected (None # rs) = collected rs" "collected (Some e # rs) = e # collected rs"
  by (simp_all add: collected_def List.map_filter_simps)

lemma collected_Nil_iff: "collected rs = [] \<longleftrightarrow> (\<forall>r \<in> set rs. r = None)"
proof (induction rs)
  case (Cons r rs)
  then show ?case by (cases r) auto
qed simp

lemma do_register_loop_eq:
  "do_register_loop ps name errs w =
    (case run_all (List.map_filter pl_Register ps) name w of (rs, w') \<Rightarrow> (errs @ collected rs, w'))"
proof (induction ps arbitrary: errs w)
  case Nil
  then show ?case by (simp add: List.map_filter_simps)
next
  case (Cons p ps)
  then show ?case
    by (simp add: List.map_filter_simps split: option.split prod.split)
qed

lemma do_unregister_loop_eq:
  "do_unregister_loop ps name errs w =
    (case run_all (List.map_filter pl_UnRegister ps) name w of (rs, w') \<Rightarrow> (errs @ collected rs, w'))"
proof (induction ps arbitrary: errs w)
  case Nil
  then show ?case by (simp add: List.map_filter_simps)
next
  case (Cons p ps)
  then show ?case
    by (simp add: List.map_filter_simps split: option.split prod.split)
qed

lemma errors_result_None_iff: "errors_result errs = None \<longleftrightarrow> errs = []"
  by (simp add: errors_result_def)

lemma post_accept_loop_append:
  "post_accept_loop close (ps @ qs) c w =
    (case post_accept_loop close ps c w of
       ((c', True), w') \<Rightarrow> post_accept_loop close qs c' w'
     | ((c', False), w') \<Rightarrow> ((c', False), w'))"
  by (induction ps arbitrary: c w) (simp_all split: option.split prod.split bool.split)

lemma post_close_loop_append:
  "post_close_loop (ps @ qs) c w =
    (case post_close_loop ps c w of (True, w') \<Rightarrow> post_close_loop qs c w' | (False, w') \<Rightarrow> (False, w'))"
  by (induction ps arbitrary: w) (simp_all split: option.split prod.split bool.split)

lemma pre_call_loop_append:
  "pre_call_loop (ps @ qs) s m args w =
    (case pre_call_loop ps s m args w of
       ((args', None), w') \<Rightarrow> pre_call_loop qs s m args' w'
     | ((args', Some err), w') \<Rightarrow> ((args', Some err), w'))"
  by (induction ps arbitrary: args w) (simp_all split: option.split prod.split)

section \<open>Properties\<close>

text \<open>
  Registering a service with the plugins calls each registration plugin exactly once and in
  order, also after one of them failed, and reports nil only if every one of them returned nil;
  otherwise it reports all their errors in the order of the calls.
\<close>

theorem do_register_runs_every_plugin:
  "DoRegister p name w =
    (case run_all (List.map_filter pl_Register (All p)) name w of
       (rs, w') \<Rightarrow> (if list_all (\<lambda>r. r = None) rs then None else Some (MultiErr (collected rs)), w'))"
  by (auto simp: DoRegister_def All_def do_register_loop_eq errors_result_def NewMultiError_def
      collected_Nil_iff list_all_iff split: prod.split)

text \<open>
  The accept hooks run in order and a refusal is final: a container made of two groups of plugins
  behaves as the first group, and as the second on the connection the first handed on if and only if
  no hook of the first refused. After a refusal the connection is closed and no later hook sees it.
\<close>

theorem post_accept_in_sequence:
  "DoPostConnAccept close (p\<lparr>plugins := ps @ qs\<rparr>) c w =
    (case DoPostConnAccept close (p\<lparr>plugins := ps\<rparr>) c w of
       ((c', True), w') \<Rightarrow> DoPostConnAccept close (p\<lparr>plugins := qs\<rparr>) c' w'
     | ((c', False), w') \<Rightarrow> ((c', False), w'))"
  by (simp add: DoPostConnAccept_def post_accept_loop_append split: prod.split bool.split)

text \<open>
  Adding a plugin that is not yet in the container and removing it again leaves the container
  with the plugins it had, in their order.
\<close>

theorem add_remove_plugin:
  assumes "pl_id q \<notin> pl_id ` set (All p)"
  shows "All (Remove (Add p q) q) = All p"
  using assms by (rule container.remove_add_fresh)

definition sample_plugin :: "nat \<Rightarrow> (unit, string list) plugin" where
  "sample_plugin i =
     \<lparr>pl_id = i, pl_Register = Some (\<lambda>name w. (None, w @ [name])), pl_UnRegister = None,
      pl_HandleConnAccept = None, pl_HandleConnClose = None, pl_PreCall = None\<rparr>"

theorem add_remove_plugin_witness:
  "All (Remove (Add \<lparr>plugins = [sample_plugin 0]\<rparr> (sample_plugin 1)) (sample_plugin 1)) = [sample_plugin 0]"
  by (subst add_remove_plugin) (simp_all add: All_def sample_plugin_def)

end
