(* ===== verification/Registry.thy ===== *)
theory Registry
  imports Pool Plugin
begin

text \<open>
  Service registration of \<^verbatim>\<open>server/server.go\<close> and the service record of \<^verbatim>\<open>server/service.go\<close>: which
  methods of an instance are callable, the service map, and the plugins that are told about a new
  service.
\<close>

section \<open>Services\<close>

record 'v methodType =
  mt_method :: "'v rmethod"
  ArgType :: rtype
  ReplyType :: rtype

record 'v service =
  service_name :: string
  methodMap :: "(string, 'v methodType) gomap"

text \<open>An instance given to \<^verbatim>\<open>Register\<close>: the name of its (dereferenced) type and its method set.\<close>

record 'v instance_ =
  inst_type_name :: string
  inst_methods :: "'v rmethod list"

text \<open>
  \<^verbatim>\<open>service.call\<close>: a panic of the method is recovered and, the result not being named, reported as a nil
  error. A method whose argument is not a pointer gets a copy, so the pooled object keeps its value. The
  receiver \<^verbatim>\<open>s.instance\<close> and \<^verbatim>\<open>ctx\<close> are inside \<open>m_Func\<close>, which has no state of its own.
\<close>

definition service_call :: "'v methodType \<Rightarrow> 'v \<Rightarrow> 'v \<Rightarrow> go_error option \<times> 'v \<times> 'v" where
  "service_call mtype argv replyv =
     (case m_Func (mt_method mtype) argv replyv of
        (out, argv', replyv') \<Rightarrow>
          (recover_with None out, if is_Pointer (ArgType mtype) then argv' else argv, replyv'))"

section \<open>Which methods are callable\<close>

text \<open>
  \<^verbatim>\<open>unicode.IsUpper\<close> of the first rune of a name. For ASCII it is a range test; for a name that starts
  with a multi-byte rune the Unicode tables, a parameter, decide. The empty name has no upper case.
\<close>

definition isExported :: "(string \<Rightarrow> bool) \<Rightarrow> string \<Rightarrow> bool" where
  "isExported unicode_upper name =
     (case name of
        [] \<Rightarrow> False
      | c # cs \<Rightarrow>
          if of_char c < (128 :: nat) then (65 :: nat) \<le> of_char c \<and> of_char c \<le> (90 :: nat)
          else unicode_upper name)"

fun isExportedOrBuiltinType :: "(string \<Rightarrow> bool) \<Rightarrow> rtype \<Rightarrow> bool" where
  "isExportedOrBuiltinType up (PtrT t i) = isExportedOrBuiltinType up t"
| "isExportedOrBuiltinType up (BaseT p n i) = (p = [] \<or> isExported up n)"

definition checkValidMethod :: "(string \<Rightarrow> bool) \<Rightarrow> 'v rmethod \<Rightarrow> bool" where
  "checkValidMethod up m =
     (if m_PkgPath m \<noteq> [] then False
      else if length (m_In m) \<noteq> 4 then False
      else
      let ctxType = m_In m ! 1
      in if \<not> Implements ctxType typeOfContext then False
      else
      let argType = m_In m ! 2
      in if \<not> isExportedOrBuiltinType up argType then False
      else
      let replyType = m_In m ! 3
      in if \<not> is_Pointer replyType then False
      else if \<not> isExportedOrBuiltinType up replyType then False
      else if length (m_Out m) \<noteq> 1 then False
      else if m_Out m ! 0 \<noteq> typeOfError then False
      else True)"

text \<open>The loop over the method set, which also registers the types with the pools.\<close>

fun suitable_loop ::
    "(string \<Rightarrow> bool) \<Rightarrow> 'v rmethod list \<Rightarrow> (string, 'v methodType) gomap \<Rightarrow> 'v typePools
     \<Rightarrow> (string, 'v methodType) gomap \<times> 'v typePools" where
  "suitable_loop up [] mm pools = (mm, pools)"
| "suitable_loop up (m # ms) mm pools =
     (if \<not> checkValidMethod up m then suitable_loop up ms mm pools
      else
        let argType = m_In m ! 2;
            replyType = m_In m ! 3;
            mm = gomap_set (m_Name m) \<lparr>mt_method = m, ArgType = argType, ReplyType = replyType\<rparr> mm;
            pools = pool_Init argType pools;
            pools = pool_Init replyType pools
        in suitable_loop up ms mm pools)"

definition suitableRPCMethods ::
    "(string \<Rightarrow> bool) \<Rightarrow> 'v rmethod list \<Rightarrow> 'v typePools \<Rightarrow> (string, 'v methodType) gomap \<times> 'v typePools" where
  "suitableRPCMethods up ms pools = suitable_loop up ms [] pools"

section \<open>The registry\<close>

text \<open>
  The part of the server that registration touches: the service map, the plugin container, and the
  package-wide type pools.
\<close>

record ('v, 'w) registry =
  serviceMap :: "(string, 'v service) gomap"
  Plugins :: "('v instance_, 'w) pluginContainer"
  reflectTypePools :: "'v typePools"

definition new_registry :: "('v, 'w) registry" where
  "new_registry = \<lparr>serviceMap = [], Plugins = \<lparr>plugins = []\<rparr>, reflectTypePools = []\<rparr>"

definition register ::
    "(string \<Rightarrow> bool) \<Rightarrow> string \<Rightarrow> 'v instance_ \<Rightarrow> ('v, 'w) registry
     \<Rightarrow> (string \<times> go_error option) \<times> ('v, 'w) registry" where
  "register up serviceName inst svr =
     (let sname = inst_type_name inst;
          sname = (if serviceName \<noteq> [] then serviceName else sname);
          (validMethodMap, pools) = suitableRPCMethods up (inst_methods inst) (reflectTypePools svr);
          svr = svr\<lparr>reflectTypePools := pools\<rparr>
      in if length validMethodMap = 0
         then ((sname, Some (NewError (''register: type '' @ sname @ '' has no exported methods of suitable type''))), svr)
         else
           let service = \<lparr>service_name = sname, methodMap = validMethodMap\<rparr>
           in ((sname, None), svr\<lparr>serviceMap := gomap_set sname service (serviceMap svr)\<rparr>))"

definition Register ::
    "(string \<Rightarrow> bool) \<Rightarrow> 'v instance_ \<Rightarrow> ('v, 'w) registry \<Rightarrow> 'w \<Rightarrow> go_error option \<times> ('v, 'w) registry \<times> 'w" where
  "Register up inst svr w =
     (case register up [] inst svr of
        ((sname, Some err), svr) \<Rightarrow> (Some err, svr, w)
      | ((sname, None), svr) \<Rightarrow>
          (case DoRegister (Plugins svr) sname w of (err, w) \<Rightarrow> (err, svr, w)))"

definition RegisterName ::
    "(string \<Rightarrow> bool) \<Rightarrow> string \<Rightarrow> 'v instance_ \<Rightarrow> ('v, 'w) registry \<Rightarrow> 'w
     \<Rightarrow> go_error option \<times> ('v, 'w) registry \<times> 'w" where
  "RegisterName up serviceName inst svr w =
     (case register up serviceName inst svr of
        ((sname, Some err), svr) \<Rightarrow> (Some err, svr, w)
      | ((sname, None), svr) \<Rightarrow>
          (case DoRegister (Plugins svr) serviceName w of (err, w) \<Rightarrow> (err, svr, w)))"

definition getService :: "('v, 'w) registry \<Rightarrow> string \<Rightarrow> go_error + 'v service" where
  "getService svr servicePath =
     (case map_of (serviceMap svr) servicePath of
        None \<Rightarrow> Inl (NewError (''can't find service '' @ servicePath))
      | Some svc \<Rightarrow> Inr svc)"

fun unregister_all_loop ::
    "('a, 'w) pluginContainer \<Rightarrow> string list \<Rightarrow> go_error list \<Rightarrow> 'w \<Rightarrow> go_error list \<times> 'w" where
  "unregister_all_loop ps [] errs w = (errs, w)"
| "unregister_all_loop ps (sname # ss) errs w =
     (case DoUnRegister ps sname w of
        (Some err, w) \<Rightarrow> unregister_all_loop ps ss (errs @ [err]) w
      | (None, w) \<Rightarrow> unregister_all_loop ps ss errs w)"

definition UnregisterAll :: "('v, 'w) registry \<Rightarrow> 'w \<Rightarrow> go_error option \<times> 'w" where
  "UnregisterAll svr w =
     (case unregister_all_loop (Plugins svr) (map fst (serviceMap svr)) [] w of
        (errs, w) \<Rightarrow> (if length errs > 0 then Some (as_error (NewMultiError errs)) else None, w))"

section \<open>Invariant: every registered method can get its objects\<close>

definition method_ready :: "(string \<Rightarrow> bool) \<Rightarrow> 'v typePools \<Rightarrow> string \<Rightarrow> 'v methodType \<Rightarrow> bool" where
  "method_ready up pools n mt \<longleftrightarrow>
     checkValidMethod up (mt_method mt) \<and> m_Name (mt_method mt) = n \<and>
     ArgType mt = m_In (mt_method mt) ! 2 \<and> ReplyType mt = m_In (mt_method mt) ! 3 \<and>
     {ArgType mt, ReplyType mt} \<subseteq> known_types pools"

definition methods_ready :: "(string \<Rightarrow> bool) \<Rightarrow> 'v typePools \<Rightarrow> (string, 'v methodType) gomap \<Rightarrow> bool" where
  "methods_ready up pools mm \<longleftrightarrow>
     gomap_ok mm \<and> (\<forall>n mt. map_of mm n = Some mt \<longrightarrow> method_ready up pools n mt)"

definition service_ready :: "(string \<Rightarrow> bool) \<Rightarrow> 'v typePools \<Rightarrow> string \<Rightarrow> 'v service \<Rightarrow> bool" where
  "service_ready up pools s svc \<longleftrightarrow>
     service_name svc = s \<and> methodMap svc \<noteq> [] \<and> methods_ready up pools (methodMap svc)"

definition registry_inv :: "(string \<Rightarrow> bool) \<Rightarrow> 'v golib \<Rightarrow> ('v, 'w) registry \<Rightarrow> bool" where
  "registry_inv up lib svr \<longleftrightarrow>
     pools_inv lib (reflectTypePools svr) \<and> gomap_ok (serviceMap svr) \<and>
     (\<forall>s svc. map_of (serviceMap svr) s = Some svc \<longrightarrow> service_ready up (reflectTypePools svr) s svc)"

lemma method_ready_mono:
  "method_ready up p n mt \<Longrightarrow> known_types p \<subseteq> known_types q \<Longrightarrow> method_ready up q n mt"
  by (auto simp: method_ready_def)

lemma methods_ready_mono:
  "methods_ready up p mm \<Longrightarrow> known_types p \<subseteq> known_types q \<Longrightarrow> methods_ready up q mm"
  by (auto simp: methods_ready_def intro: method_ready_mono)

lemma service_ready_mono:
  "service_ready up p s svc \<Longrightarrow> known_types p \<subseteq> known_types q \<Longrightarrow> service_ready up q s svc"
  by (auto simp: service_ready_def intro: methods_ready_mono)

lemma suitable_loop_inv:
  assumes "suitable_loop up ms mm p = (mm', p')" "pools_inv lib p" "methods_ready up p mm"
  shows "pools_inv lib p' \<and> methods_ready up p' mm' \<and> known_types p \<subseteq> known_types p'"
  using assms
proof (induction up ms mm p rule: suitable_loop.induct)
  case (1 up mm pools)
  then show ?case by simp
next
  case (2 up m ms mm pools)
  show ?case
  proof (cases "checkValidMethod up m")
    case False
    then show ?thesis using "2.IH"(1) "2.prems" by simp
  next
    case True
    let ?mt = "\<lparr>mt_method = m, ArgType = m_In m ! 2, ReplyType = m_In m ! 3\<rparr>"
    let ?mm = "gomap_set (m_Name m) ?mt mm"
    let ?p = "pool_Init (m_In m ! 3) (pool_Init (m_In m ! 2) pools)"
    have inv: "pools_inv lib ?p"
      using "2.prems"(2) by (intro type_pools.inv_init)
    have known: "known_types ?p = {m_In m ! 2, m_In m ! 3} \<union> known_types pools"
      by (auto simp: type_pools.known_init)
    have "method_ready up ?p (m_Name m) ?mt"
      using True by (simp add: method_ready_def known)
    then have "methods_ready up ?p ?mm"
      using "2.prems"(3) known by (auto simp: methods_ready_def intro: method_ready_mono)
    moreover have "suitable_loop up ms ?mm ?p = (mm', p')"
      using "2.prems"(1) True by (simp add: Let_def)
    ultimately show ?thesis
      using "2.IH"(2) [OF _ refl refl refl refl refl] True inv known by auto
  qed
qed

lemma register_inv:
  assumes "registry_inv up lib svr" "register up sn inst svr = (r, svr')"
  shows "registry_inv up lib svr'"
proof -
  obtain mm p where s: "suitable_loop up (inst_methods inst) [] (reflectTypePools svr) = (mm, p)"
    by fastforce
  have i: "pools_inv lib p" "methods_ready up p mm" "known_types (reflectTypePools svr) \<subseteq> known_types p"
    using suitable_loop_inv [OF s, of lib] assms(1)
    by (auto simp: registry_inv_def methods_ready_def)
  have old: "service_ready up p s svc" if "map_of (serviceMap svr) s = Some svc" for s svc
    using assms(1) that i(3) by (auto simp: registry_inv_def intro: service_ready_mono)
  have new: "service_ready up p sname \<lparr>service_name = sname, methodMap = mm\<rparr>" if "mm \<noteq> []" for sname
    using that i(2) by (simp add: service_ready_def)
  have "serviceMap svr' = serviceMap svr \<or>
      (\<exists>sname. serviceMap svr' = gomap_set sname \<lparr>service_name = sname, methodMap = mm\<rparr> (serviceMap svr) \<and> mm \<noteq> [])"
    and pools: "reflectTypePools svr' = p"
    using assms(2) s by (auto simp: register_def suitableRPCMethods_def Let_def split: if_splits)
  then show ?thesis
    using assms(1) i(1) old new by (auto simp: registry_inv_def pools split: if_splits)
qed

lemma Register_inv:
  assumes "registry_inv up lib svr" "Register up inst svr w = (err, svr', w')"
  shows "registry_inv up lib svr'"
  using assms register_inv [OF assms(1), of "[]" inst]
  by (auto simp: Register_def split: prod.splits option.splits)

lemma RegisterName_inv:
  assumes "registry_inv up lib svr" "RegisterName up sn inst svr w = (err, svr', w')"
  shows "registry_inv up lib svr'"
  using assms register_inv [OF assms(1), of sn inst]
  by (auto simp: RegisterName_def split: prod.splits option.splits)

text \<open>A sequence of registrations by name, as a server program makes it before it serves.\<close>

fun register_all ::
    "(string \<Rightarrow> bool) \<Rightarrow> (string \<times> 'v instance_) list \<Rightarrow> ('v, 'w) registry \<Rightarrow> 'w \<Rightarrow> ('v, 'w) registry \<times> 'w" where
  "register_all up [] svr w = (svr, w)"
| "register_all up ((sn, inst) # rs) svr w =
     (case RegisterName up sn inst svr w of (err, svr, w) \<Rightarrow> register_all up rs svr w)"

lemma register_all_inv:
  "registry_inv up lib svr \<Longrightarrow> registry_inv up lib (fst (register_all up rs svr w))"
proof (induction up rs svr w rule: register_all.induct)
  case (2 up sn inst rs svr w)
  then show ?case
    using RegisterName_inv [of up lib svr sn inst w] by (auto split: prod.split)
qed simp

lemma new_registry_inv: "Reset_zeroes lib \<Longrightarrow> registry_inv up lib new_registry"
  by (simp add: registry_inv_def new_registry_def pools_inv_def)

section \<open>Which methods end up in the map\<close>

lemma suitable_loop_map:
  "map_of (fst (suitable_loop up ms mm p)) n =
    (case [m \<leftarrow> rev ms. checkValidMethod up m \<and> m_Name m = n] of
       [] \<Rightarrow> map_of mm n
     | m # _ \<Rightarrow> Some \<lparr>mt_method = m, ArgType = m_In m ! 2, ReplyType = m_In m ! 3\<rparr>)"
  by (induction ms arbitrary: mm p) (auto simp: Let_def split: list.split)

lemma checkValidMethod_iff:
  "checkValidMethod up m \<longleftrightarrow>
    m_PkgPath m = [] \<and> length (m_In m) = 4 \<and> Implements (m_In m ! 1) typeOfContext \<and>
    isExportedOrBuiltinType up (m_In m ! 2) \<and>
    is_Pointer (m_In m ! 3) \<and> isExportedOrBuiltinType up (m_In m ! 3) \<and> m_Out m = [typeOfError]"
  by (cases "m_Out m") (auto simp: checkValidMethod_def Let_def)

section \<open>Properties\<close>

text \<open>
  C22: whatever services a program registers, in whatever order and however often under the same name,
  every method a later request can reach passed the signature check, is filed under its own name,
  and has pools for its argument and reply types, all of whose objects are clean.
\<close>

theorem registration_keeps_invariant:
  assumes "Reset_zeroes lib"
  shows "registry_inv up lib (fst (register_all up rs new_registry w))"
  using new_registry_inv [OF assms] by (rule register_all_inv)

theorem registration_keeps_invariant_witness:
  "registry_inv (\<lambda>_. False) nat_lib (fst (register_all (\<lambda>_. False) [(''A'', \<lparr>inst_type_name = ''T'', inst_methods = []\<rparr>)]
     (new_registry :: (nat, unit) registry) ()))"
  by (rule registration_keeps_invariant) (rule nat_lib_Reset)

text \<open>
  C35: the callable methods of a type are exactly those of the required shape: exported, a context, an
  exported argument type, a pointer to an exported reply type, and one result of type error. When two
  methods had the same name the later one would win.
\<close>

theorem callable_methods:
  "map_of (fst (suitableRPCMethods up ms pools)) n =
    (case [m \<leftarrow> rev ms. m_Name m = n \<and> m_PkgPath m = [] \<and> length (m_In m) = 4 \<and>
             Implements (m_In m ! 1) typeOfContext \<and> isExportedOrBuiltinType up (m_In m ! 2) \<and>
             is_Pointer (m_In m ! 3) \<and> isExportedOrBuiltinType up (m_In m ! 3) \<and> m_Out m = [typeOfError]] of
       [] \<Rightarrow> None
     | m # _ \<Rightarrow> Some \<lparr>mt_method = m, ArgType = m_In m ! 2, ReplyType = m_In m ! 3\<rparr>)"
  by (simp add: suitableRPCMethods_def suitable_loop_map checkValidMethod_iff conj_commute conj_left_commute
      split: list.split)

end
