(* ===== verification/Codec.thy ===== *)
theory Codec
  imports Reflect
begin

text \<open>
  The payload codecs of \<^verbatim>\<open>codec/codec.go\<close> and the table of \<^verbatim>\<open>share/share.go\<close>. A Go value of interface
  type is an element of \<open>'v\<close>; what the marshalling libraries and the value's own methods do with it
  is a parameter, part of the record \<open>golib\<close>: which values implement the marshaller interfaces of gogo
  protobuf and of the protobuf module, their byte encodings, and JSON. Decoding writes into the
  value it is given, so it returns the value afterwards, also when it fails.
\<close>

datatype codec = JSONCodec | PBCodec

definition PBCodec_Encode :: "'v golib \<Rightarrow> 'v \<Rightarrow> go_error + byte list" where
  "PBCodec_Encode lib i =
     (case proto_Marshal lib i of
        Some r \<Rightarrow> r
      | None \<Rightarrow>
          (case pb_Marshal lib i of
             Some r \<Rightarrow> r
           | None \<Rightarrow> Inl (NewError (type_string lib i @ '' is not a proto.Marshaler or pb.Message''))))"

definition PBCodec_Decode :: "'v golib \<Rightarrow> byte list \<Rightarrow> 'v \<Rightarrow> go_error option \<times> 'v" where
  "PBCodec_Decode lib data i =
     (case proto_Unmarshal lib i of
        Some f \<Rightarrow> f data
      | None \<Rightarrow>
          (case pb_Unmarshal lib i of
             Some f \<Rightarrow> f data
           | None \<Rightarrow> (Some (NewError (type_string lib i @ '' is not a proto.Unmarshaler  or pb.Message'')), i)))"

definition JSONCodec_Encode :: "'v golib \<Rightarrow> 'v \<Rightarrow> go_error + byte list" where
  "JSONCodec_Encode lib i = json_Marshal lib i"

definition JSONCodec_Decode :: "'v golib \<Rightarrow> byte list \<Rightarrow> 'v \<Rightarrow> go_error option \<times> 'v" where
  "JSONCodec_Decode lib data i = json_Decode lib i data"

text \<open>Dispatch on the dynamic type behind the \<^verbatim>\<open>Codec\<close> interface, and the global table.\<close>

fun codec_Encode :: "'v golib \<Rightarrow> codec \<Rightarrow> 'v \<Rightarrow> go_error + byte list" where
  "codec_Encode lib JSONCodec i = JSONCodec_Encode lib i"
| "codec_Encode lib PBCodec i = PBCodec_Encode lib i"

fun codec_Decode :: "'v golib \<Rightarrow> codec \<Rightarrow> byte list \<Rightarrow> 'v \<Rightarrow> go_error option \<times> 'v" where
  "codec_Decode lib JSONCodec data i = JSONCodec_Decode lib data i"
| "codec_Decode lib PBCodec data i = PBCodec_Decode lib data i"

definition Codecs :: "SerializeType \<Rightarrow> codec option" where
  "Codecs st = map_of [(JSON, JSONCodec), (ProtoBuffer, PBCodec)] st"

lemma Codecs_simps [simp]:
  "Codecs JSON = Some JSONCodec" "Codecs ProtoBuffer = Some PBCodec" "Codecs SerializeNone = None"
  by (simp_all add: Codecs_def proto_consts)

lemma Codecs_None_iff: "Codecs st = None \<longleftrightarrow> st \<noteq> JSON \<and> st \<noteq> ProtoBuffer"
  by (auto simp: Codecs_def proto_consts)

lemma serialize_mask: "Codecs st = Some cd \<Longrightarrow> st AND 0x0F = st"
  by (auto simp: Codecs_def proto_consts split: if_splits)

section \<open>Codecs that give back what they were given\<close>

text \<open>
  The documented behaviour of a marshalling library for one value \<open>v\<close> and one target \<open>z\<close> (a zero
  value of the same type): the encoding of \<open>v\<close>, decoded into \<open>z\<close>, makes the target equal to \<open>v\<close>.
\<close>

definition carries :: "'v golib \<Rightarrow> codec \<Rightarrow> 'v \<Rightarrow> 'v \<Rightarrow> byte list \<Rightarrow> bool" where
  "carries lib c v z bs \<longleftrightarrow> codec_Encode lib c v = Inr bs \<and> codec_Decode lib c bs z = (None, v)"

text \<open>
  The two protobuf libraries agree on which values they can handle: a value that can be marshalled
  can be unmarshalled by the same library.
\<close>

lemma PBCodec_carries_gogo:
  assumes "proto_Marshal lib v = Some (Inr bs)" and "proto_Unmarshal lib z = Some f" and "f bs = (None, v)"
  shows "carries lib PBCodec v z bs"
  using assms by (simp add: carries_def PBCodec_Encode_def PBCodec_Decode_def)

lemma PBCodec_carries_pb:
  assumes "proto_Marshal lib v = None" "pb_Marshal lib v = Some (Inr bs)"
    and "proto_Unmarshal lib z = None" "pb_Unmarshal lib z = Some f" and "f bs = (None, v)"
  shows "carries lib PBCodec v z bs"
  using assms by (simp add: carries_def PBCodec_Encode_def PBCodec_Decode_def)

lemma PBCodec_rejects:
  assumes "proto_Marshal lib v = None" "pb_Marshal lib v = None"
  shows "\<exists>e. codec_Encode lib PBCodec v = Inl e"
  using assms by (simp add: PBCodec_Encode_def)

end
