(* ===== verification/Server.thy ===== *)
theory Server
  imports Registry Codec
begin

text \<open>
  Request handling of \<^verbatim>\<open>server/server.go\<close>: \<^verbatim>\<open>handleRequest\<close> with its error paths, the response
  writer, \<^verbatim>\<open>processOneRequest\<close> with its deferred recover, and the read loop of \<^verbatim>\<open>serveConn\<close>. The
  handler is shown to implement an abstract specification that allocates its objects instead of
  pooling them.
\<close>

definition ServiceErrorKey :: string where
  "ServiceErrorKey = ''__a_simple_rpc_error__''" \<comment> \<open>\<^verbatim>\<open>protocol.ServiceError\<close>\<close>

record ('v, 'w) server =
  sv_registry :: "('v, 'w) registry"
  handlerMsgNum :: u32

abbreviation upd_pools :: "'v typePools \<Rightarrow> ('v, 'w) registry \<Rightarrow> ('v, 'w) registry" where
  "upd_pools p reg \<equiv> reg\<lparr>reflectTypePools := p\<rparr>"

section \<open>Handling a request\<close>

text \<open>
  \<^verbatim>\<open>handleError\<close> writes the error text into the metadata. With a nil error the call \<^verbatim>\<open>err.Error()\<close>
  panics.
\<close>

definition handleError :: "message \<Rightarrow> go_error option \<Rightarrow> (message \<times> go_error option) outcome" where
  "handleError res err =
     (let res = upd_Header (\<lambda>h. SetMessageStatusType h ErrorStatus) res
      in case err of
           None \<Rightarrow> Panic
         | Some e \<Rightarrow>
             Return (res\<lparr>Metadata := gomap_set ServiceErrorKey (err_string e) (Metadata res)\<rparr>, Some e))"

text \<open>
  \<^verbatim>\<open>handleRequest\<close>. The variable \<open>err\<close> is shared by the service call and the encoding of the reply: on
  the path of a failed call the encoding overwrites it, and \<^verbatim>\<open>handleError\<close> gets the encoder's result.
  \<open>picks\<close> are the choices of the two pools. The reply object is never nil, as it comes from a pool.
  The last part, which encodes the reply and gives the reply object back, is split into the path of
  a failed call and the path of a successful one.
\<close>

definition encode_and_put ::
    "'v golib \<Rightarrow> codec \<Rightarrow> rtype \<Rightarrow> 'v \<Rightarrow> ('v, 'w) registry \<Rightarrow> (go_error + byte list) outcome \<times> ('v, 'w) registry" where
  \<comment> \<open>\<^verbatim>\<open>payload, err = codec.Encode(replyv); reflectTypePools.Put(methodTyp.ReplyType, replyv)\<close>\<close>
  "encode_and_put lib codec t replyv svr =
     (let encoded = codec_Encode lib codec replyv
      in case pool_Put lib t replyv (reflectTypePools svr) of
           Panic \<Rightarrow> (Panic, svr)
         | Return pools \<Rightarrow> (Return encoded, upd_pools pools svr))"

definition failed_reply ::
    "'v golib \<Rightarrow> codec \<Rightarrow> rtype \<Rightarrow> 'v \<Rightarrow> message \<Rightarrow> ('v, 'w) registry
     \<Rightarrow> (message \<times> go_error option) outcome \<times> ('v, 'w) registry" where
  "failed_reply lib codec t replyv res svr =
     (case encode_and_put lib codec t replyv svr of
        (Panic, svr) \<Rightarrow> (Panic, svr)
      | (Return (Inl e), svr) \<Rightarrow> (let err = Some e in (handleError res err, svr))
      | (Return (Inr payload), svr) \<Rightarrow>
          (let err = None; res = res\<lparr>Payload := payload\<rparr> in (handleError res err, svr)))"

definition ok_reply ::
    "'v golib \<Rightarrow> codec \<Rightarrow> rtype \<Rightarrow> 'v \<Rightarrow> bool \<Rightarrow> message \<Rightarrow> ('v, 'w) registry
     \<Rightarrow> (message \<times> go_error option) outcome \<times> ('v, 'w) registry" where
  "ok_reply lib codec t replyv oneway res svr =
     (if \<not> oneway then
        (case encode_and_put lib codec t replyv svr of
           (Panic, svr) \<Rightarrow> (Panic, svr)
         | (Return (Inl e), svr) \<Rightarrow> (handleError res (Some e), svr)
         | (Return (Inr payload), svr) \<Rightarrow> (Return (res\<lparr>Payload := payload\<rparr>, None), svr))
      else
        (case pool_Put lib t replyv (reflectTypePools svr) of
           Panic \<Rightarrow> (Panic, svr)
         | Return pools \<Rightarrow> (Return (res, None), upd_pools pools svr)))"

definition call_and_reply ::
    "'v golib \<Rightarrow> nat option \<Rightarrow> 'v methodType \<Rightarrow> codec \<Rightarrow> 'v \<Rightarrow> bool \<Rightarrow> message \<Rightarrow> ('v, 'w) registry
     \<Rightarrow> (message \<times> go_error option) outcome \<times> ('v, 'w) registry" where
  "call_and_reply lib pick methodTyp codec argv oneway res svr =
     (case pool_Get lib (ReplyType methodTyp) pick (reflectTypePools svr) of
        Panic \<Rightarrow> (Panic, svr)
      | Return (replyv, pools) \<Rightarrow>
          (let svr = upd_pools pools svr;
               (err, argv, replyv) = service_call methodTyp argv replyv
           in case pool_Put lib (ArgType methodTyp) argv (reflectTypePools svr) of
                Panic \<Rightarrow> (Panic, svr)
              | Return pools \<Rightarrow>
                  (let svr = upd_pools pools svr
                   in if err \<noteq> None then failed_reply lib codec (ReplyType methodTyp) replyv res svr
                      else ok_reply lib codec (ReplyType methodTyp) replyv oneway res svr)))"

definition handleRequest ::
    "'v golib \<Rightarrow> nat option \<times> nat option \<Rightarrow> ('v, 'w) registry \<Rightarrow> message
     \<Rightarrow> (message \<times> go_error option) outcome \<times> ('v, 'w) registry" where
  "handleRequest lib picks svr req =
     (let servicePath = ServicePath req;
          serviceMethod = ServiceMethod req;
          res = Clone req;
          res = upd_Header (\<lambda>h. SetMessageType h Response) res
      in case getService svr servicePath of
        Inl err \<Rightarrow> (handleError res (Some err), svr)
      | Inr svc \<Rightarrow>
     (case map_of (methodMap svc) serviceMethod of
        None \<Rightarrow> (handleError res (Some (NewError (''can't find method '' @ serviceMethod))), svr)
      | Some methodTyp \<Rightarrow>
     (case pool_Get lib (ArgType methodTyp) (fst picks) (reflectTypePools svr) of
        Panic \<Rightarrow> (Panic, svr)
      | Return (argv, pools) \<Rightarrow>
     (let svr = upd_pools pools svr
      in case Codecs (SerializeType (Header req)) of
        None \<Rightarrow> (handleError res (Some (NewError
                   (''can not find codec for '' @ dec_of_nat (unat (SerializeType (Header req)))))), svr)
      | Some codec \<Rightarrow>
     (case codec_Decode lib codec (Payload req) argv of
        (Some err, argv) \<Rightarrow> (handleError res (Some err), svr)
      | (None, argv) \<Rightarrow>
          call_and_reply lib (snd picks) methodTyp codec argv (IsOneway (Header req)) res svr)))))"

section \<open>Processing and answering\<close>

definition sendResponse :: "message \<Rightarrow> byte list" where
  \<comment> \<open>what is written to the connection; the result of \<^verbatim>\<open>Write\<close> is ignored\<close>
  "sendResponse res = Encode res"

text \<open>
  \<^verbatim>\<open>processOneRequest\<close>: the bytes written, if any, and the server afterwards. The counter is
  decremented by a deferred call, so also when the handler panics; the panic itself is recovered.
\<close>

definition processOneRequest ::
    "'v golib \<Rightarrow> nat option \<times> nat option \<Rightarrow> ('v, 'w) server \<Rightarrow> message \<Rightarrow> byte list option \<times> ('v, 'w) server" where
  "processOneRequest lib picks svr req =
     (let svr = svr\<lparr>handlerMsgNum := handlerMsgNum svr + 1\<rparr>;
          leave = (\<lambda>svr. svr\<lparr>handlerMsgNum := handlerMsgNum svr - 1\<rparr>)
      in if IsHeartbeat (Header req) then
           let req = upd_Header (\<lambda>h. SetMessageType h Response) req
           in (Some (Encode req), leave svr)
         else
           (case handleRequest lib picks (sv_registry svr) req of
              (Panic, reg) \<Rightarrow> (None, leave (svr\<lparr>sv_registry := reg\<rparr>))
            | (Return (res, err), reg) \<Rightarrow>
                let svr = svr\<lparr>sv_registry := reg\<rparr>
                in if \<not> IsOneway (Header req) then (Some (sendResponse res), leave svr)
                   else (None, leave svr)))"

section \<open>The read loop of a connection\<close>

definition auth :: "message \<Rightarrow> go_error option" where
  "auth req = None" \<comment> \<open>a stub in the source\<close>

datatype conn_event =
    Process message \<comment> \<open>\<^verbatim>\<open>go svr.processOneRequest(ctx, req, conn)\<close>\<close>
  | WriteNow "byte list" \<comment> \<open>a response the loop itself writes\<close>

datatype conn_end =
    EndShutdown | EndClientClosed | EndConnClosed | EndReadError go_error | EndAuthFailed
  | EndPanic \<comment> \<open>the nil request is dereferenced; recovered by the deferred closure\<close>

text \<open>
  The loop: \<open>shut i\<close> is what \<^verbatim>\<open>isShutdown\<close> returns in iteration \<open>i\<close>. It ends because every request
  consumes a frame. On a read error the request is nil, so the branch for a rate limit would panic.
\<close>

lemma Read_shrinks: "Read lim r = (Inr m, r') \<Longrightarrow> length (rd_bytes r') < length (rd_bytes r)"
  by (auto simp: complete_frame_def wf_header_def elim!: Read_InrD)

function serve_loop ::
    "(nat \<Rightarrow> bool) \<Rightarrow> int \<Rightarrow> nat \<Rightarrow> reader \<Rightarrow> conn_event list \<Rightarrow> conn_event list \<times> conn_end" where
  "serve_loop shut lim i r evs =
     (if shut i then (evs, EndShutdown)
      else
        (case Read lim r of
           (Inl err, r') \<Rightarrow>
             (if err = EOF then (evs, EndClientClosed)
              else if errors_Is err NetErrClosed then (evs, EndConnClosed)
              else if errors_Is err ErrReqReachLimit then (evs, EndPanic)
              else (evs, EndReadError err))
         | (Inr req, r') \<Rightarrow>
             (case (if \<not> IsHeartbeat (Header req) then auth req else None) of
                Some err \<Rightarrow>
                  (if \<not> IsOneway (Header req)
                   then (case handleError (upd_Header (\<lambda>h. SetMessageType h Response) (Clone req)) (Some err) of
                           Panic \<Rightarrow> (evs, EndPanic)
                         | Return (res, e) \<Rightarrow> (evs @ [WriteNow (sendResponse res)], EndAuthFailed))
                   else (evs, EndAuthFailed))
              | None \<Rightarrow> serve_loop shut lim (Suc i) r' (evs @ [Process req]))))"
  by pat_completeness auto
termination
  by (relation "measure (\<lambda>(shut, lim, i, r, evs). length (rd_bytes r))") (auto dest: Read_shrinks [OF sym])

declare serve_loop.simps [simp del]

definition serveConn :: "(nat \<Rightarrow> bool) \<Rightarrow> int \<Rightarrow> reader \<Rightarrow> conn_event list \<times> conn_end" where
  "serveConn shut lim r =
     (if shut 0 then ([], EndShutdown) else serve_loop (\<lambda>i. shut (Suc i)) lim 0 r [])"

section \<open>The abstract specification\<close>

text \<open>
  What handling a request amounts to when objects are simply allocated: a reply payload, a failure
  that is reported to the caller, or nothing at all.
\<close>

datatype rpc_outcome = Reply "byte list" | Failed go_error | NoAnswer

definition invoke_spec :: "'v golib \<Rightarrow> bool \<Rightarrow> 'v methodType \<Rightarrow> codec \<Rightarrow> byte list \<Rightarrow> rpc_outcome" where
  "invoke_spec lib oneway mt c payload =
     (case codec_Decode lib c payload (pool_GetRaw lib (ArgType mt)) of
        (Some err, a) \<Rightarrow> Failed err
      | (None, a) \<Rightarrow>
          (case service_call mt a (pool_GetRaw lib (ReplyType mt)) of
             (err, a', r) \<Rightarrow>
               (case (err, codec_Encode lib c r) of
                  (Some _, Inl e) \<Rightarrow> Failed e
                | (Some _, Inr _) \<Rightarrow> NoAnswer
                | (None, Inl e) \<Rightarrow> if oneway then Reply [] else Failed e
                | (None, Inr bs) \<Rightarrow> Reply (if oneway then [] else bs))))"

definition handle_spec :: "'v golib \<Rightarrow> (string, 'v service) gomap \<Rightarrow> message \<Rightarrow> rpc_outcome" where
  "handle_spec lib sm req =
     (case map_of sm (ServicePath req) of
        None \<Rightarrow> Failed (NewError (''can't find service '' @ ServicePath req))
      | Some svc \<Rightarrow>
          (case map_of (methodMap svc) (ServiceMethod req) of
             None \<Rightarrow> Failed (NewError (''can't find method '' @ ServiceMethod req))
           | Some mt \<Rightarrow>
               (case Codecs (SerializeType (Header req)) of
                  None \<Rightarrow> Failed (NewError (''can not find codec for '' @ dec_of_nat (unat (SerializeType (Header req)))))
                | Some c \<Rightarrow> invoke_spec lib (IsOneway (Header req)) mt c (Payload req))))"

text \<open>The response message that stands for an outcome.\<close>

definition response_base :: "message \<Rightarrow> message" where
  "response_base req =
     \<lparr>Header = SetMessageType (Header req) Response, ServicePath = ServicePath req,
      ServiceMethod = ServiceMethod req, Metadata = [], Payload = [], mdata = nil_slice\<rparr>"

fun render :: "message \<Rightarrow> rpc_outcome \<Rightarrow> (message \<times> go_error option) outcome" where
  "render req (Reply bs) = Return ((response_base req)\<lparr>Payload := bs\<rparr>, None)"
| "render req (Failed e) =
     Return ((response_base req)\<lparr>Header := SetMessageStatusType (SetMessageType (Header req) Response) ErrorStatus,
        Metadata := [(ServiceErrorKey, err_string e)]\<rparr>, Some e)"
| "render req NoAnswer = Panic"

lemma Clone_response_base: "upd_Header (\<lambda>h. SetMessageType h Response) (Clone req) = response_base req"
  by (simp add: Clone_def NewMessage_def response_base_def Let_def)

lemma response_base_payload: "(response_base req)\<lparr>Payload := []\<rparr> = response_base req"
  by (simp add: response_base_def)

lemma handleError_Some: "handleError (response_base req) (Some e) = render req (Failed e)"
  by (simp add: handleError_def response_base_def)

lemma handleError_None: "handleError m None = Panic"
  by (simp add: handleError_def)

section \<open>Refinement\<close>

text \<open>
  Go's type system keeps an object at its type: decoding into it and handing it to a method changes
  its contents only.
\<close>

definition types_kept :: "'v golib \<Rightarrow> (string, 'v service) gomap \<Rightarrow> bool" where
  "types_kept lib sm \<longleftrightarrow>
     (\<forall>t. has_type lib t (reflect_New lib t)) \<and>
     (\<forall>t c bs v. has_type lib t v \<longrightarrow> has_type lib t (snd (codec_Decode lib c bs v))) \<and>
     (\<forall>s svc n mt a r out a' r' t u. map_of sm s = Some svc \<longrightarrow> map_of (methodMap svc) n = Some mt \<longrightarrow>
        m_Func (mt_method mt) a r = (out, a', r') \<longrightarrow>
        (has_type lib t a \<longrightarrow> has_type lib t a') \<and> (has_type lib u r \<longrightarrow> has_type lib u r'))"

lemma pool_New_typed: "types_kept lib sm \<Longrightarrow> pooled_type lib t (pool_New lib t)"
  by (simp add: types_kept_def pooled_type_def pool_New_def)

lemma decode_typed:
  "types_kept lib sm \<Longrightarrow> pooled_type lib t v \<Longrightarrow> codec_Decode lib c bs v = (e, v') \<Longrightarrow> pooled_type lib t v'"
  unfolding types_kept_def pooled_type_def by (metis snd_conv)

lemma service_call_typed:
  assumes "types_kept lib sm" "map_of sm s = Some svc" "map_of (methodMap svc) n = Some mt"
    and "service_call mt a r = (e, a', r')" "pooled_type lib t a" "pooled_type lib u r"
  shows "pooled_type lib t a' \<and> pooled_type lib u r'"
proof -
  obtain out b q where f: "m_Func (mt_method mt) a r = (out, b, q)"
    by (cases "m_Func (mt_method mt) a r") auto
  have "pooled_type lib t b" "pooled_type lib u q"
    using assms(1-3,5,6) f unfolding types_kept_def pooled_type_def by blast+
  then show ?thesis
    using assms(4,5) f by (auto simp: service_call_def split: if_splits)
qed

lemma GetRaw_New: "pool_GetRaw lib t = pool_New lib t"
  by (simp add: pool_GetRaw_def pool_New_def)

definition serving :: "(string \<Rightarrow> bool) \<Rightarrow> 'v golib \<Rightarrow> ('v, 'w) registry \<Rightarrow> bool" where
  "serving up lib reg \<longleftrightarrow> registry_inv up lib reg \<and> types_kept lib (serviceMap reg)"

lemma serving_upd_pools:
  assumes "serving up lib reg" "pools_inv lib p" "known_types p = known_types (reflectTypePools reg)"
  shows "serving up lib (upd_pools p reg)"
  using assms by (auto simp: serving_def registry_inv_def intro: service_ready_mono)

lemma serving_typed: "serving up lib reg \<Longrightarrow> types_kept lib (serviceMap reg)"
  and serving_pools: "serving up lib reg \<Longrightarrow> pools_inv lib (reflectTypePools reg)"
  by (simp_all add: serving_def registry_inv_def)

lemma serving_known:
  assumes "serving up lib reg" "map_of (serviceMap reg) s = Some svc" "map_of (methodMap svc) n = Some mt"
  shows "ArgType mt \<in> known_types (reflectTypePools reg)" "ReplyType mt \<in> known_types (reflectTypePools reg)"
proof -
  have "method_ready up (reflectTypePools reg) n mt"
    using assms unfolding serving_def registry_inv_def service_ready_def methods_ready_def by blast
  then show "ArgType mt \<in> known_types (reflectTypePools reg)" "ReplyType mt \<in> known_types (reflectTypePools reg)"
    unfolding method_ready_def by blast+
qed

lemma invoke_refines:
  assumes sv: "serving up lib reg"
    and svc: "map_of (serviceMap reg) (ServicePath req) = Some svc"
    and mt: "map_of (methodMap svc) (ServiceMethod req) = Some mt"
    and c: "Codecs (SerializeType (Header req)) = Some c"
  shows "\<exists>reg'. handleRequest lib picks reg req =
      (render req (invoke_spec lib (IsOneway (Header req)) mt c (Payload req)), reg') \<and>
    serving up lib reg' \<and> serviceMap reg' = serviceMap reg"
proof -
  note tk = serving_typed [OF sv] and inv = serving_pools [OF sv] and known = serving_known [OF sv svc mt]
  obtain p1 where p1: "pool_Get lib (ArgType mt) (fst picks) (reflectTypePools reg) = Return (pool_New lib (ArgType mt), p1)"
      "pools_inv lib p1" "known_types p1 = known_types (reflectTypePools reg)"
    using type_pools.get_known [OF inv known(1)] by blast
  let ?base = "response_base req"
  obtain e1 a where d: "codec_Decode lib c (Payload req) (pool_New lib (ArgType mt)) = (e1, a)" by fastforce
  have base: "getService reg (ServicePath req) = Inr svc" using svc by (simp add: getService_def)
  show ?thesis
  proof (cases e1)
    case (Some err)
    then have "handleRequest lib picks reg req = (handleError ?base (Some err), upd_pools p1 reg)"
      by (simp add: handleRequest_def Let_def Clone_response_base base mt c p1(1) d)
    moreover have "invoke_spec lib (IsOneway (Header req)) mt c (Payload req) = Failed err"
      using d Some by (simp add: invoke_spec_def GetRaw_New)
    ultimately show ?thesis
      using serving_upd_pools [OF sv p1(2,3)] by (simp add: handleError_Some)
  next
    case None
    have ta: "pooled_type lib (ArgType mt) a"
      using decode_typed [OF tk pool_New_typed [OF tk] d] .
    obtain p2 where p2: "pool_Get lib (ReplyType mt) (snd picks) p1 = Return (pool_New lib (ReplyType mt), p2)"
        "pools_inv lib p2" "known_types p2 = known_types p1"
      using type_pools.get_known [OF p1(2)] known(2) p1(3) by metis
    obtain e2 a' r where call: "service_call mt a (pool_New lib (ReplyType mt)) = (e2, a', r)"
      using prod_cases3 by blast
    have typed: "pooled_type lib (ArgType mt) a'" "pooled_type lib (ReplyType mt) r"
      using service_call_typed [OF tk svc mt call ta pool_New_typed [OF tk]] by auto
    obtain p3 where p3: "pool_Put lib (ArgType mt) a' p2 = Return p3" "pools_inv lib p3" "known_types p3 = known_types p2"
      using type_pools.put_known [OF p2(2) _ typed(1)] known(1) p1(3) p2(3) by metis
    obtain p4 where p4: "pool_Put lib (ReplyType mt) r p3 = Return p4" "pools_inv lib p4" "known_types p4 = known_types p3"
      using type_pools.put_known [OF p3(2) _ typed(2)] known(2) p1(3) p2(3) p3(3) by metis
    have sv4: "serving up lib (upd_pools p4 reg)"
      using serving_upd_pools [OF sv p4(2)] p1(3) p2(3) p3(3) p4(3) by simp
    have "handleRequest lib picks reg req =
        (render req (invoke_spec lib (IsOneway (Header req)) mt c (Payload req)), upd_pools p4 reg)"
      using None d call
      by (cases e2; cases "codec_Encode lib c r"; cases "IsOneway (Header req)")
        (simp_all add: handleRequest_def call_and_reply_def failed_reply_def ok_reply_def encode_and_put_def Let_def Clone_response_base base mt c p1(1) p2(1) p3(1) p4(1)
          invoke_spec_def GetRaw_New handleError_Some handleError_None response_base_payload)
    then show ?thesis using sv4 by simp
  qed
qed


lemma getService_None: "map_of (serviceMap reg) s = None \<Longrightarrow> getService reg s = Inl (NewError (''can't find service '' @ s))"
  and getService_Some: "map_of (serviceMap reg) s = Some svc \<Longrightarrow> getService reg s = Inr svc"
  by (simp_all add: getService_def)

lemma handleRequest_spec:
  assumes sv: "serving up lib reg"
  shows "\<exists>reg'. handleRequest lib picks reg req = (render req (handle_spec lib (serviceMap reg) req), reg') \<and>
    serving up lib reg' \<and> serviceMap reg' = serviceMap reg"
proof (cases "map_of (serviceMap reg) (ServicePath req)")
  case None
  then show ?thesis
    using sv by (simp add: handleRequest_def handle_spec_def Let_def Clone_response_base getService_None handleError_Some)
next
  case (Some svc)
  note svc = this
  show ?thesis
  proof (cases "map_of (methodMap svc) (ServiceMethod req)")
    case None
    then show ?thesis
      using sv svc by (simp add: handleRequest_def handle_spec_def Let_def Clone_response_base getService_Some handleError_Some)
  next
    case (Some mt)
    note known = serving_known [OF sv svc Some]
    obtain p where p: "pool_Get lib (ArgType mt) (fst picks) (reflectTypePools reg) = Return (pool_New lib (ArgType mt), p)"
        "pools_inv lib p" "known_types p = known_types (reflectTypePools reg)"
      using type_pools.get_known [OF serving_pools [OF sv] known(1)] by blast
    show ?thesis
    proof (cases "Codecs (SerializeType (Header req))")
      case None
      then show ?thesis
        using svc Some p(1) serving_upd_pools [OF sv p(2,3)]
        by (simp add: handleRequest_def handle_spec_def Let_def Clone_response_base getService_Some handleError_Some)
    next
      case c: (Some c)
      show ?thesis
        using invoke_refines [OF sv svc Some c, of picks] svc Some c by (simp add: handle_spec_def)
    qed
  qed
qed

section \<open>What is written\<close>

text \<open>The bytes a request is answered with, from the specification alone.\<close>

definition answer_spec :: "'v golib \<Rightarrow> (string, 'v service) gomap \<Rightarrow> message \<Rightarrow> byte list option" where
  "answer_spec lib sm req =
     (if IsHeartbeat (Header req) then Some (Encode (upd_Header (\<lambda>h. SetMessageType h Response) req))
      else if IsOneway (Header req) then None
      else (case render req (handle_spec lib sm req) of
              Panic \<Rightarrow> None
            | Return (res, err) \<Rightarrow> Some (Encode res)))"

text \<open>
  The requests a connection handed out, processed one after the other in some order. The program runs
  one goroutine for each; they share the pools, whose choice of objects is arbitrary here, and the counter,
  which is updated atomically. A handler is taken as one step, so the order is that in which they ran.
\<close>

fun process_all ::
    "'v golib \<Rightarrow> (nat option \<times> nat option) list \<Rightarrow> ('v, 'w) server \<Rightarrow> message list
     \<Rightarrow> byte list option list \<times> ('v, 'w) server" where
  "process_all lib picks svr [] = ([], svr)"
| "process_all lib picks svr (req # reqs) =
     (case processOneRequest lib (case picks of [] \<Rightarrow> (None, None) | p # _ \<Rightarrow> p) svr req of
        (out, svr) \<Rightarrow>
          (case process_all lib (tl picks) svr reqs of (outs, svr) \<Rightarrow> (out # outs, svr)))"

lemma processOneRequest_spec:
  assumes "serving up lib (sv_registry svr)"
  shows "\<exists>svr'. processOneRequest lib picks svr req = (answer_spec lib (serviceMap (sv_registry svr)) req, svr') \<and>
    serving up lib (sv_registry svr') \<and> serviceMap (sv_registry svr') = serviceMap (sv_registry svr) \<and>
    handlerMsgNum svr' = handlerMsgNum svr"
proof (cases "IsHeartbeat (Header req)")
  case True
  then show ?thesis using assms by (simp add: processOneRequest_def answer_spec_def Let_def)
next
  case False
  obtain reg' where "handleRequest lib picks (sv_registry svr) req =
      (render req (handle_spec lib (serviceMap (sv_registry svr)) req), reg')"
      "serving up lib reg'" "serviceMap reg' = serviceMap (sv_registry svr)"
    using handleRequest_spec [OF assms] by blast
  then show ?thesis
    using False
    by (simp add: processOneRequest_def answer_spec_def Let_def sendResponse_def
        split: outcome.split prod.split)
qed

lemma process_all_spec:
  assumes "serving up lib (sv_registry svr)"
  shows "\<exists>svr'. process_all lib picks svr reqs =
      (map (answer_spec lib (serviceMap (sv_registry svr))) reqs, svr') \<and>
    serving up lib (sv_registry svr') \<and> serviceMap (sv_registry svr') = serviceMap (sv_registry svr) \<and>
    handlerMsgNum svr' = handlerMsgNum svr"
  using assms
proof (induction reqs arbitrary: svr picks)
  case Nil
  then show ?case by simp
next
  case (Cons req reqs)
  obtain svr1 where one: "processOneRequest lib (case picks of [] \<Rightarrow> (None, None) | p # _ \<Rightarrow> p) svr req =
      (answer_spec lib (serviceMap (sv_registry svr)) req, svr1)"
      "serving up lib (sv_registry svr1)" "serviceMap (sv_registry svr1) = serviceMap (sv_registry svr)"
      "handlerMsgNum svr1 = handlerMsgNum svr"
    using processOneRequest_spec [OF Cons.prems] by blast
  then show ?case using Cons.IH [OF one(2), of "tl picks"] by auto
qed

lemma view_Response:
  assumes "wf_header h"
  shows "header_view (SetMessageType h Response) = (header_view h)\<lparr>v_type := Response\<rparr>"
proof -
  have "MessageType h OR (Response AND 1) = Response"
    by (rule byte_eqI) (auto simp: MessageType_def Response_def bit_simps)
  then show ?thesis using view_SetMessageType [OF assms, of Response] by simp
qed

lemma ErrorStatus_mask: "ErrorStatus AND 3 = ErrorStatus"
  by (simp add: ErrorStatus_def)

lemma render_Return:
  assumes "render req out = Return (res, err)"
  shows "ServicePath res = ServicePath req" "ServiceMethod res = ServiceMethod req" "mdata res = nil_slice"
    and "wf_header (Header req) \<Longrightarrow> wf_header (Header res) \<and>
      header_view (Header res) = (header_view (Header req))
        \<lparr>v_type := Response, v_status := (if err = None then v_status (header_view (Header req)) else ErrorStatus)\<rparr>"
    and "Metadata res = (case err of None \<Rightarrow> [] | Some e \<Rightarrow> [(ServiceErrorKey, err_string e)])"
  using assms
  by (cases out; auto simp: response_base_def view_SetMessageStatusType view_Response ErrorStatus_mask)+

section \<open>The loop over a stream of requests\<close>

lemma serve_loop_stream:
  assumes "list_all (wire_ok lim) reqs"
  shows "serve_loop (\<lambda>_. False) lim i \<lparr>rd_bytes = concat (map Encode reqs), rd_err = EOF\<rparr> evs =
    (evs @ map (Process \<circ> received) reqs, EndClientClosed)"
  using assms
proof (induction reqs arbitrary: i evs)
  case Nil
  have "Read lim \<lparr>rd_bytes = [], rd_err = EOF\<rparr> = (Inl EOF, \<lparr>rd_bytes = [], rd_err = EOF\<rparr>)"
    by (simp add: Read_def Decode_def decode_body_def decode_frame_def ReadFull_def Let_def)
  then show ?case by (subst serve_loop.simps) simp
next
  case (Cons m reqs)
  then have "Read lim \<lparr>rd_bytes = Encode m @ concat (map Encode reqs), rd_err = EOF\<rparr> =
      (Inr (received m), \<lparr>rd_bytes = concat (map Encode reqs), rd_err = EOF\<rparr>)"
    by (intro Read_Encode) simp
  then show ?case
    using Cons by (subst serve_loop.simps) (simp add: auth_def)
qed


section \<open>A service for the examples\<close>

definition demo_types :: "rtype list" where
  "demo_types = [BaseT ''main'' ''Arith'' [], BaseT ''context'' ''Context'' [''context.Context''],
     BaseT [] ''int'' [], PtrT (BaseT [] ''int'' []) []]"

definition demo_method :: "(nat \<Rightarrow> nat \<Rightarrow> go_error option outcome \<times> nat \<times> nat) \<Rightarrow> nat methodType" where
  "demo_method f =
     \<lparr>mt_method = \<lparr>m_Name = ''Double'', m_PkgPath = [], m_In = demo_types, m_Out = [typeOfError], m_Func = f\<rparr>,
      ArgType = demo_types ! 2, ReplyType = demo_types ! 3\<rparr>"

definition demo_registry :: "(nat \<Rightarrow> nat \<Rightarrow> go_error option outcome \<times> nat \<times> nat) \<Rightarrow> (nat, unit) registry" where
  "demo_registry f =
     \<lparr>serviceMap = [(''Arith'', \<lparr>service_name = ''Arith'', methodMap = [(''Double'', demo_method f)]\<rparr>)],
      Plugins = \<lparr>plugins = []\<rparr>, reflectTypePools = [(demo_types ! 2, []), (demo_types ! 3, [])]\<rparr>"

definition demo_server :: "(nat \<Rightarrow> nat \<Rightarrow> go_error option outcome \<times> nat \<times> nat) \<Rightarrow> (nat, unit) server" where
  "demo_server f = \<lparr>sv_registry = demo_registry f, handlerMsgNum = 0\<rparr>"

definition demo_request :: message where
  "demo_request = NewMessage
     \<lparr>Header := [0x08, 0, 0, 0x10, 0, 0, 0, 0, 0, 0, 0, 5], ServicePath := ''Arith'', ServiceMethod := ''Double'',
      Payload := [21]\<rparr>"

definition demo_double :: "nat \<Rightarrow> nat \<Rightarrow> go_error option outcome \<times> nat \<times> nat" where
  "demo_double a r = (Return None, a, 2 * a)"

definition demo_fail :: "nat \<Rightarrow> nat \<Rightarrow> go_error option outcome \<times> nat \<times> nat" where
  "demo_fail a r = (Return (Some (NewError ''no'')), a, r)"

definition demo_panic :: "nat \<Rightarrow> nat \<Rightarrow> go_error option outcome \<times> nat \<times> nat" where
  "demo_panic a r = (Panic, a, r)"

lemma demo_lookups:
  "map_of (serviceMap (demo_registry f)) ''Arith'' =
    Some \<lparr>service_name = ''Arith'', methodMap = [(''Double'', demo_method f)]\<rparr>"
  "ArgType (demo_method f) = demo_types ! 2" "ReplyType (demo_method f) = demo_types ! 3"
  "m_Func (mt_method (demo_method f)) = f" "sv_registry (demo_server f) = demo_registry f"
  by (simp_all add: demo_registry_def demo_method_def demo_server_def)

lemma demo_serving: "serving up nat_lib (demo_registry f)"
proof -
  have valid: "checkValidMethod up (mt_method (demo_method f))"
    by (simp add: checkValidMethod_def demo_method_def demo_types_def Implements_def typeOfContext_def is_Pointer_def
        typeOfError_def)
  have "method_ready up (reflectTypePools (demo_registry f)) ''Double'' (demo_method f)"
    using valid by (simp add: method_ready_def demo_registry_def known_types_def) (simp add: demo_method_def)
  then have "registry_inv up nat_lib (demo_registry f)"
    by (simp add: registry_inv_def pools_inv_def nat_lib_Reset demo_registry_def gomap_ok_def demo_types_def
        service_ready_def methods_ready_def)
  then show ?thesis
    by (simp add: serving_def types_kept_def nat_lib_has_type)
qed

lemma demo_request_header: "Header demo_request = [0x08, 0, 0, 0x10, 0, 0, 0, 0, 0, 0, 0, 5]"
  by (simp add: demo_request_def)

lemma demo_request_simps:
  "ServicePath demo_request = ''Arith''"
  "ServiceMethod demo_request = ''Double''" "Payload demo_request = [21]"
  "\<not> IsHeartbeat (Header demo_request)" "\<not> IsOneway (Header demo_request)"
  "SerializeType (Header demo_request) = JSON"
  by (simp_all add: demo_request_def IsHeartbeat_def IsOneway_def SerializeType_def JSON_def)

lemma demo_decode:
  "JSONCodec_Decode nat_lib [21] k = (None, 21)"
  "JSONCodec_Encode nat_lib n = Inr [word_of_nat n]" "pool_GetRaw nat_lib t = 0"
  by (simp_all add: JSONCodec_Decode_def JSONCodec_Encode_def nat_lib_def pool_GetRaw_def)

section \<open>Properties\<close>

text \<open>
  C1: handling a request implements its specification. Whichever pooled objects are picked, the handler
  answers as if it had allocated its argument and reply objects, on every path, errors included, and
  leaves the server able to serve the next request in the same way.
\<close>

theorem handle_request_refines:
  assumes "serving up lib reg"
  shows "\<exists>reg'. handleRequest lib picks reg req = (render req (handle_spec lib (serviceMap reg) req), reg') \<and>
    serving up lib reg' \<and> serviceMap reg' = serviceMap reg"
  using assms by (rule handleRequest_spec)

theorem handle_request_refines_witness:
  "fst (handleRequest nat_lib (Some 3, Some 1) (demo_registry demo_double) demo_request) =
    Return ((response_base demo_request)\<lparr>Payload := [42]\<rparr>, None)"
proof -
  have "handle_spec nat_lib (serviceMap (demo_registry demo_double)) demo_request = Reply [42]"
    by (simp add: handle_spec_def demo_lookups demo_request_simps invoke_spec_def demo_decode
        service_call_def demo_double_def)
  then show ?thesis
    using handle_request_refines [OF demo_serving [where up = "\<lambda>_. False" and f = demo_double],
      of "(Some 3, Some 1)" demo_request] by auto
qed

text \<open>
  C11: requests do not influence each other. The requests of a connection, processed in any order and
  with any choice of pooled objects, are answered each by its own specified answer, and the counter
  of running handlers returns to what it was.
\<close>

theorem requests_answered_independently:
  assumes "serving up lib (sv_registry svr)"
  shows "fst (process_all lib picks svr reqs) = map (answer_spec lib (serviceMap (sv_registry svr))) reqs \<and>
    handlerMsgNum (snd (process_all lib picks svr reqs)) = handlerMsgNum svr"
  using process_all_spec [OF assms, of picks reqs] by auto

theorem requests_answered_independently_witness:
  "fst (process_all nat_lib [] (demo_server demo_double) [demo_request]) =
    [answer_spec nat_lib (serviceMap (demo_registry demo_double)) demo_request]"
  using requests_answered_independently [of "\<lambda>_. False" nat_lib "demo_server demo_double" "[]" "[demo_request]"]
    demo_serving [of "\<lambda>_. False" demo_double]
  by (simp add: demo_server_def)

text \<open>
  C13: the connection loop dispatches exactly the messages that were sent, in the order they were sent,
  and ends when the client closes the connection.
\<close>

theorem connection_dispatches_stream:
  assumes "list_all (wire_ok lim) reqs"
  shows "serveConn (\<lambda>_. False) lim \<lparr>rd_bytes = concat (map Encode reqs), rd_err = EOF\<rparr> =
    (map (Process \<circ> received) reqs, EndClientClosed)"
  using serve_loop_stream [OF assms] by (simp add: serveConn_def)

theorem connection_dispatches_stream_witness:
  "serveConn (\<lambda>_. False) 100 \<lparr>rd_bytes = concat (map Encode [sample_message, sample_message]), rd_err = EOF\<rparr> =
    ([Process (received sample_message), Process (received sample_message)], EndClientClosed)"
  using connection_dispatches_stream [of 100 "[sample_message, sample_message]"] sample_message_ok by simp

text \<open>
  C12: a response belongs to its request and says how it went. Whatever is written for a request that is no
  heartbeat is the encoding of a message with the request's sequence number, path and method, marked as a
  response. If the handler failed, its status is an error, its metadata is exactly the error's text and it has
  no payload; otherwise it carries the reply, no metadata, and the status the request had. So for a request
  of normal status the response has an error status exactly if its metadata carries an error text.
\<close>

theorem response_matches_request:
  assumes "serving up lib (sv_registry svr)" and "\<not> IsHeartbeat (Header req)" and "wf_header (Header req)"
    and "fst (processOneRequest lib picks svr req) = Some bs"
  shows "\<exists>res. bs = Encode res \<and> wf_header (Header res) \<and> Seq (Header res) = Seq (Header req) \<and>
    ServicePath res = ServicePath req \<and> ServiceMethod res = ServiceMethod req \<and>
    MessageType (Header res) = Response \<and> SerializeType (Header res) = SerializeType (Header req) \<and>
    (case handle_spec lib (serviceMap (sv_registry svr)) req of
       Failed e \<Rightarrow> MessageStatusType (Header res) = ErrorStatus \<and> Metadata res = [(ServiceErrorKey, err_string e)] \<and> Payload res = []
     | Reply p \<Rightarrow> MessageStatusType (Header res) = MessageStatusType (Header req) \<and> Metadata res = [] \<and> Payload res = p
     | NoAnswer \<Rightarrow> False) \<and>
    (MessageStatusType (Header req) = NormalStatus \<longrightarrow>
       (MessageStatusType (Header res) = ErrorStatus \<longleftrightarrow> (\<exists>e. Metadata res = [(ServiceErrorKey, err_string e)])))"
proof -
  let ?out = "handle_spec lib (serviceMap (sv_registry svr)) req"
  obtain res err where r: "render req ?out = Return (res, err)" and bs: "bs = Encode res"
    using processOneRequest_spec [OF assms(1), of picks req] assms(2,4)
    by (auto simp: answer_spec_def split: if_splits outcome.splits prod.splits)
  have wf: "wf_header (Header res)" and v: "header_view (Header res) = (header_view (Header req))
      \<lparr>v_type := Response, v_status := (if err = None then v_status (header_view (Header req)) else ErrorStatus)\<rparr>"
    using render_Return(4) [OF r assms(3)] by blast+
  have fields: "MessageType (Header res) = Response" "Seq (Header res) = Seq (Header req)"
      "SerializeType (Header res) = SerializeType (Header req)"
      "MessageStatusType (Header res) = (if err = None then MessageStatusType (Header req) else ErrorStatus)"
    using v by (simp_all add: header_view_def)
  have how: "case ?out of
       Failed e \<Rightarrow> err = Some e \<and> Metadata res = [(ServiceErrorKey, err_string e)] \<and> Payload res = []
     | Reply p \<Rightarrow> err = None \<and> Metadata res = [] \<and> Payload res = p
     | NoAnswer \<Rightarrow> False"
    using r by (cases ?out) (auto simp: response_base_def)
  have "NormalStatus \<noteq> ErrorStatus" by (simp add: NormalStatus_def ErrorStatus_def)
  then show ?thesis
    using bs wf fields how render_Return(1,2) [OF r] by (intro exI [of _ res]) (auto split: rpc_outcome.splits)
qed

theorem response_matches_request_witness:
  "\<exists>res. fst (processOneRequest nat_lib (None, None) (demo_server demo_double) demo_request) = Some (Encode res) \<and>
    Seq (Header res) = 5"
proof -
  have s: "serving (\<lambda>_. False) nat_lib (sv_registry (demo_server demo_double))"
    using demo_serving by (simp add: demo_server_def)
  obtain bs where bs: "fst (processOneRequest nat_lib (None, None) (demo_server demo_double) demo_request) = Some bs"
    using processOneRequest_spec [OF s, of "(None, None)" demo_request]
    by (auto simp: answer_spec_def demo_request_simps handle_spec_def demo_lookups
        invoke_spec_def demo_decode service_call_def demo_double_def)
  have "Seq (Header demo_request) = 5" "wf_header (Header demo_request)"
    by (simp_all add: demo_request_header Seq_def u64_of_def wf_header_def)
  then show ?thesis
    using response_matches_request [OF s _ _ bs] bs by (fastforce simp: demo_request_simps)
qed

text \<open>
  C17: a service that returns an error is never heard of. When a method fails and its reply object can
  be encoded, the encoder's nil result overwrites the error, the error writer dereferences nil, the
  panic is recovered, and nothing at all is written to the connection.
\<close>

theorem service_error_is_lost:
  assumes "serving up lib (sv_registry svr)" and "\<not> IsHeartbeat (Header req)"
    and "map_of (serviceMap (sv_registry svr)) (ServicePath req) = Some svc"
    and "map_of (methodMap svc) (ServiceMethod req) = Some mt"
    and "Codecs (SerializeType (Header req)) = Some c"
    and "codec_Decode lib c (Payload req) (pool_GetRaw lib (ArgType mt)) = (None, a)"
    and "service_call mt a (pool_GetRaw lib (ReplyType mt)) = (Some e, a', r)"
    and "codec_Encode lib c r = Inr payload"
  shows "fst (processOneRequest lib picks svr req) = None"
  using processOneRequest_spec [OF assms(1), of picks req] assms(2-)
  by (auto simp: answer_spec_def handle_spec_def invoke_spec_def)

theorem service_error_is_lost_witness:
  "fst (processOneRequest nat_lib (None, None) (demo_server demo_fail) demo_request) = None"
  by (rule service_error_is_lost [where up = "\<lambda>_. False" and c = JSONCodec and mt = "demo_method demo_fail"
        and svc = "\<lparr>service_name = ''Arith'', methodMap = [(''Double'', demo_method demo_fail)]\<rparr>"
        and a = 21 and a' = 21 and r = 0 and e = "NewError ''no''" and payload = "[0]"])
    (simp_all add: demo_lookups demo_serving demo_request_simps demo_decode demo_fail_def service_call_def)

text \<open>
  A service that panics is reported as a success. The panic is recovered inside the call, whose
  unnamed result is then nil, so the client gets a normal response with whatever the reply object
  holds.
\<close>

theorem service_panic_reported_as_success:
  assumes "serving up lib reg"
    and "map_of (serviceMap reg) (ServicePath req) = Some svc"
    and "map_of (methodMap svc) (ServiceMethod req) = Some mt"
    and "Codecs (SerializeType (Header req)) = Some c"
    and "codec_Decode lib c (Payload req) (pool_GetRaw lib (ArgType mt)) = (None, a)"
    and "m_Func (mt_method mt) a (pool_GetRaw lib (ReplyType mt)) = (Panic, a', r)"
    and "codec_Encode lib c r = Inr payload" and "\<not> IsOneway (Header req)"
  shows "fst (handleRequest lib picks reg req) = Return ((response_base req)\<lparr>Payload := payload\<rparr>, None)"
  using handleRequest_spec [OF assms(1), of picks req] assms(2-)
  by (auto simp: handle_spec_def invoke_spec_def service_call_def)

theorem service_panic_reported_as_success_witness:
  "fst (handleRequest nat_lib (None, None) (demo_registry demo_panic) demo_request) =
    Return ((response_base demo_request)\<lparr>Payload := [0]\<rparr>, None)"
  by (rule service_panic_reported_as_success [where up = "\<lambda>_. False" and c = JSONCodec and mt = "demo_method demo_panic"
        and svc = "\<lparr>service_name = ''Arith'', methodMap = [(''Double'', demo_method demo_panic)]\<rparr>"
        and a = 21 and a' = 21 and r = 0])
    (simp_all add: demo_lookups demo_serving demo_request_simps demo_decode demo_panic_def)

end
