(* ===== verification/Client.thy ===== *)
theory Client
  imports Server
begin

text \<open>
  The connection to one server, \<^verbatim>\<open>client/client.go\<close>: calls, the pending table, the goroutines that
  send a request, the input loop, cancellation and shutdown. The goroutines interleave at their
  critical sections; a step relation describes every schedule. Values behind pointers (calls,
  channels, the sequence number shared through the context) live in tables of the state.
\<close>

section \<open>State\<close>

type_synonym cid = nat \<comment> \<open>a \<^verbatim>\<open>*Call\<close>\<close>
type_synonym chan = nat \<comment> \<open>a \<^verbatim>\<open>chan *Call\<close>\<close>

record 'v call =
  ca_ServicePath :: string
  ca_ServiceMethod :: string
  ca_Metadata :: "(string, string) gomap"
  ca_ResMetadata :: "(string, string) gomap"
  Args :: 'v
  ReplyVal :: 'v \<comment> \<open>what \<^verbatim>\<open>Reply\<close> points to\<close>
  Error :: "go_error option"
  Done :: chan

text \<open>
  The goroutines, by what they do next: \<open>SendStart\<close> is \<^verbatim>\<open>send\<close> before its first critical section,
  \<open>SendStore\<close> and \<open>SendWrite\<close> are its two parts after it, \<open>Finish\<close> completes a call that \<^verbatim>\<open>send\<close> took
  back, \<open>CallWait\<close> is \<^verbatim>\<open>Call\<close> in its select, and \<open>CallCancelled\<close> is \<^verbatim>\<open>Call\<close> after the critical section
  of its cancel branch, about to complete the call it found, if any.
\<close>

datatype task =
    SendStart cid
  | SendStore cid u64 SerializeType
  | SendWrite cid u64 SerializeType
  | Finish cid go_error
  | CallWait cid
  | CallCancelled cid "cid option" go_error

datatype input_pc = Reading | Delivering cid message | Failing go_error | Ended

record 'v client =
  opt_SerializeType :: SerializeType
  seq :: u64
  pending :: "(u64, cid) gomap"
  closing :: bool
  shutdown :: bool
  conn_closed :: bool
  sent :: "byte list list" \<comment> \<open>what was written to the connection\<close>
  input_at :: input_pc
  tasks :: "task list"
  calls :: "cid \<Rightarrow> 'v call"
  ncalls :: nat
  seqptr :: "cid \<Rightarrow> u64 option" \<comment> \<open>the \<^verbatim>\<open>*uint64\<close> in the context; only \<^verbatim>\<open>Call\<close> puts one there\<close>
  chan_cap :: "chan \<Rightarrow> nat"
  chan_buf :: "chan \<Rightarrow> cid list"
  nchans :: nat
  returned :: "cid \<Rightarrow> go_error option option" \<comment> \<open>what \<^verbatim>\<open>Call\<close> returned, once it has\<close>
  completions :: "cid \<Rightarrow> nat" \<comment> \<open>history: how often \<^verbatim>\<open>done\<close> was called\<close>
  assigned :: "cid list" \<comment> \<open>history: the calls that got a sequence number, in order\<close>

definition NewClient :: "SerializeType \<Rightarrow> 'v call \<Rightarrow> 'v client" where
  \<comment> \<open>after \<^verbatim>\<open>Connect\<close>, so with the input loop running; the second argument fills unused table entries\<close>
  "NewClient st c0 =
     \<lparr>opt_SerializeType = st, seq = 0, pending = [], closing = False, shutdown = False, conn_closed = False,
      sent = [], input_at = Reading, tasks = [], calls = (\<lambda>_. c0), ncalls = 0, seqptr = (\<lambda>_. None),
      chan_cap = (\<lambda>_. 0), chan_buf = (\<lambda>_. []), nchans = 0, returned = (\<lambda>_. None),
      completions = (\<lambda>_. 0), assigned = []\<rparr>"

section \<open>Completing a call\<close>

text \<open>\<^verbatim>\<open>done\<close> sends the call on its channel, or drops it when the channel is full.\<close>

definition call_done :: "cid \<Rightarrow> 'v client \<Rightarrow> 'v client" where
  "call_done i c =
     (let ch = Done (calls c i);
          c = c\<lparr>completions := (completions c)(i := completions c i + 1)\<rparr>
      in if length (chan_buf c ch) < chan_cap c ch
         then c\<lparr>chan_buf := (chan_buf c)(ch := chan_buf c ch @ [i])\<rparr>
         else c)"

definition upd_call :: "cid \<Rightarrow> ('v call \<Rightarrow> 'v call) \<Rightarrow> 'v client \<Rightarrow> 'v client" where
  "upd_call i f c = c\<lparr>calls := (calls c)(i := f (calls c i))\<rparr>"

definition complete_with :: "cid \<Rightarrow> go_error \<Rightarrow> 'v client \<Rightarrow> 'v client" where
  \<comment> \<open>\<^verbatim>\<open>call.Error = err; call.done()\<close>\<close>
  "complete_with i e c = call_done i (upd_call i (\<lambda>ca. ca\<lparr>Error := Some e\<rparr>) c)"

definition add_task :: "task \<Rightarrow> 'v client \<Rightarrow> 'v client" where
  "add_task t c = c\<lparr>tasks := tasks c @ [t]\<rparr>"

definition drop_task :: "task \<Rightarrow> 'v client \<Rightarrow> 'v client" where
  "drop_task t c = c\<lparr>tasks := remove1 t (tasks c)\<rparr>"

section \<open>Starting a call\<close>

definition make_chan :: "nat \<Rightarrow> 'v client \<Rightarrow> chan \<times> 'v client" where
  "make_chan k c =
     (nchans c, c\<lparr>nchans := nchans c + 1, chan_cap := (chan_cap c)(nchans c := k), chan_buf := (chan_buf c)(nchans c := [])\<rparr>)"

definition new_call ::
    "(string, string) gomap \<Rightarrow> string \<Rightarrow> string \<Rightarrow> 'v \<Rightarrow> 'v \<Rightarrow> chan \<Rightarrow> 'v call" where
  "new_call meta sp sm args reply ch =
     \<lparr>ca_ServicePath = sp, ca_ServiceMethod = sm, ca_Metadata = meta, ca_ResMetadata = [], Args = args,
      ReplyVal = reply, Error = None, Done = ch\<rparr>"

text \<open>
  \<^verbatim>\<open>Go\<close> panics (\<^verbatim>\<open>log.Panic\<close>) on an unbuffered channel. \<open>ptr\<close> is the sequence number pointer of the
  context. The new call is the current number of calls.
\<close>

definition Go ::
    "u64 option \<Rightarrow> (string, string) gomap \<Rightarrow> string \<Rightarrow> string \<Rightarrow> 'v \<Rightarrow> 'v \<Rightarrow> chan option \<Rightarrow> 'v client
     \<Rightarrow> cid outcome \<times> 'v client" where
  "Go ptr meta sp sm args reply done c =
     (let (ch, c') = (case done of None \<Rightarrow> make_chan 10 c | Some ch \<Rightarrow> (ch, c))
      in if done \<noteq> None \<and> chan_cap c' ch = 0 then (Panic, c)
         else
           let i = ncalls c'
           in (Return i,
               add_task (SendStart i)
                 (c'\<lparr>ncalls := i + 1, calls := (calls c')(i := new_call meta sp sm args reply ch),
                     seqptr := (seqptr c')(i := ptr), completions := (completions c')(i := 0)\<rparr>)))"

definition Call_begin ::
    "(string, string) gomap \<Rightarrow> string \<Rightarrow> string \<Rightarrow> 'v \<Rightarrow> 'v \<Rightarrow> 'v client \<Rightarrow> 'v client" where
  "Call_begin meta sp sm args reply c =
     (let (ch, c) = make_chan 1 c
      in case Go (Some 0) meta sp sm args reply (Some ch) c of
           (Panic, c) \<Rightarrow> c
         | (Return i, c) \<Rightarrow> add_task (CallWait i) c)"

section \<open>Sending\<close>

definition isHeartBeat :: "'v call \<Rightarrow> bool" where
  "isHeartBeat ca \<longleftrightarrow> ca_ServicePath ca = [] \<and> ca_ServiceMethod ca = []"

text \<open>The first critical section of \<^verbatim>\<open>send\<close>.\<close>

definition send_lock :: "cid \<Rightarrow> 'v client \<Rightarrow> 'v client" where
  "send_lock i c =
     (if shutdown c \<or> closing c then complete_with i ErrShutdown c
      else
        let serializeType = opt_SerializeType c;
            serializeType = (if isHeartBeat (calls c i) then JSON else serializeType)
        in case Codecs serializeType of
             None \<Rightarrow> complete_with i ErrUnsupportedCodec c
           | Some codec \<Rightarrow>
               let q = seq c;
                   c = c\<lparr>seq := seq c + 1\<rparr>;
                   c = c\<lparr>pending := gomap_set q i (pending c), assigned := assigned c @ [i]\<rparr>
               in add_task (SendStore i q serializeType) c)"

definition send_store :: "cid \<Rightarrow> u64 \<Rightarrow> SerializeType \<Rightarrow> 'v client \<Rightarrow> 'v client" where
  "send_store i q st c =
     add_task (SendWrite i q st)
       (case seqptr c i of None \<Rightarrow> c | Some _ \<Rightarrow> c\<lparr>seqptr := (seqptr c)(i := Some q)\<rparr>)"

definition request_of :: "'v call \<Rightarrow> u64 \<Rightarrow> SerializeType \<Rightarrow> message" where
  "request_of ca q st =
     (let msg = NewMessage;
          msg = upd_Header (\<lambda>h. SetMessageType h Request) msg;
          msg = upd_Header (\<lambda>h. SetSerializeType h st) msg;
          msg = upd_Header (\<lambda>h. SetSeq h q) msg;
          msg = msg\<lparr>ServicePath := ca_ServicePath ca\<rparr>;
          msg = msg\<lparr>ServiceMethod := ca_ServiceMethod ca\<rparr>;
          msg = msg\<lparr>Metadata := ca_Metadata ca\<rparr>
      in if isHeartBeat ca then upd_Header (\<lambda>h. SetHeartbeat h True) msg else msg)"

text \<open>
  The rest of \<^verbatim>\<open>send\<close>; \<open>wres\<close> is what \<^verbatim>\<open>Write\<close> returns. On a failure the entry is removed, and the call
  is completed after the lock is released. The list \<open>sent\<close> holds the frames written in full; what part of a
  frame a failing write has put on the connection is not recorded.
\<close>

definition send_write :: "'v golib \<Rightarrow> go_error option \<Rightarrow> cid \<Rightarrow> u64 \<Rightarrow> SerializeType \<Rightarrow> 'v client \<Rightarrow> 'v client" where
  "send_write lib wres i q st c =
     (let msg = request_of (calls c i) q st;
          give_up = (\<lambda>e c. add_task (Finish i e) (c\<lparr>pending := gomap_del q (pending c)\<rparr>))
      in case Codecs st of
           None \<Rightarrow> c
         | Some codec \<Rightarrow>
             (case codec_Encode lib codec (Args (calls c i)) of
                Inl err \<Rightarrow> give_up err c
              | Inr payload \<Rightarrow>
                  let msg = msg\<lparr>Payload := payload\<rparr>
                  in (case wres of
                        Some err \<Rightarrow> give_up err c
                      | None \<Rightarrow> c\<lparr>sent := sent c @ [Encode msg]\<rparr>)))"

section \<open>The input loop\<close>

text \<open>\<^verbatim>\<open>msg.Decode\<close>, and the critical section that takes the call out of the table.\<close>

definition input_read :: "int \<Rightarrow> reader \<Rightarrow> 'v client \<Rightarrow> reader \<times> 'v client" where
  "input_read lim r c =
     (case Decode lim NewMessage r of
        (Some err, msg, r) \<Rightarrow> (r, c\<lparr>input_at := Failing err\<rparr>)
      | (None, msg, r) \<Rightarrow>
          (let q = Seq (Header msg);
               call = map_of (pending c) q;
               c = c\<lparr>pending := gomap_del q (pending c)\<rparr>
           in (r, case call of None \<Rightarrow> c | Some i \<Rightarrow> c\<lparr>input_at := Delivering i msg\<rparr>)))"

text \<open>
  What a response does to its call, and the error that ends the loop, if any. Only a response with
  status normal whose payload cannot be decoded ends it.
\<close>

definition apply_response :: "'v golib \<Rightarrow> message \<Rightarrow> 'v call \<Rightarrow> 'v call \<times> go_error option" where
  "apply_response lib msg ca =
     (if MessageStatusType (Header msg) = ErrorStatus then
        (let ca = (if Metadata msg \<noteq> [] then
                     ca\<lparr>ca_ResMetadata := Metadata msg,
                        Error := Some (ServiceError (gomap_get [] (Metadata msg) ServiceErrorKey))\<rparr>
                   else ca);
             ca = (if Payload msg \<noteq> [] then
                     (case Codecs (SerializeType (Header msg)) of
                        None \<Rightarrow> ca
                      | Some codec \<Rightarrow> ca\<lparr>ReplyVal := snd (codec_Decode lib codec (Payload msg) (ReplyVal ca))\<rparr>)
                   else ca)
         in (ca, None))
      else if MessageStatusType (Header msg) = NormalStatus then
        (let ca = (if Metadata msg \<noteq> [] then ca\<lparr>ca_ResMetadata := Metadata msg\<rparr> else ca)
         in if Payload msg \<noteq> [] then
              (case Codecs (SerializeType (Header msg)) of
                 None \<Rightarrow> (ca\<lparr>Error := Some (ServiceError (err_string ErrUnsupportedCodec))\<rparr>, None)
               | Some codec \<Rightarrow>
                   (case codec_Decode lib codec (Payload msg) (ReplyVal ca) of
                      (None, v) \<Rightarrow> (ca\<lparr>ReplyVal := v\<rparr>, None)
                    | (Some err, v) \<Rightarrow>
                        (ca\<lparr>ReplyVal := v, Error := Some (ServiceError (err_string err))\<rparr>, Some err)))
            else (ca, None))
      else (ca\<lparr>Error := Some (ServiceError (err_string ErrUnsupportedMsgStatusType))\<rparr>, None))"

definition input_deliver :: "'v golib \<Rightarrow> 'v client \<Rightarrow> 'v client" where
  "input_deliver lib c =
     (case input_at c of
        Delivering i msg \<Rightarrow>
          (let (ca, err) = apply_response lib msg (calls c i);
               c = call_done i (upd_call i (\<lambda>_. ca) c)
           in c\<lparr>input_at := (case err of None \<Rightarrow> Reading | Some e \<Rightarrow> Failing e)\<rparr>)
      | _ \<Rightarrow> c)"

text \<open>
  The end of the loop, one critical section. A \<^verbatim>\<open>net.OpError\<close> with an address but without an inner
  error is dereferenced, which panics; then the process is gone.
\<close>

definition shutdown_error :: "bool \<Rightarrow> go_error \<Rightarrow> go_error outcome" where
  "shutdown_error closed err =
     (case err of
        NetOpError s hasAddr inner \<Rightarrow>
          if hasAddr \<or> inner \<noteq> None
          then (case inner of None \<Rightarrow> Panic | Some e \<Rightarrow> Return (NewError (''net.Operror: '' @ err_string e)))
          else Return (NewError ''net.OpError'')
      | EOF \<Rightarrow> Return (if closed then ErrShutdown else ErrUnexpectedEOF)
      | _ \<Rightarrow> Return err)"

definition input_end :: "'v client \<Rightarrow> unit outcome \<times> 'v client" where
  "input_end c =
     (case input_at c of
        Failing err \<Rightarrow>
          (let c = c\<lparr>conn_closed := True, shutdown := True\<rparr>
           in case shutdown_error (closing c) err of
                Panic \<Rightarrow> (Panic, c)
              | Return err \<Rightarrow>
                  (Return (), (foldl (\<lambda>c (q, i). complete_with i err c) c (pending c))\<lparr>input_at := Ended\<rparr>))
      | _ \<Rightarrow> (Return (), c))"

section \<open>Waiting, cancelling, closing\<close>

definition Call_receive :: "cid \<Rightarrow> 'v client \<Rightarrow> 'v client" where
  "Call_receive i c =
     (case chan_buf c (Done (calls c i)) of
        [] \<Rightarrow> c
      | j # js \<Rightarrow>
          c\<lparr>chan_buf := (chan_buf c)(Done (calls c i) := js), returned := (returned c)(i := Some (Error (calls c j)))\<rparr>)"

definition Call_cancel :: "cid \<Rightarrow> go_error \<Rightarrow> 'v client \<Rightarrow> 'v client" where
  \<comment> \<open>the critical section of the cancel branch\<close>
  "Call_cancel i ctxErr c =
     (let q = (case seqptr c i of None \<Rightarrow> 0 | Some q \<Rightarrow> q);
          call = map_of (pending c) q
      in add_task (CallCancelled i call ctxErr) (c\<lparr>pending := gomap_del q (pending c)\<rparr>))"

definition Call_cancelled :: "cid \<Rightarrow> cid option \<Rightarrow> go_error \<Rightarrow> 'v client \<Rightarrow> 'v client" where
  "Call_cancelled i call ctxErr c =
     (let c = (case call of None \<Rightarrow> c | Some j \<Rightarrow> complete_with j ctxErr c)
      in c\<lparr>returned := (returned c)(i := Some (Some ctxErr))\<rparr>)"

definition Close :: "go_error option \<Rightarrow> 'v client \<Rightarrow> go_error option \<times> 'v client" where
  \<comment> \<open>\<open>cres\<close> is what closing the connection returns\<close>
  "Close cres c =
     (let c = (foldl (\<lambda>c (q, i). complete_with i ErrShutdown (c\<lparr>pending := gomap_del q (pending c)\<rparr>)) c (pending c))
      in if closing c \<or> shutdown c then (Some ErrShutdown, c)
         else (cres, c\<lparr>closing := True, conn_closed := True\<rparr>))"


text \<open>The flags, read under the mutex.\<close>

definition IsClosing :: "'v client \<Rightarrow> bool" where
  [simp]: "IsClosing c \<longleftrightarrow> closing c"

definition IsShutdown :: "'v client \<Rightarrow> bool" where
  [simp]: "IsShutdown c \<longleftrightarrow> shutdown c"

section \<open>The step relation\<close>

text \<open>
  One step of one goroutine, or of the user. Only \<^verbatim>\<open>Call\<close> has access to the channel of a call it
  made; any other channel may be shared between calls and is drained by the user. Writing to a closed
  connection fails.
\<close>

inductive client_step :: "'v golib \<Rightarrow> 'v client \<Rightarrow> 'v client \<Rightarrow> bool" for lib where
  MakeChan: "client_step lib c (snd (make_chan k c))"
| StartGo:
    "\<lbrakk>\<And>ch. done = Some ch \<Longrightarrow> ch < nchans c \<and> (\<forall>i < ncalls c. seqptr c i \<noteq> None \<longrightarrow> Done (calls c i) \<noteq> ch);
      Go None meta sp sm args reply done c = (Return i, c')\<rbrakk> \<Longrightarrow> client_step lib c c'"
| StartCall: "client_step lib c (Call_begin meta sp sm args reply c)"
| Send: "SendStart i \<in> set (tasks c) \<Longrightarrow> client_step lib c (send_lock i (drop_task (SendStart i) c))"
| Store: "SendStore i q st \<in> set (tasks c) \<Longrightarrow> client_step lib c (send_store i q st (drop_task (SendStore i q st) c))"
| Write:
    "\<lbrakk>SendWrite i q st \<in> set (tasks c); conn_closed c \<Longrightarrow> wres \<noteq> None\<rbrakk>
     \<Longrightarrow> client_step lib c (send_write lib wres i q st (drop_task (SendWrite i q st) c))"
| Fail: "Finish i e \<in> set (tasks c) \<Longrightarrow> client_step lib c (complete_with i e (drop_task (Finish i e) c))"
| Receive:
    "\<lbrakk>CallWait i \<in> set (tasks c); chan_buf c (Done (calls c i)) \<noteq> []\<rbrakk>
     \<Longrightarrow> client_step lib c (Call_receive i (drop_task (CallWait i) c))"
| Cancel: "CallWait i \<in> set (tasks c) \<Longrightarrow> client_step lib c (Call_cancel i e (drop_task (CallWait i) c))"
| Cancelled:
    "CallCancelled i call e \<in> set (tasks c)
     \<Longrightarrow> client_step lib c (Call_cancelled i call e (drop_task (CallCancelled i call e) c))"
| UserReceive:
    "\<lbrakk>\<And>i. i < ncalls c \<Longrightarrow> seqptr c i \<noteq> None \<Longrightarrow> Done (calls c i) \<noteq> ch\<rbrakk>
     \<Longrightarrow> client_step lib c (c\<lparr>chan_buf := (chan_buf c)(ch := tl (chan_buf c ch))\<rparr>)"
| InputRead: "input_at c = Reading \<Longrightarrow> client_step lib c (snd (input_read lim r c))"
| InputDeliver: "input_at c = Delivering i msg \<Longrightarrow> client_step lib c (input_deliver lib c)"
| InputEnd: "\<lbrakk>input_at c = Failing e; input_end c = (Return (), c')\<rbrakk> \<Longrightarrow> client_step lib c c'"
| UserClose: "client_step lib c (snd (Close cres c))"

inductive client_run :: "'v golib \<Rightarrow> 'v client \<Rightarrow> 'v client \<Rightarrow> bool" for lib where
  Stop: "client_run lib c c"
| Step: "\<lbrakk>client_run lib c c1; client_step lib c1 c2\<rbrakk> \<Longrightarrow> client_run lib c c2"

lemma client_run_trans: "client_run lib b c \<Longrightarrow> client_run lib a b \<Longrightarrow> client_run lib a c"
  by (induction rule: client_run.induct) (auto intro: client_run.Step)

section \<open>The header of a request\<close>

lemma request_of_header:
  assumes "Codecs st = Some cd"
  shows "wf_header (Header (request_of ca q st))"
    and "header_view (Header (request_of ca q st)) =
      (header_view (Header NewMessage))\<lparr>v_serialize := st, v_seq := q, v_heartbeat := isHeartBeat ca\<rparr>"
proof -
  have "MessageType (Header NewMessage) = Request"
    using arg_cong [OF view_NewMessage(2), of v_type] by (simp add: header_view_def)
  then show "wf_header (Header (request_of ca q st))"
    and "header_view (Header (request_of ca q st)) =
      (header_view (Header NewMessage))\<lparr>v_serialize := st, v_seq := q, v_heartbeat := isHeartBeat ca\<rparr>"
    using serialize_mask [OF assms] view_NewMessage
    by (simp_all add: request_of_def Let_def header_view_setters Request_def)
qed

lemma request_of_fields:
  "ServicePath (request_of ca q st) = ca_ServicePath ca" "ServiceMethod (request_of ca q st) = ca_ServiceMethod ca"
  "Metadata (request_of ca q st) = ca_Metadata ca"
  by (simp_all add: request_of_def Let_def)



end
