(* ===== verification/Client_Inv.thy ===== *)
theory Client_Inv
  imports Client
begin

text \<open>
  Invariants of the client under every schedule: sequence numbers identify calls, a waiting \<^verbatim>\<open>Call\<close> can
  be woken once its call is completed, and no call is forgotten. From them follow which call a response
  reaches and that nobody waits for ever on a dead connection.
\<close>

section \<open>What the primitive operations change\<close>

lemmas task_ops = add_task_def drop_task_def

lemma add_task_simps [simp]:
  "opt_SerializeType (add_task t c) = opt_SerializeType c" "seq (add_task t c) = seq c"
  "pending (add_task t c) = pending c" "closing (add_task t c) = closing c" "shutdown (add_task t c) = shutdown c"
  "conn_closed (add_task t c) = conn_closed c" "sent (add_task t c) = sent c" "input_at (add_task t c) = input_at c"
  "tasks (add_task t c) = tasks c @ [t]" "calls (add_task t c) = calls c" "ncalls (add_task t c) = ncalls c"
  "seqptr (add_task t c) = seqptr c" "chan_cap (add_task t c) = chan_cap c" "chan_buf (add_task t c) = chan_buf c"
  "nchans (add_task t c) = nchans c" "returned (add_task t c) = returned c"
  "completions (add_task t c) = completions c" "assigned (add_task t c) = assigned c"
  by (simp_all add: add_task_def)

lemma drop_task_simps [simp]:
  "opt_SerializeType (drop_task t c) = opt_SerializeType c" "seq (drop_task t c) = seq c"
  "pending (drop_task t c) = pending c" "closing (drop_task t c) = closing c" "shutdown (drop_task t c) = shutdown c"
  "conn_closed (drop_task t c) = conn_closed c" "sent (drop_task t c) = sent c" "input_at (drop_task t c) = input_at c"
  "tasks (drop_task t c) = remove1 t (tasks c)" "calls (drop_task t c) = calls c" "ncalls (drop_task t c) = ncalls c"
  "seqptr (drop_task t c) = seqptr c" "chan_cap (drop_task t c) = chan_cap c" "chan_buf (drop_task t c) = chan_buf c"
  "nchans (drop_task t c) = nchans c" "returned (drop_task t c) = returned c"
  "completions (drop_task t c) = completions c" "assigned (drop_task t c) = assigned c"
  by (simp_all add: drop_task_def)

text \<open>Both completions are an update of the call followed by \<^verbatim>\<open>done\<close>.\<close>

definition finish_call :: "cid \<Rightarrow> 'v call \<Rightarrow> 'v client \<Rightarrow> 'v client" where
  "finish_call i ca c = call_done i (upd_call i (\<lambda>_. ca) c)"

lemma complete_with_finish: "complete_with i e c = finish_call i ((calls c i)\<lparr>Error := Some e\<rparr>) c"
  by (simp add: complete_with_def finish_call_def upd_call_def)

lemma finish_call_simps [simp]:
  "opt_SerializeType (finish_call i ca c) = opt_SerializeType c" "seq (finish_call i ca c) = seq c"
  "pending (finish_call i ca c) = pending c" "closing (finish_call i ca c) = closing c"
  "shutdown (finish_call i ca c) = shutdown c" "conn_closed (finish_call i ca c) = conn_closed c"
  "sent (finish_call i ca c) = sent c" "input_at (finish_call i ca c) = input_at c"
  "tasks (finish_call i ca c) = tasks c" "calls (finish_call i ca c) = (calls c)(i := ca)"
  "ncalls (finish_call i ca c) = ncalls c" "seqptr (finish_call i ca c) = seqptr c"
  "chan_cap (finish_call i ca c) = chan_cap c" "nchans (finish_call i ca c) = nchans c"
  "returned (finish_call i ca c) = returned c"
  "completions (finish_call i ca c) = (completions c)(i := completions c i + 1)"
  "assigned (finish_call i ca c) = assigned c"
  by (simp_all add: finish_call_def call_done_def upd_call_def Let_def)

lemma finish_call_buf:
  "chan_buf c ch \<noteq> [] \<Longrightarrow> chan_buf (finish_call i ca c) ch \<noteq> []"
  "0 < chan_cap c (Done ca) \<Longrightarrow> chan_buf (finish_call i ca c) (Done ca) \<noteq> []"
  by (auto simp: finish_call_def call_done_def upd_call_def Let_def)

definition complete_all :: "go_error \<Rightarrow> (u64 \<times> cid) list \<Rightarrow> 'v client \<Rightarrow> 'v client" where
  "complete_all e ps c = foldl (\<lambda>c (q, i). complete_with i e c) c ps"

lemma complete_all_simps [simp]: "complete_all e [] c = c"
  "complete_all e ((q, i) # ps) c = complete_all e ps (complete_with i e c)"
  by (simp_all add: complete_all_def)

lemma input_end_all:
  "input_at c = Failing err \<Longrightarrow> input_end c = (Return (), c') \<Longrightarrow>
    \<exists>e. c' = (complete_all e (pending c) (c\<lparr>conn_closed := True, shutdown := True\<rparr>))\<lparr>input_at := Ended\<rparr>"
  by (auto simp: input_end_def complete_all_def Let_def split: outcome.splits)

lemma complete_with_pending: "complete_with i e (c\<lparr>pending := p\<rparr>) = (complete_with i e c)\<lparr>pending := p\<rparr>"
  by (simp add: complete_with_def upd_call_def call_done_def Let_def)

lemma Close_loop:
  "foldl (\<lambda>c (q, i). complete_with i e (c\<lparr>pending := gomap_del q (pending c)\<rparr>)) c ps =
    (complete_all e ps c)\<lparr>pending := [p \<leftarrow> pending c. fst p \<notin> fst ` set ps]\<rparr>"
proof (induction ps arbitrary: c)
  case Nil
  then show ?case by simp
next
  case (Cons p ps)
  obtain q i where p: "p = (q, i)" by fastforce
  have "[x \<leftarrow> gomap_del q (pending c). fst x \<notin> fst ` set ps] = [x \<leftarrow> pending c. fst x \<notin> fst ` set (p # ps)]"
    by (auto simp: p AList.delete_eq intro!: filter_cong)
  moreover have "complete_all e ps (c'\<lparr>pending := m\<rparr>) = (complete_all e ps c')\<lparr>pending := m\<rparr>" for c' :: "'a client" and m
    by (induction ps arbitrary: c') (auto simp: complete_with_pending)
  ultimately show ?case
    using Cons.IH by (simp add: p complete_with_pending)
qed

lemma complete_all_fields [simp]:
  "opt_SerializeType (complete_all e ps c) = opt_SerializeType c" "seq (complete_all e ps c) = seq c"
  "pending (complete_all e ps c) = pending c" "closing (complete_all e ps c) = closing c"
  "shutdown (complete_all e ps c) = shutdown c" "conn_closed (complete_all e ps c) = conn_closed c"
  "sent (complete_all e ps c) = sent c" "input_at (complete_all e ps c) = input_at c"
  "tasks (complete_all e ps c) = tasks c" "ncalls (complete_all e ps c) = ncalls c"
  "seqptr (complete_all e ps c) = seqptr c" "chan_cap (complete_all e ps c) = chan_cap c"
  "nchans (complete_all e ps c) = nchans c" "returned (complete_all e ps c) = returned c"
  "assigned (complete_all e ps c) = assigned c"
  by (induction ps arbitrary: c) (auto simp: complete_with_finish)

lemma complete_all_calls:
  "calls (complete_all e ps c) j =
    (if j \<in> snd ` set ps then (calls c j)\<lparr>Error := Some e\<rparr> else calls c j)"
proof (induction ps arbitrary: c)
  case (Cons p ps)
  then show ?case by (cases p) (auto simp: complete_with_finish)
qed simp

lemma complete_all_completions:
  "completions (complete_all e ps c) j = completions c j + length [p \<leftarrow> ps. snd p = j]"
  by (induction ps arbitrary: c) (auto simp: complete_with_finish)

lemma complete_all_buf: "chan_buf c ch \<noteq> [] \<Longrightarrow> chan_buf (complete_all e ps c) ch \<noteq> []"
proof (induction ps arbitrary: c)
  case (Cons p ps)
  then show ?case by (cases p) (simp add: complete_with_finish finish_call_buf(1))
qed simp

lemma complete_all_buf_own:
  "0 < chan_cap c (Done (calls c i)) \<Longrightarrow> i \<in> snd ` set ps \<Longrightarrow>
    chan_buf (complete_all e ps c) (Done (calls c i)) \<noteq> []"
proof (induction ps arbitrary: c)
  case (Cons p ps)
  obtain q j where p: "p = (q, j)" by fastforce
  show ?case
  proof (cases "i = j")
    case True
    then have "chan_buf (complete_with j e c) (Done (calls c i)) \<noteq> []"
      using Cons.prems(1) finish_call_buf(2) [of c "(calls c j)\<lparr>Error := Some e\<rparr>"] by (simp add: complete_with_finish)
    then show ?thesis using complete_all_buf by (simp add: p)
  next
    case False
    then have "calls (complete_with j e c) i = calls c i" "chan_cap (complete_with j e c) = chan_cap c" "i \<in> snd ` set ps"
      using Cons.prems(2) by (auto simp: p complete_with_finish)
    then show ?thesis
      using Cons.prems(1) Cons.IH [of "complete_with j e c"] by (simp only: p complete_all_simps simp_thms)
  qed
qed simp

lemma Close_eq:
  "Close cres c =
    (let c' = (complete_all ErrShutdown (pending c) c)\<lparr>pending := []\<rparr>
     in if closing c \<or> shutdown c then (Some ErrShutdown, c')
        else (cres, c'\<lparr>closing := True, conn_closed := True\<rparr>))"
proof -
  have "[p \<leftarrow> pending c. fst p \<notin> fst ` set (pending c)] = []"
    by (simp add: filter_empty_conv)
  then show ?thesis
    by (simp add: Close_def Let_def Close_loop)
qed

section \<open>Invariants\<close>

fun unique_task :: "task \<Rightarrow> bool" where
  "unique_task (SendStart i) = True"
| "unique_task (CallWait i) = True"
| "unique_task _ = False"

fun task_seq :: "task \<Rightarrow> (u64 \<times> cid) option" where
  "task_seq (SendStore i q st) = Some (q, i)"
| "task_seq (SendWrite i q st) = Some (q, i)"
| "task_seq _ = None"

definition owns :: "'v client \<Rightarrow> u64 \<Rightarrow> cid \<Rightarrow> bool" where
  "owns c q i \<longleftrightarrow> unat q < length (assigned c) \<and> assigned c ! unat q = i"

definition seq_inv :: "'v client \<Rightarrow> bool" where
  "seq_inv c \<longleftrightarrow>
     distinct (filter unique_task (tasks c)) \<and>
     (\<forall>i. SendStart i \<in> set (tasks c) \<longrightarrow> i < ncalls c \<and> i \<notin> set (assigned c)) \<and>
     (\<forall>i. CallWait i \<in> set (tasks c) \<longrightarrow> i < ncalls c) \<and>
     seq c = word_of_nat (length (assigned c)) \<and>
     distinct (assigned c) \<and> set (assigned c) \<subseteq> {..<ncalls c} \<and>
     gomap_ok (pending c) \<and> (\<forall>q i. (q, i) \<in> set (pending c) \<longrightarrow> owns c q i) \<and>
     (\<forall>t q i. t \<in> set (tasks c) \<longrightarrow> task_seq t = Some (q, i) \<longrightarrow> owns c q i) \<and>
     (\<forall>bs \<in> set (sent c). \<exists>q i st p. owns c q i \<and> bs = Encode ((request_of (calls c i) q st)\<lparr>Payload := p\<rparr>))"

text \<open>The number of sequence numbers handed out only grows, and the invariant holds until it wraps.\<close>

definition no_wrap :: "'v client \<Rightarrow> bool" where
  "no_wrap c \<longleftrightarrow> length (assigned c) \<le> 2 ^ 64"

lemma assigned_grows: "client_step lib c c' \<Longrightarrow> length (assigned c) \<le> length (assigned c')"
  by (induction rule: client_step.induct)
    (auto simp: make_chan_def Go_def Call_begin_def send_lock_def send_store_def send_write_def Let_def
      complete_with_finish Call_receive_def Call_cancel_def Call_cancelled_def input_read_def input_deliver_def
      finish_call_def [symmetric] Close_eq
      split: option.splits prod.splits sum.splits if_splits list.splits dest!: input_end_all)


lemma owns_cong: "assigned c' = assigned c \<Longrightarrow> owns c' = owns c"
  by (simp add: owns_def fun_eq_iff)

lemma owns_less: "seq_inv c \<Longrightarrow> owns c q i \<Longrightarrow> i < ncalls c"
  by (auto simp: owns_def seq_inv_def dest: nth_mem)

definition same_request :: "'v call \<Rightarrow> 'v call \<Rightarrow> bool" where
  "same_request a b \<longleftrightarrow>
     ca_ServicePath a = ca_ServicePath b \<and> ca_ServiceMethod a = ca_ServiceMethod b \<and> ca_Metadata a = ca_Metadata b"

lemma request_of_cong: "same_request a b \<Longrightarrow> request_of a = request_of b"
  by (simp add: same_request_def request_of_def isHeartBeat_def fun_eq_iff)

text \<open>What may change without touching the invariant: all but the tasks, the table and the history.\<close>

lemma seq_inv_transfer:
  assumes "seq_inv c" "tasks c' = tasks c" "pending c' = pending c" "seq c' = seq c" "assigned c' = assigned c"
    "ncalls c' = ncalls c" "sent c' = sent c" "\<And>i. i < ncalls c \<Longrightarrow> same_request (calls c' i) (calls c i)"
  shows "seq_inv c'"
proof -
  have req: "owns c q i \<Longrightarrow> request_of (calls c' i) = request_of (calls c i)" for q i
    using request_of_cong assms(8) owns_less [OF assms(1)] by blast
  have "\<exists>q i st p. owns c q i \<and> bs = Encode ((request_of (calls c' i) q st)\<lparr>Payload := p\<rparr>)" if "bs \<in> set (sent c)" for bs
    using assms(1) that req unfolding seq_inv_def by metis
  then show ?thesis
    using assms(1-7) unfolding seq_inv_def by (simp add: owns_cong [OF assms(5)])
qed

lemma seq_inv_drop: "seq_inv c \<Longrightarrow> seq_inv (drop_task t c)"
  unfolding seq_inv_def owns_def drop_task_simps filter_remove1
  by (intro conjI) (auto dest: notin_set_remove1 set_remove1_subset [THEN subsetD] intro: distinct_remove1)

lemma seq_inv_add:
  assumes "seq_inv c" "\<not> unique_task t" "\<And>q i. task_seq t = Some (q, i) \<Longrightarrow> owns c q i"
  shows "seq_inv (add_task t c)"
  using assms unfolding seq_inv_def owns_def by auto

lemma set_gomap_del: "set (gomap_del k m) = {p \<in> set m. fst p \<noteq> k}"
  by (auto simp: AList.delete_eq)

lemma seq_inv_del: "seq_inv c \<Longrightarrow> seq_inv (c\<lparr>pending := gomap_del q (pending c)\<rparr>)"
  unfolding seq_inv_def owns_def by (auto simp: set_gomap_del)

lemma seq_inv_finish: "seq_inv c \<Longrightarrow> same_request ca (calls c i) \<Longrightarrow> seq_inv (finish_call i ca c)"
  by (erule seq_inv_transfer) (auto simp: same_request_def)

lemma seq_inv_complete_with: "seq_inv c \<Longrightarrow> seq_inv (complete_with i e c)"
  by (simp add: complete_with_finish seq_inv_finish same_request_def)

lemma seq_inv_complete_all: "seq_inv c \<Longrightarrow> seq_inv (complete_all e ps c)"
  by (induction ps arbitrary: c) (auto simp: seq_inv_complete_with)


lemma seq_inv_new_call:
  assumes "seq_inv c"
  shows "seq_inv (add_task (SendStart (ncalls c))
    (c\<lparr>ncalls := ncalls c + 1, calls := (calls c)(ncalls c := ca), seqptr := sp, completions := n\<rparr>))"
proof -
  note lt = owns_less [OF assms]
  have sent: "\<exists>q i st p. owns c q i \<and> bs = Encode ((request_of (((calls c)(ncalls c := ca)) i) q st)\<lparr>Payload := p\<rparr>)"
    if "bs \<in> set (sent c)" for bs
  proof -
    obtain q i st p where "owns c q i" "bs = Encode ((request_of (calls c i) q st)\<lparr>Payload := p\<rparr>)"
      using assms \<open>bs \<in> set (sent c)\<close> unfolding seq_inv_def by blast
    then show ?thesis using lt by (metis fun_upd_other less_irrefl)
  qed
  have "\<not> SendStart (ncalls c) \<in> set (tasks c)" "ncalls c \<notin> set (assigned c)"
    using assms by (auto simp: seq_inv_def)
  then show ?thesis
    using assms sent unfolding seq_inv_def owns_def by (auto simp: less_Suc_eq)
qed

lemma seq_inv_wait: "seq_inv c \<Longrightarrow> i < ncalls c \<Longrightarrow> CallWait i \<notin> set (tasks c) \<Longrightarrow> seq_inv (add_task (CallWait i) c)"
  unfolding seq_inv_def owns_def by auto

text \<open>The state in which a new call has been entered in the table and its \<^verbatim>\<open>send\<close> goroutine exists.\<close>

definition spawn_call :: "u64 option \<Rightarrow> 'v call \<Rightarrow> 'v client \<Rightarrow> 'v client" where
  "spawn_call ptr ca c =
     add_task (SendStart (ncalls c))
       (c\<lparr>ncalls := ncalls c + 1, calls := (calls c)(ncalls c := ca), seqptr := (seqptr c)(ncalls c := ptr),
          completions := (completions c)(ncalls c := 0)\<rparr>)"

lemma Go_cases:
  assumes "Go ptr meta sp sm args reply done c = (Return i, c')"
  obtains (New) "done = None" "i = ncalls c"
      "c' = spawn_call ptr (new_call meta sp sm args reply (nchans c)) (snd (make_chan 10 c))"
    | (Given) ch where "done = Some ch" "0 < chan_cap c ch" "i = ncalls c"
      "c' = spawn_call ptr (new_call meta sp sm args reply ch) c"
  using assms
  by (cases "done") (auto simp: Go_def make_chan_def Let_def spawn_call_def split: if_splits)

lemma Call_begin_eq:
  "Call_begin meta sp sm args reply c =
    add_task (CallWait (ncalls c))
      (spawn_call (Some 0) (new_call meta sp sm args reply (nchans c)) (snd (make_chan 1 c)))"
  by (simp add: Call_begin_def Go_def make_chan_def Let_def spawn_call_def)

lemma make_chan_simps [simp]:
  "opt_SerializeType (snd (make_chan k c)) = opt_SerializeType c" "seq (snd (make_chan k c)) = seq c"
  "pending (snd (make_chan k c)) = pending c" "closing (snd (make_chan k c)) = closing c"
  "shutdown (snd (make_chan k c)) = shutdown c" "conn_closed (snd (make_chan k c)) = conn_closed c"
  "sent (snd (make_chan k c)) = sent c" "input_at (snd (make_chan k c)) = input_at c"
  "tasks (snd (make_chan k c)) = tasks c" "calls (snd (make_chan k c)) = calls c"
  "ncalls (snd (make_chan k c)) = ncalls c" "seqptr (snd (make_chan k c)) = seqptr c"
  "chan_cap (snd (make_chan k c)) = (chan_cap c)(nchans c := k)"
  "chan_buf (snd (make_chan k c)) = (chan_buf c)(nchans c := [])"
  "nchans (snd (make_chan k c)) = nchans c + 1" "returned (snd (make_chan k c)) = returned c"
  "completions (snd (make_chan k c)) = completions c" "assigned (snd (make_chan k c)) = assigned c"
  by (simp_all add: make_chan_def)

lemma spawn_call_simps [simp]:
  "opt_SerializeType (spawn_call ptr ca c) = opt_SerializeType c" "seq (spawn_call ptr ca c) = seq c"
  "pending (spawn_call ptr ca c) = pending c" "closing (spawn_call ptr ca c) = closing c"
  "shutdown (spawn_call ptr ca c) = shutdown c" "conn_closed (spawn_call ptr ca c) = conn_closed c"
  "sent (spawn_call ptr ca c) = sent c" "input_at (spawn_call ptr ca c) = input_at c"
  "tasks (spawn_call ptr ca c) = tasks c @ [SendStart (ncalls c)]"
  "calls (spawn_call ptr ca c) = (calls c)(ncalls c := ca)" "ncalls (spawn_call ptr ca c) = ncalls c + 1"
  "seqptr (spawn_call ptr ca c) = (seqptr c)(ncalls c := ptr)" "chan_cap (spawn_call ptr ca c) = chan_cap c"
  "chan_buf (spawn_call ptr ca c) = chan_buf c" "nchans (spawn_call ptr ca c) = nchans c"
  "returned (spawn_call ptr ca c) = returned c"
  "completions (spawn_call ptr ca c) = (completions c)(ncalls c := 0)"
  "assigned (spawn_call ptr ca c) = assigned c"
  by (simp_all add: spawn_call_def)

lemma seq_inv_make_chan: "seq_inv c \<Longrightarrow> seq_inv (snd (make_chan k c))"
  by (erule seq_inv_transfer) (simp_all add: same_request_def)

lemma seq_inv_spawn: "seq_inv c \<Longrightarrow> seq_inv (spawn_call ptr ca c)"
  unfolding spawn_call_def by (rule seq_inv_new_call)

lemma seq_inv_Call_begin:
  assumes "seq_inv c"
  shows "seq_inv (Call_begin meta sp sm args reply c)"
proof -
  have "CallWait (ncalls c) \<notin> set (tasks c)"
    using assms by (auto simp: seq_inv_def)
  then show ?thesis
    unfolding Call_begin_eq by (intro seq_inv_wait seq_inv_spawn seq_inv_make_chan assms) simp_all
qed

lemma seq_inv_send_lock:
  assumes inv: "seq_inv c" and start: "SendStart i \<in> set (tasks c)"
    and wrap: "no_wrap (send_lock i (drop_task (SendStart i) c))"
  shows "seq_inv (send_lock i (drop_task (SendStart i) c))"
proof -
  let ?d = "drop_task (SendStart i) c"
  have d: "seq_inv ?d" using inv by (rule seq_inv_drop)
  have i: "i < ncalls c" "i \<notin> set (assigned c)" using inv start by (auto simp: seq_inv_def)
  have gone: "SendStart i \<notin> set (tasks ?d)"
  proof -
    have "distinct (filter unique_task (tasks c))" using inv by (simp add: seq_inv_def)
    then have "SendStart i \<notin> set (remove1 (SendStart i) (filter unique_task (tasks c)))" by simp
    then show ?thesis by (simp flip: filter_remove1)
  qed
  let ?st = "if isHeartBeat (calls c i) then JSON else opt_SerializeType c"
  show ?thesis
  proof (cases "shutdown c \<or> closing c \<or> Codecs ?st = None")
    case True
    then show ?thesis using d by (auto simp: send_lock_def Let_def seq_inv_complete_with)
  next
    case False
    then have eq: "send_lock i ?d = add_task (SendStore i (seq c) ?st)
        (?d\<lparr>seq := seq c + 1, pending := gomap_set (seq c) i (pending c), assigned := assigned c @ [i]\<rparr>)"
      by (auto simp: send_lock_def Let_def)
    then have len: "length (assigned c) < 2 ^ 64"
      using wrap by (simp add: no_wrap_def)
    then have q: "unat (seq c) = length (assigned c)"
      using inv by (simp add: seq_inv_def unat_of_nat)
    have nth: "(assigned c @ [i]) ! n = j" if "n < length (assigned c)" "assigned c ! n = j" for n j
      using that by (simp add: nth_append)
    have new: "(seq c) \<notin> fst ` set (pending c)"
      using inv q by (force simp: seq_inv_def owns_def)
    have grow: "owns c p k \<Longrightarrow> owns (c\<lparr>assigned := assigned c @ [i]\<rparr>) p k" for p k
      by (auto simp: owns_def nth_append)
    have fresh: "owns (c\<lparr>assigned := assigned c @ [i]\<rparr>) (seq c) i"
      by (simp add: owns_def q)
    let ?e = "?d\<lparr>seq := seq c + 1, pending := pending c @ [(seq c, i)], assigned := assigned c @ [i]\<rparr>"
    have o: "owns ?e = owns (c\<lparr>assigned := assigned c @ [i]\<rparr>)" "owns ?d = owns c"
      by (rule owns_cong; simp)+
    have "seq_inv ?e"
      unfolding seq_inv_def o
    proof (intro conjI)
      show "gomap_ok (pending ?e)"
        using inv new by (simp add: seq_inv_def gomap_ok_def)
      show "\<forall>bs\<in>set (sent ?e). \<exists>q k st p. owns (c\<lparr>assigned := assigned c @ [i]\<rparr>) q k \<and>
          bs = Encode ((request_of (calls ?e k) q st)\<lparr>Payload := p\<rparr>)"
      proof
        fix bs assume "bs \<in> set (sent ?e)"
        then obtain q k st p where "owns c q k" "bs = Encode ((request_of (calls c k) q st)\<lparr>Payload := p\<rparr>)"
          using inv by (auto simp: seq_inv_def)
        then show "\<exists>q k st p. owns (c\<lparr>assigned := assigned c @ [i]\<rparr>) q k \<and>
            bs = Encode ((request_of (calls ?e k) q st)\<lparr>Payload := p\<rparr>)"
          using grow by auto
      qed
      show "\<forall>q k. (q, k) \<in> set (pending ?e) \<longrightarrow> owns (c\<lparr>assigned := assigned c @ [i]\<rparr>) q k"
        using inv grow fresh by (auto simp: seq_inv_def)
      show "\<forall>t q k. t \<in> set (tasks ?e) \<longrightarrow> task_seq t = Some (q, k) \<longrightarrow> owns (c\<lparr>assigned := assigned c @ [i]\<rparr>) q k"
      proof (intro allI impI)
        fix t q k
        assume "t \<in> set (tasks ?e)" "task_seq t = Some (q, k)"
        then have "owns ?d q k" using d unfolding seq_inv_def by simp
        then show "owns (c\<lparr>assigned := assigned c @ [i]\<rparr>) q k" by (simp add: o(2) grow)
      qed
      show "\<forall>k. SendStart k \<in> set (tasks ?e) \<longrightarrow> k < ncalls ?e \<and> k \<notin> set (assigned ?e)"
        using d gone by (auto simp: seq_inv_def)
      show "set (assigned ?e) \<subseteq> {..<ncalls ?e}" "distinct (assigned ?e)"
        using d i by (auto simp: seq_inv_def)
      show "seq ?e = word_of_nat (length (assigned ?e))" "distinct (filter unique_task (tasks ?e))"
        "\<forall>k. CallWait k \<in> set (tasks ?e) \<longrightarrow> k < ncalls ?e"
        using d by (simp_all add: seq_inv_def)
    qed
    then have "seq_inv (add_task (SendStore i (seq c) ?st) ?e)"
      by (rule seq_inv_add) (simp_all add: o fresh)
    then show ?thesis
      by (simp only: eq gomap_set_fresh [OF new])
  qed
qed


lemma seq_inv_send_store:
  assumes inv: "seq_inv c" and own: "owns c q i"
  shows "seq_inv (send_store i q st c)"
proof -
  let ?e = "case seqptr c i of None \<Rightarrow> c | Some _ \<Rightarrow> c\<lparr>seqptr := (seqptr c)(i := Some q)\<rparr>"
  have "seq_inv ?e"
    using inv by (rule seq_inv_transfer) (simp_all add: same_request_def split: option.split)
  moreover have "owns ?e = owns c" by (rule owns_cong) (simp split: option.split)
  ultimately show ?thesis
    using own unfolding send_store_def by (intro seq_inv_add) simp_all
qed

lemma seq_inv_send_write:
  assumes inv: "seq_inv c" and own: "owns c q i"
  shows "seq_inv (send_write lib wres i q st c)"
proof -
  have give_up: "seq_inv (add_task (Finish i e) (c\<lparr>pending := gomap_del q (pending c)\<rparr>))" for e
    using inv by (intro seq_inv_add seq_inv_del) simp_all
  have wr: "seq_inv (c\<lparr>sent := sent c @ [Encode ((request_of (calls c i) q st)\<lparr>Payload := p\<rparr>)]\<rparr>)" for p
  proof -
    have o: "owns (c\<lparr>sent := x\<rparr>) = owns c" for x by (rule owns_cong) simp
    show ?thesis
      using inv own unfolding seq_inv_def o by simp blast
  qed
  show ?thesis
    using inv give_up wr by (simp add: send_write_def Let_def split: option.split sum.split)
qed

lemma apply_response_same:
  "same_request (fst (apply_response lib msg ca)) ca" "Done (fst (apply_response lib msg ca)) = Done ca"
  by (auto simp: apply_response_def same_request_def Let_def split: option.splits prod.splits)

lemma input_deliver_eq:
  "input_at c = Delivering i msg \<Longrightarrow>
    input_deliver lib c =
      (finish_call i (fst (apply_response lib msg (calls c i))) c)
        \<lparr>input_at := (case snd (apply_response lib msg (calls c i)) of None \<Rightarrow> Reading | Some e \<Rightarrow> Failing e)\<rparr>"
  by (simp add: input_deliver_def finish_call_def Let_def split: prod.split)

lemma seq_inv_input_deliver:
  assumes "seq_inv c"
  shows "seq_inv (input_deliver lib c)"
proof (cases "input_at c")
  case (Delivering i msg)
  from assms have "seq_inv (finish_call i (fst (apply_response lib msg (calls c i))) c)"
    by (rule seq_inv_finish) (rule apply_response_same)
  then show ?thesis
    by (rule seq_inv_transfer) (simp_all add: input_deliver_eq [OF Delivering] same_request_def)
qed (simp_all add: input_deliver_def assms)

lemma input_read_cases:
  obtains (Fails) err where "snd (input_read lim r c) = c\<lparr>input_at := Failing err\<rparr>"
  | (Unknown) q where "snd (input_read lim r c) = c\<lparr>pending := gomap_del q (pending c)\<rparr>" "map_of (pending c) q = None"
  | (Takes) i msg where
      "snd (input_read lim r c) = c\<lparr>pending := gomap_del (Seq (Header msg)) (pending c), input_at := Delivering i msg\<rparr>"
      "map_of (pending c) (Seq (Header msg)) = Some i"
proof (cases "Decode lim NewMessage r")
  case d: (fields err msg r')
  show thesis
  proof (cases err)
    case None
    show thesis
    proof (cases "map_of (pending c) (Seq (Header msg))")
      case free: None
      show thesis by (rule Unknown [of "Seq (Header msg)"]) (simp_all add: input_read_def d None free Let_def)
    next
      case (Some i)
      show thesis by (rule Takes [of i msg]) (simp_all add: input_read_def d None Some Let_def)
    qed
  next
    case (Some e)
    show thesis by (rule Fails [of e]) (simp add: input_read_def d Some)
  qed
qed

lemma seq_inv_input_read:
  assumes "seq_inv c"
  shows "seq_inv (snd (input_read lim r c))"
proof (cases lim r c rule: input_read_cases)
  case (Fails err)
  show ?thesis unfolding Fails using assms by (rule seq_inv_transfer) (simp_all add: same_request_def)
next
  case (Unknown q)
  then show ?thesis using seq_inv_del [OF assms] by simp
next
  case (Takes i msg)
  show ?thesis
    unfolding Takes by (rule seq_inv_transfer [OF seq_inv_del [OF assms]]) (simp_all add: same_request_def)
qed

lemma seq_inv_empty: "seq_inv c \<Longrightarrow> seq_inv (c\<lparr>pending := []\<rparr>)"
  unfolding seq_inv_def owns_def by auto

lemma seq_inv_input_end:
  assumes inv: "seq_inv c" and "input_at c = Failing err" "input_end c = (Return (), c')"
  shows "seq_inv c'"
proof -
  obtain e where c': "c' = (complete_all e (pending c) (c\<lparr>conn_closed := True, shutdown := True\<rparr>))\<lparr>input_at := Ended\<rparr>"
    using input_end_all [OF assms(2,3)] by blast
  have "seq_inv (c\<lparr>conn_closed := True, shutdown := True\<rparr>)"
    using inv by (rule seq_inv_transfer) (simp_all add: same_request_def)
  then have "seq_inv (complete_all e (pending c) (c\<lparr>conn_closed := True, shutdown := True\<rparr>))"
    by (rule seq_inv_complete_all)
  then show ?thesis
    unfolding c' by (rule seq_inv_transfer) (simp_all add: same_request_def)
qed

lemma seq_inv_Close:
  assumes "seq_inv c"
  shows "seq_inv (snd (Close cres c))"
proof -
  from assms have e: "seq_inv ((complete_all ErrShutdown (pending c) c)\<lparr>pending := []\<rparr>)"
    by (intro seq_inv_empty seq_inv_complete_all)
  show ?thesis
    by (rule seq_inv_transfer [OF e]) (simp_all add: Close_eq Let_def same_request_def)
qed

lemma seq_inv_step:
  assumes "seq_inv c" "client_step lib c c'" "no_wrap c'"
  shows "seq_inv c'"
  using assms(2)
proof (cases rule: client_step.cases)
  case (StartGo dn meta sp sm args reply i)
  then show ?thesis
    using assms(1) by (auto elim!: Go_cases intro: seq_inv_spawn seq_inv_make_chan)
next
  case (Send i)
  then show ?thesis using seq_inv_send_lock [OF assms(1)] assms(3) by simp
next
  case (Store i q st)
  then have "owns c q i" using assms(1) by (auto simp: seq_inv_def)
  then show ?thesis
    using Store seq_inv_send_store [OF seq_inv_drop [OF assms(1)]] by (simp add: owns_cong [of "drop_task _ c" c])
next
  case (Write i q st wres)
  then have "owns c q i" using assms(1) by (auto simp: seq_inv_def)
  then show ?thesis
    using Write seq_inv_send_write [OF seq_inv_drop [OF assms(1)]] by (simp add: owns_cong [of "drop_task _ c" c])
next
  case (Receive i)
  have "seq_inv (drop_task (CallWait i) c)" using assms(1) by (rule seq_inv_drop)
  then show ?thesis
    unfolding Receive by (rule seq_inv_transfer) (simp_all add: Call_receive_def same_request_def split: list.split)
next
  case (Cancel i e)
  show ?thesis
    unfolding Cancel Call_cancel_def Let_def
    by (intro seq_inv_add seq_inv_del seq_inv_drop assms(1)) simp_all
next
  case (Cancelled i call e)
  let ?d = "drop_task (CallCancelled i call e) c"
  have "seq_inv (case call of None \<Rightarrow> ?d | Some j \<Rightarrow> complete_with j e ?d)"
    using assms(1) by (auto intro: seq_inv_drop seq_inv_complete_with split: option.split)
  then show ?thesis
    unfolding Cancelled
    by (rule seq_inv_transfer) (simp_all add: Call_cancelled_def same_request_def Let_def split: option.split)
next
  case (UserReceive ch)
  show ?thesis
    unfolding UserReceive using assms(1) by (rule seq_inv_transfer) (simp_all add: same_request_def)
qed (auto intro: seq_inv_make_chan seq_inv_Call_begin seq_inv_send_lock seq_inv_drop seq_inv_complete_with
    seq_inv_input_read seq_inv_input_deliver seq_inv_input_end seq_inv_Close assms)

lemma seq_inv_init: "seq_inv (NewClient st c0)"
  by (simp add: seq_inv_def NewClient_def owns_def)

lemma assigned_mono: "client_run lib c c' \<Longrightarrow> length (assigned c) \<le> length (assigned c')"
  by (induction rule: client_run.induct) (auto dest: assigned_grows)

lemma seq_inv_run: "client_run lib c c' \<Longrightarrow> seq_inv c \<Longrightarrow> no_wrap c' \<Longrightarrow> seq_inv c'"
proof (induction rule: client_run.induct)
  case (Step c c1 c2)
  then have "no_wrap c1" using assigned_grows [of lib c1 c2] by (simp add: no_wrap_def)
  then show ?case using Step by (blast intro: seq_inv_step)
qed


section \<open>Every waiting call can be woken\<close>

definition chan_inv :: "'v client \<Rightarrow> bool" where
  "chan_inv c \<longleftrightarrow>
     (\<forall>i < ncalls c. Done (calls c i) < nchans c) \<and>
     (\<forall>i < ncalls c. seqptr c i \<noteq> None \<longrightarrow> 0 < chan_cap c (Done (calls c i)) \<and>
        (\<forall>j < ncalls c. Done (calls c j) = Done (calls c i) \<longrightarrow> j = i)) \<and>
     (\<forall>i. CallWait i \<in> set (tasks c) \<longrightarrow> i < ncalls c \<and> seqptr c i \<noteq> None \<and>
        (0 < completions c i \<longrightarrow> chan_buf c (Done (calls c i)) \<noteq> []))"

lemma chan_inv_transfer:
  assumes "chan_inv c" "ncalls c' = ncalls c" "\<And>i. i < ncalls c \<Longrightarrow> Done (calls c' i) = Done (calls c i)"
    "chan_cap c' = chan_cap c" "nchans c' = nchans c"
    "\<And>i. i < ncalls c \<Longrightarrow> seqptr c' i = None \<longleftrightarrow> seqptr c i = None"
    "\<And>i. CallWait i \<in> set (tasks c') \<Longrightarrow> CallWait i \<in> set (tasks c)"
    "\<And>i. CallWait i \<in> set (tasks c') \<Longrightarrow> i < ncalls c \<Longrightarrow> 0 < completions c' i \<Longrightarrow>
      (0 < completions c i \<Longrightarrow> chan_buf c (Done (calls c i)) \<noteq> []) \<Longrightarrow> chan_buf c' (Done (calls c i)) \<noteq> []"
  shows "chan_inv c'"
  using assms unfolding chan_inv_def by auto

lemma chan_inv_drop: "chan_inv c \<Longrightarrow> chan_inv (drop_task t c)"
  by (erule chan_inv_transfer) (auto dest: notin_set_remove1 set_remove1_subset [THEN subsetD])

lemma chan_inv_add: "chan_inv c \<Longrightarrow> (\<And>i. t \<noteq> CallWait i) \<Longrightarrow> chan_inv (add_task t c)"
  by (erule chan_inv_transfer) auto

lemma chan_inv_finish:
  assumes inv: "chan_inv c" and "Done ca = Done (calls c j)" and "\<And>i. i < ncalls c \<Longrightarrow> CallWait i \<in> set (tasks c) \<Longrightarrow> True"
  shows "chan_inv (finish_call j ca c)"
proof (rule chan_inv_transfer [OF inv])
  fix i
  assume w: "CallWait i \<in> set (tasks (finish_call j ca c))" "i < ncalls c" "0 < completions (finish_call j ca c) i"
    and buf: "0 < completions c i \<Longrightarrow> chan_buf c (Done (calls c i)) \<noteq> []"
  show "chan_buf (finish_call j ca c) (Done (calls c i)) \<noteq> []"
  proof (cases "i = j")
    case True
    have "0 < chan_cap c (Done ca)"
      using inv w True assms(2) by (auto simp: chan_inv_def)
    then show ?thesis using finish_call_buf(2) [of c ca j] True assms(2) by simp
  next
    case False
    then show ?thesis using w(3) buf finish_call_buf(1) by simp
  qed
qed (use assms(2) in auto)

lemma chan_inv_complete_with: "chan_inv c \<Longrightarrow> chan_inv (complete_with i e c)"
  by (simp add: complete_with_finish chan_inv_finish)

lemma chan_inv_complete_all: "chan_inv c \<Longrightarrow> chan_inv (complete_all e ps c)"
  by (induction ps arbitrary: c) (auto simp: chan_inv_complete_with)

lemma chan_inv_make_chan: "chan_inv c \<Longrightarrow> chan_inv (snd (make_chan k c))"
  unfolding chan_inv_def by auto

text \<open>A new call on a channel that no \<^verbatim>\<open>Call\<close> owns, or on one that no call uses.\<close>

lemma chan_inv_spawn:
  assumes inv: "chan_inv c" "Done ca < nchans c"
    and free: "\<forall>i < ncalls c. seqptr c i \<noteq> None \<longrightarrow> Done (calls c i) \<noteq> Done ca"
    and own: "ptr \<noteq> None \<longrightarrow> 0 < chan_cap c (Done ca) \<and> (\<forall>i < ncalls c. Done (calls c i) \<noteq> Done ca)"
  shows "chan_inv (spawn_call ptr ca c)"
  unfolding chan_inv_def
proof (intro conjI allI impI)
  fix i
  assume "i < ncalls (spawn_call ptr ca c)"
  then show "Done (calls (spawn_call ptr ca c) i) < nchans (spawn_call ptr ca c)"
    using inv by (auto simp: chan_inv_def less_Suc_eq)
next
  fix i
  assume i: "i < ncalls (spawn_call ptr ca c)" "seqptr (spawn_call ptr ca c) i \<noteq> None"
  then show "0 < chan_cap (spawn_call ptr ca c) (Done (calls (spawn_call ptr ca c) i))"
    using inv own by (auto simp: chan_inv_def less_Suc_eq split: if_splits)
  fix j
  assume "j < ncalls (spawn_call ptr ca c)"
    "Done (calls (spawn_call ptr ca c) j) = Done (calls (spawn_call ptr ca c) i)"
  then show "j = i"
    using i inv(1) free own unfolding chan_inv_def
    by (cases "i = ncalls c"; cases "j = ncalls c") (simp_all add: less_Suc_eq, metis+)
qed (use inv in \<open>auto simp: chan_inv_def split: if_splits\<close>)

lemma chan_inv_spawn_fresh:
  assumes inv: "chan_inv c" and k: "0 < k" and ca: "Done ca = nchans c"
  shows "chan_inv (spawn_call ptr ca (snd (make_chan k c)))"
proof (rule chan_inv_spawn [OF chan_inv_make_chan [OF inv]])
  have "Done (calls c i) \<noteq> nchans c" if "i < ncalls c" for i
    using inv that by (auto simp: chan_inv_def)
  then show "\<forall>i < ncalls (snd (make_chan k c)). seqptr (snd (make_chan k c)) i \<noteq> None \<longrightarrow>
      Done (calls (snd (make_chan k c)) i) \<noteq> Done ca"
    and "ptr \<noteq> None \<longrightarrow> 0 < chan_cap (snd (make_chan k c)) (Done ca) \<and>
      (\<forall>i < ncalls (snd (make_chan k c)). Done (calls (snd (make_chan k c)) i) \<noteq> Done ca)"
    using k by (simp_all add: ca)
qed (simp add: ca)

lemma chan_inv_Call_begin:
  assumes "chan_inv c"
  shows "chan_inv (Call_begin meta sp sm args reply c)"
proof -
  let ?s = "spawn_call (Some 0) (new_call meta sp sm args reply (nchans c)) (snd (make_chan 1 c))"
  have "chan_inv ?s"
    using assms by (intro chan_inv_spawn_fresh) (simp_all add: new_call_def)
  moreover have "ncalls c < ncalls ?s" "seqptr ?s (ncalls c) \<noteq> None" "completions ?s (ncalls c) = 0"
    by simp_all
  ultimately show ?thesis
    unfolding Call_begin_eq chan_inv_def by (auto simp del: spawn_call_simps make_chan_simps)
qed

lemma chan_inv_send_lock: "chan_inv c \<Longrightarrow> chan_inv (send_lock i c)"
proof -
  assume inv: "chan_inv c"
  have "chan_inv (add_task (SendStore i q st) (c\<lparr>seq := s, pending := p, assigned := a\<rparr>))" for q st s p a
    by (rule chan_inv_add [OF chan_inv_transfer [OF inv]]) simp_all
  then show ?thesis
    using chan_inv_complete_with [OF inv] by (auto simp: send_lock_def Let_def split: option.split)
qed

lemma chan_inv_send_write: "chan_inv c \<Longrightarrow> chan_inv (send_write lib wres i q st c)"
proof -
  assume inv: "chan_inv c"
  have "chan_inv (add_task (Finish i e) (c\<lparr>pending := p\<rparr>))" for e p
    by (rule chan_inv_add [OF chan_inv_transfer [OF inv]]) simp_all
  moreover have "chan_inv (c\<lparr>sent := x\<rparr>)" for x
    by (rule chan_inv_transfer [OF inv]) simp_all
  ultimately show ?thesis
    using inv by (simp add: send_write_def Let_def split: option.split sum.split)
qed

lemma chan_inv_input_deliver: "chan_inv c \<Longrightarrow> chan_inv (input_deliver lib c)"
proof (cases "input_at c")
  case (Delivering i msg)
  assume inv: "chan_inv c"
  show ?thesis
    unfolding input_deliver_eq [OF Delivering]
    by (rule chan_inv_transfer [OF chan_inv_finish [OF inv]]) (auto simp: apply_response_same split: if_splits)
qed (simp_all add: input_deliver_def)

lemma chan_inv_Cancelled: "chan_inv c \<Longrightarrow> chan_inv (Call_cancelled i call e c)"
proof -
  assume "chan_inv c"
  then have "chan_inv (case call of None \<Rightarrow> c | Some j \<Rightarrow> complete_with j e c)"
    by (simp add: chan_inv_complete_with split: option.split)
  then show ?thesis
    by (rule chan_inv_transfer) (simp_all add: Call_cancelled_def Let_def split: option.split)
qed

lemma wait_once:
  assumes "seq_inv c"
  shows "CallWait i \<notin> set (remove1 (CallWait i) (tasks c))"
proof -
  have "distinct (filter unique_task (tasks c))" using assms by (simp add: seq_inv_def)
  then have "CallWait i \<notin> set (remove1 (CallWait i) (filter unique_task (tasks c)))" by simp
  then show ?thesis by (simp flip: filter_remove1)
qed

lemma chan_inv_receive:
  assumes inv: "chan_inv c" and seqs: "seq_inv c" and w: "CallWait i \<in> set (tasks c)"
  shows "chan_inv (Call_receive i (drop_task (CallWait i) c))"
proof (rule chan_inv_transfer [OF inv])
  fix j
  let ?d = "Call_receive i (drop_task (CallWait i) c)"
  assume j: "CallWait j \<in> set (tasks ?d)" "j < ncalls c" "0 < completions ?d j"
    and buf: "0 < completions c j \<Longrightarrow> chan_buf c (Done (calls c j)) \<noteq> []"
  have wj: "CallWait j \<in> set (remove1 (CallWait i) (tasks c))"
    using j(1) by (simp add: Call_receive_def split: list.splits)
  then have "j \<noteq> i" using wait_once [OF seqs, of i] by auto
  then have "Done (calls c j) \<noteq> Done (calls c i)"
    using inv w j(2) unfolding chan_inv_def by metis
  then show "chan_buf ?d (Done (calls c j)) \<noteq> []"
    using buf j(3) by (simp add: Call_receive_def split: list.splits)
qed (auto simp: Call_receive_def split: list.splits dest: set_remove1_subset [THEN subsetD])

lemma chan_inv_input_end:
  assumes inv: "chan_inv c" and "input_at c = Failing err" "input_end c = (Return (), c')"
  shows "chan_inv c'"
proof -
  obtain e where c': "c' = (complete_all e (pending c) (c\<lparr>conn_closed := True, shutdown := True\<rparr>))\<lparr>input_at := Ended\<rparr>"
    using input_end_all [OF assms(2,3)] by blast
  have "chan_inv (c\<lparr>conn_closed := True, shutdown := True\<rparr>)"
    using inv by (rule chan_inv_transfer) simp_all
  then have "chan_inv (complete_all e (pending c) (c\<lparr>conn_closed := True, shutdown := True\<rparr>))"
    by (rule chan_inv_complete_all)
  then show ?thesis
    unfolding c' by (rule chan_inv_transfer) simp_all
qed

lemma chan_inv_Close: "chan_inv c \<Longrightarrow> chan_inv (snd (Close cres c))"
  by (rule chan_inv_transfer [OF chan_inv_complete_all [of c ErrShutdown "pending c"]])
    (auto simp: Close_eq Let_def split: if_splits)

lemma chan_inv_step:
  assumes inv: "chan_inv c" and step: "client_step lib c c'" and seqs: "seq_inv c"
  shows "chan_inv c'"
  using step
proof (cases rule: client_step.cases)
  case (StartGo dn meta sp sm args reply i)
  from StartGo(2) show ?thesis
  proof (cases rule: Go_cases)
    case New
    show ?thesis unfolding New by (rule chan_inv_spawn_fresh [OF inv]) (simp_all add: new_call_def)
  next
    case (Given ch)
    show ?thesis
      unfolding Given(4) by (rule chan_inv_spawn [OF inv]) (use StartGo(1) Given(1) in \<open>simp_all add: new_call_def\<close>)
  qed
next
  case (Store i q st)
  show ?thesis
    unfolding Store send_store_def
    by (rule chan_inv_add, rule chan_inv_transfer [OF chan_inv_drop [OF inv, of "SendStore i q st"]])
      (simp_all split: option.splits)
next
  case (Cancel i e)
  show ?thesis
    unfolding Cancel Call_cancel_def Let_def
    by (intro chan_inv_add chan_inv_transfer [OF chan_inv_drop [OF inv]]) simp_all
next
  case (UserReceive ch)
  have "Done (calls c i) \<noteq> ch" if "CallWait i \<in> set (tasks c)" for i
    using inv that UserReceive(2) by (auto simp: chan_inv_def)
  then show ?thesis
    unfolding UserReceive using inv by (intro chan_inv_transfer [OF inv]) simp_all
next
  case (InputRead lim r)
  show ?thesis
    unfolding InputRead
    by (cases lim r c rule: input_read_cases) (auto intro: chan_inv_transfer [OF inv])
qed (auto intro: chan_inv_make_chan chan_inv_Call_begin chan_inv_send_lock chan_inv_drop chan_inv_send_write
    chan_inv_complete_with chan_inv_receive chan_inv_Cancelled chan_inv_input_deliver chan_inv_input_end
    chan_inv_Close inv seqs)

lemma chan_inv_init: "chan_inv (NewClient st c0)"
  by (simp add: chan_inv_def NewClient_def)


section \<open>No call is forgotten\<close>

text \<open>A goroutine has taken the call out of the table and will complete it.\<close>

definition completing :: "'v client \<Rightarrow> cid \<Rightarrow> bool" where
  "completing c i \<longleftrightarrow>
     (\<exists>e. Finish i e \<in> set (tasks c)) \<or> (\<exists>k e. CallCancelled k (Some i) e \<in> set (tasks c)) \<or>
     (\<exists>m. input_at c = Delivering i m)"

definition alive :: "'v client \<Rightarrow> cid \<Rightarrow> bool" where
  "alive c i \<longleftrightarrow>
     SendStart i \<in> set (tasks c) \<or> i \<in> snd ` set (pending c) \<or> completing c i \<or> 0 < completions c i"

definition live_inv :: "'v client \<Rightarrow> bool" where
  "live_inv c \<longleftrightarrow>
     (closing c \<longrightarrow> pending c = []) \<and>
     (shutdown c \<longrightarrow> input_at c = Ended \<and> (\<forall>i \<in> snd ` set (pending c). 0 < completions c i)) \<and>
     (\<forall>i < ncalls c. alive c i)"

lemmas live_defs = live_inv_def alive_def completing_def

lemma alive_drop:
  assumes "alive c i" "t \<noteq> SendStart i" "\<And>e. t \<noteq> Finish i e" "\<And>k e. t \<noteq> CallCancelled k (Some i) e"
  shows "alive (drop_task t c) i"
proof -
  have "u \<in> set (tasks c) \<Longrightarrow> u \<noteq> t \<Longrightarrow> u \<in> set (remove1 t (tasks c))" for u
    by (simp add: in_set_remove1)
  then show ?thesis
    using assms unfolding alive_def completing_def by (auto simp del: in_set_remove1) blast+
qed

lemma alive_add: "alive c i \<Longrightarrow> alive (add_task t c) i"
  unfolding alive_def completing_def by auto

lemma alive_finish: "alive c i \<or> i = j \<Longrightarrow> alive (finish_call j ca c) i"
  unfolding alive_def completing_def by auto

lemma alive_complete_all: "alive c i \<Longrightarrow> alive (complete_all e ps c) i"
  by (induction ps arbitrary: c) (auto simp: complete_with_finish alive_finish)

lemma alive_del:
  assumes "alive c i" "\<And>j. (q, j) \<in> set (pending c) \<Longrightarrow> j \<noteq> i"
  shows "alive (c\<lparr>pending := gomap_del q (pending c)\<rparr>) i"
proof -
  have "i \<in> snd ` set (gomap_del q (pending c))" if "i \<in> snd ` set (pending c)"
    using that assms(2) by (force simp: set_gomap_del)
  then show ?thesis using assms(1) unfolding alive_def completing_def by auto
qed

lemma alive_transfer:
  "alive c i \<Longrightarrow> tasks c' = tasks c \<Longrightarrow> pending c' = pending c \<Longrightarrow> completions c' = completions c \<Longrightarrow>
    (\<And>m. input_at c = Delivering i m \<Longrightarrow> input_at c' = Delivering i m) \<Longrightarrow> alive c' i"
  unfolding alive_def completing_def by auto

lemma live_invD:
  assumes "live_inv c"
  shows "closing c \<Longrightarrow> pending c = []" "shutdown c \<Longrightarrow> input_at c = Ended"
    "shutdown c \<Longrightarrow> (q, i) \<in> set (pending c) \<Longrightarrow> 0 < completions c i" "i < ncalls c \<Longrightarrow> alive c i"
  using assms unfolding live_inv_def by force+

lemma live_invI:
  assumes "closing c \<Longrightarrow> pending c = []" "shutdown c \<Longrightarrow> input_at c = Ended"
    "\<And>q i. shutdown c \<Longrightarrow> (q, i) \<in> set (pending c) \<Longrightarrow> 0 < completions c i" "\<And>i. i < ncalls c \<Longrightarrow> alive c i"
  shows "live_inv c"
  using assms unfolding live_inv_def by force

lemma pending_unique:
  assumes "seq_inv c" "(q, i) \<in> set (pending c)"
  shows "map_of (pending c) q = Some i" "owns c q i" "i < ncalls c"
proof -
  show "map_of (pending c) q = Some i" "owns c q i"
    using assms gomap_ok_map_of_mem [of "pending c" q i] by (simp_all add: seq_inv_def)
  then show "i < ncalls c" using owns_less [OF assms(1)] by blast
qed

lemma owns_unique: "owns c q i \<Longrightarrow> owns c q j \<Longrightarrow> i = j"
  by (simp add: owns_def)

lemma live_complete_with:
  assumes "live_inv c"
  shows "live_inv (complete_with i e c)"
  unfolding complete_with_finish
  by (rule live_invI) (use live_invD [OF assms] in \<open>auto intro: alive_finish\<close>)

text \<open>The first critical section turns an unsent call into a pending one or completes it.\<close>

lemma live_send_lock:
  assumes live: "live_inv c" and start: "SendStart i \<in> set (tasks c)" and seqs: "seq_inv c"
    and wrap: "no_wrap (send_lock i (drop_task (SendStart i) c))"
  shows "live_inv (send_lock i (drop_task (SendStart i) c))"
proof -
  let ?d = "drop_task (SendStart i) c"
  let ?st = "if isHeartBeat (calls c i) then JSON else opt_SerializeType c"
  have others: "alive ?d j" if "j < ncalls c" "j \<noteq> i" for j
    using live_invD(4) [OF live that(1)] that(2) by (intro alive_drop) auto
  have done_: "live_inv (complete_with i e ?d)" for e
    unfolding complete_with_finish
    by (rule live_invI) (use live_invD(1-3) [OF live] others in \<open>auto intro!: alive_finish\<close>)
  show ?thesis
  proof (cases "shutdown c \<or> closing c \<or> Codecs ?st = None")
    case True
    then show ?thesis using done_ by (auto simp: send_lock_def Let_def)
  next
    case False
    then have eq: "send_lock i ?d = add_task (SendStore i (seq c) ?st)
        (?d\<lparr>seq := seq c + 1, pending := gomap_set (seq c) i (pending c), assigned := assigned c @ [i]\<rparr>)"
      by (auto simp: send_lock_def Let_def)
    then have "length (assigned c) < 2 ^ 64"
      using wrap by (simp add: no_wrap_def)
    then have q: "unat (seq c) = length (assigned c)"
      using seqs by (simp add: seq_inv_def unat_of_nat)
    have new: "seq c \<notin> fst ` set (pending c)"
      using seqs q by (force simp: seq_inv_def owns_def)
    let ?e = "?d\<lparr>seq := seq c + 1, pending := pending c @ [(seq c, i)], assigned := assigned c @ [i]\<rparr>"
    have "alive ?e j" if "j < ncalls c" for j
    proof (cases "j = i")
      case True
      then show ?thesis by (simp add: alive_def)
    next
      case False
      then show ?thesis using others [OF that] unfolding alive_def completing_def by auto
    qed
    then have "live_inv (add_task (SendStore i (seq c) ?st) ?e)"
      by (intro live_invI alive_add) (use False in auto)
    then show ?thesis by (simp only: eq gomap_set_fresh [OF new])
  qed
qed

lemma live_send_write:
  assumes live: "live_inv c" and seqs: "seq_inv c" and t: "SendWrite i q st \<in> set (tasks c)"
  shows "live_inv (send_write lib wres i q st (drop_task (SendWrite i q st) c))"
proof -
  let ?d = "drop_task (SendWrite i q st) c"
  have own: "owns c q i" using seqs t by (auto simp: seq_inv_def)
  have d: "alive ?d j" if "j < ncalls c" for j
    using live_invD(4) [OF live that] by (rule alive_drop) auto
  have "alive (add_task (Finish i e) (?d\<lparr>pending := gomap_del q (pending c)\<rparr>)) j" if "j < ncalls c" for j e
  proof (cases "j = i")
    case True
    then show ?thesis by (auto simp: alive_def completing_def)
  next
    case False
    then have "\<And>k. (q, k) \<in> set (pending ?d) \<Longrightarrow> k \<noteq> j"
      using pending_unique(2) [OF seqs] own by (auto dest: owns_unique)
    then show ?thesis using alive_add alive_del [OF d [OF that]] by fastforce
  qed
  then have "live_inv (add_task (Finish i e) (?d\<lparr>pending := gomap_del q (pending c)\<rparr>))" for e
    by (intro live_invI) (use live_invD(1-3) [OF live] in \<open>auto simp: set_gomap_del\<close>)
  moreover have "live_inv (?d\<lparr>sent := x\<rparr>)" for x
  proof -
    have "alive (?d\<lparr>sent := x\<rparr>) j" if "j < ncalls c" for j
      using d [OF that] by (rule alive_transfer) simp_all
    then show ?thesis by (intro live_invI) (use live_invD(1-3) [OF live] in auto)
  qed
  moreover have "live_inv ?d"
    by (rule live_invI) (use live_invD(1-3) [OF live] d in auto)
  ultimately show ?thesis
    by (simp add: send_write_def Let_def split: option.split sum.split)
qed


lemma live_cancel:
  assumes live: "live_inv c" and seqs: "seq_inv c"
  shows "live_inv (Call_cancel i e (drop_task (CallWait i) c))"
proof -
  let ?d = "drop_task (CallWait i) c"
  define q where "q = (case seqptr c i of None \<Rightarrow> 0 | Some q \<Rightarrow> q)"
  let ?e = "add_task (CallCancelled i (map_of (pending c) q) e) (?d\<lparr>pending := gomap_del q (pending c)\<rparr>)"
  have "alive ?e j" if j: "j < ncalls c" for j
  proof (cases "map_of (pending c) q = Some j")
    case True
    then show ?thesis by (auto simp: alive_def completing_def)
  next
    case False
    then have "\<And>k. (q, k) \<in> set (pending ?d) \<Longrightarrow> k \<noteq> j"
      using pending_unique(1) [OF seqs] by auto
    moreover have "alive ?d j"
      using live_invD(4) [OF live j] by (rule alive_drop) auto
    ultimately show ?thesis using alive_add alive_del by fastforce
  qed
  then have "live_inv ?e"
    by (intro live_invI) (use live_invD(1-3) [OF live] in \<open>auto simp: set_gomap_del\<close>)
  then show ?thesis by (simp add: Call_cancel_def Let_def q_def)
qed

lemma live_cancelled:
  assumes live: "live_inv c"
  shows "live_inv (Call_cancelled i call e (drop_task (CallCancelled i call e) c))"
proof -
  let ?d = "drop_task (CallCancelled i call e) c"
  let ?e = "case call of None \<Rightarrow> ?d | Some j \<Rightarrow> complete_with j e ?d"
  have "alive ?e k" if k: "k < ncalls c" for k
  proof (cases "call = Some k")
    case True
    then show ?thesis by (simp add: complete_with_finish alive_finish)
  next
    case False
    then have "alive ?d k"
      using live_invD(4) [OF live k] by (intro alive_drop) auto
    then show ?thesis by (cases call) (simp_all add: complete_with_finish alive_finish)
  qed
  moreover have "ncalls ?e = ncalls c" "closing ?e = closing c" "shutdown ?e = shutdown c" "pending ?e = pending c"
      "input_at ?e = input_at c" "\<And>k. 0 < completions c k \<Longrightarrow> 0 < completions ?e k"
    by (cases call; simp add: complete_with_finish)+
  ultimately have "live_inv ?e"
    by (intro live_invI) (use live_invD(1-3) [OF live] in \<open>simp_all\<close>)
  then have "live_inv (?e\<lparr>returned := x\<rparr>)" for x
    unfolding live_inv_def alive_def completing_def by simp
  then show ?thesis by (simp add: Call_cancelled_def Let_def)
qed

lemma live_input_read:
  assumes live: "live_inv c" and seqs: "seq_inv c" and "input_at c = Reading"
  shows "live_inv (snd (input_read lim r c))"
proof -
  have up: "\<not> shutdown c" using live_invD(2) [OF live] assms(3) by auto
  note old = live_invD(4) [OF live]
  show ?thesis
  proof (cases lim r c rule: input_read_cases)
    case (Fails err)
    show ?thesis
      unfolding Fails
      by (rule live_invI) (use live_invD(1) [OF live] up old assms(3) in \<open>auto intro!: alive_transfer [OF old]\<close>)
  next
    case (Unknown q)
    have "alive (c\<lparr>pending := gomap_del q (pending c)\<rparr>) j" if "j < ncalls c" for j
      by (rule alive_del [OF old [OF that]]) (use Unknown(2) pending_unique(1) [OF seqs] in auto)
    then show ?thesis
      unfolding Unknown by (intro live_invI) (use live_invD(1) [OF live] up in auto)
  next
    case (Takes i msg)
    let ?q = "Seq (Header msg)"
    have "alive (c\<lparr>pending := gomap_del ?q (pending c), input_at := Delivering i msg\<rparr>) j" if "j < ncalls c" for j
    proof (cases "j = i")
      case True
      then show ?thesis by (simp add: alive_def completing_def)
    next
      case False
      have "alive (c\<lparr>pending := gomap_del ?q (pending c)\<rparr>) j"
        by (rule alive_del [OF old [OF that]]) (use False Takes(2) pending_unique(1) [OF seqs] in auto)
      then show ?thesis by (rule alive_transfer) (use assms(3) in auto)
    qed
    then show ?thesis
      unfolding Takes by (intro live_invI) (use live_invD(1) [OF live] up in auto)
  qed
qed

lemma live_input_deliver:
  assumes live: "live_inv c" and at: "input_at c = Delivering i msg"
  shows "live_inv (input_deliver lib c)"
proof -
  have up: "\<not> shutdown c" using live_invD(2) [OF live] at by auto
  have "alive (input_deliver lib c) j" if "j < ncalls c" for j
    using live_invD(4) [OF live that] at
    by (cases "j = i") (auto simp: input_deliver_eq [OF at] alive_def completing_def)
  then show ?thesis
    by (intro live_invI) (use live_invD(1) [OF live] up in \<open>auto simp: input_deliver_eq [OF at]\<close>)
qed

lemma live_input_end:
  assumes live: "live_inv c" and "input_at c = Failing err" "input_end c = (Return (), c')"
  shows "live_inv c'"
proof -
  obtain e where c': "c' = (complete_all e (pending c) (c\<lparr>conn_closed := True, shutdown := True\<rparr>))\<lparr>input_at := Ended\<rparr>"
    using input_end_all [OF assms(2,3)] by blast
  have "alive c' j" if "j < ncalls c" for j
  proof -
    have "alive (c\<lparr>conn_closed := True, shutdown := True\<rparr>) j"
      using live_invD(4) [OF live that] by (rule alive_transfer) simp_all
    then have "alive (complete_all e (pending c) (c\<lparr>conn_closed := True, shutdown := True\<rparr>)) j"
      by (rule alive_complete_all)
    then show ?thesis unfolding c' by (rule alive_transfer) (use assms(2) in simp_all)
  qed
  moreover have "0 < completions c' i" if "(q, i) \<in> set (pending c)" for q i
    using that by (force simp: c' complete_all_completions filter_empty_conv)
  ultimately show ?thesis
    by (intro live_invI) (use live_invD(1) [OF live] in \<open>auto simp: c'\<close>)
qed

lemma live_Close:
  assumes live: "live_inv c"
  shows "live_inv (snd (Close cres c))"
proof -
  let ?a = "complete_all ErrShutdown (pending c) c"
  have "alive (snd (Close cres c)) j" if "j < ncalls c" for j
  proof (cases "j \<in> snd ` set (pending c)")
    case True
    then have "0 < completions ?a j"
      by (auto simp: complete_all_completions filter_empty_conv)
    then show ?thesis by (auto simp: alive_def Close_eq Let_def)
  next
    case False
    then show ?thesis
      using live_invD(4) [OF live that]
      by (auto simp: alive_def completing_def Close_eq Let_def complete_all_completions)
  qed
  then show ?thesis
    by (intro live_invI) (use live_invD(2) [OF live] in \<open>auto simp: Close_eq Let_def split: if_splits\<close>)
qed

lemma live_spawn:
  assumes "live_inv c" "\<And>q i. (q, i) \<in> set (pending c) \<Longrightarrow> i < ncalls c"
  shows "live_inv (spawn_call ptr ca c)"
proof -
  have "alive (spawn_call ptr ca c) i" if "i < ncalls c + 1" for i
    using live_invD(4) [OF assms(1), of i] that
    by (cases "i = ncalls c") (auto simp: alive_def completing_def)
  then show ?thesis
    by (intro live_invI) (use live_invD(1-3) [OF assms(1)] assms(2) in \<open>fastforce\<close>)+
qed

lemma live_make_chan: "live_inv c \<Longrightarrow> live_inv (snd (make_chan k c))"
  unfolding live_inv_def alive_def completing_def by simp

lemma live_step:
  assumes live: "live_inv c" and step: "client_step lib c c'" and seqs: "seq_inv c" and wrap: "no_wrap c'"
  shows "live_inv c'"
proof -
  note less = pending_unique(3) [OF seqs]
  note old = live_invD(4) [OF live]
  show ?thesis
    using step
  proof (cases rule: client_step.cases)
    case (StartGo dn meta sp sm args reply i)
    from StartGo(2) show ?thesis
      by (cases rule: Go_cases) (auto intro!: live_spawn live_make_chan live less)
  next
    case (StartCall meta sp sm args reply)
    have "live_inv (spawn_call (Some 0) (new_call meta sp sm args reply (nchans c)) (snd (make_chan 1 c)))"
      by (intro live_spawn live_make_chan live) (auto intro: less)
    then show ?thesis
      unfolding StartCall Call_begin_eq live_inv_def alive_def completing_def by auto
  next
    case (Send i)
    then show ?thesis using live_send_lock [OF live _ seqs] wrap by simp
  next
    case (Store i q st)
    have "alive (drop_task (SendStore i q st) c) j" if "j < ncalls c" for j
      using old [OF that] by (rule alive_drop) auto
    then have "alive (send_store i q st (drop_task (SendStore i q st) c)) j" if "j < ncalls c" for j
      unfolding send_store_def
      by (rule alive_add [OF alive_transfer]) (use that in \<open>auto split: option.split\<close>)
    then show ?thesis
      unfolding Store
      by (intro live_invI) (use live_invD(1-3) [OF live] in \<open>auto simp: send_store_def split: option.splits\<close>)
  next
    case (Write i q st wres)
    then show ?thesis using live_send_write [OF live seqs] by simp
  next
    case (Fail i e)
    have "alive (complete_with i e (drop_task (Finish i e) c)) j" if "j < ncalls c" for j
    proof (cases "j = i")
      case False
      then have "alive (drop_task (Finish i e) c) j"
        using old [OF that] by (intro alive_drop) auto
      then show ?thesis by (simp add: complete_with_finish alive_finish)
    qed (simp add: complete_with_finish alive_finish)
    then show ?thesis
      unfolding Fail by (intro live_invI) (use live_invD(1-3) [OF live] in \<open>auto simp: complete_with_finish\<close>)
  next
    case (Receive i)
    have "alive (drop_task (CallWait i) c) j" if "j < ncalls c" for j
      using old [OF that] by (rule alive_drop) auto
    then have "alive c' j" if "j < ncalls c" for j
      unfolding Receive
      by (rule alive_transfer) (use that in \<open>auto simp: Call_receive_def split: list.split\<close>)
    then show ?thesis
      by (intro live_invI) (use live_invD(1-3) [OF live] Receive(1) in \<open>auto simp: Call_receive_def split: list.splits\<close>)
  next
    case (UserReceive ch)
    have "alive c' j" if "j < ncalls c" for j
      using old [OF that] unfolding UserReceive by (rule alive_transfer) auto
    then show ?thesis
      by (intro live_invI) (use live_invD(1-3) [OF live] UserReceive(1) in auto)
  qed (auto intro: live_make_chan live_cancel live_cancelled live_input_read live_input_deliver live_input_end live_Close
      live seqs)
qed


section \<open>The invariant of every reachable client\<close>

definition client_inv :: "'v client \<Rightarrow> bool" where
  "client_inv c \<longleftrightarrow> seq_inv c \<and> chan_inv c \<and> live_inv c"

lemma client_inv_init: "client_inv (NewClient st c0)"
  using seq_inv_init chan_inv_init by (auto simp: client_inv_def live_defs NewClient_def)

lemma client_inv_run: "client_run lib c c' \<Longrightarrow> client_inv c \<Longrightarrow> no_wrap c' \<Longrightarrow> client_inv c'"
proof (induction rule: client_run.induct)
  case (Step c c1 c2)
  then have "no_wrap c1" using assigned_grows [of lib c1 c2] by (simp add: no_wrap_def)
  then show ?case
    using Step seq_inv_step chan_inv_step live_step unfolding client_inv_def by blast
qed

lemmas reachable_inv = client_inv_run [OF _ client_inv_init]

text \<open>After the end nothing is sent and no call is registered any more.\<close>

definition dead :: "'v client \<Rightarrow> bool" where
  "dead c \<longleftrightarrow> (closing c \<or> shutdown c) \<and> conn_closed c"

lemma complete_with_fields [simp]:
  "sent (complete_with i e c) = sent c" "assigned (complete_with i e c) = assigned c"
  "closing (complete_with i e c) = closing c" "shutdown (complete_with i e c) = shutdown c"
  "conn_closed (complete_with i e c) = conn_closed c"
  by (simp_all add: complete_with_finish)

lemma dead_step:
  assumes "dead c" "client_step lib c c'"
  shows "dead c' \<and> sent c' = sent c \<and> assigned c' = assigned c"
  using assms(2)
proof (cases rule: client_step.cases)
  case (StartGo dn meta sp sm args reply i)
  from StartGo(2) show ?thesis using assms(1) by (cases rule: Go_cases) (simp_all add: dead_def)
next
  case (StartCall meta sp sm args reply)
  then show ?thesis using assms(1) by (simp add: Call_begin_eq dead_def)
next
  case (Send i)
  then show ?thesis using assms(1) by (auto simp: send_lock_def dead_def)
next
  case (Store i q st)
  then show ?thesis using assms(1) by (simp add: send_store_def dead_def split: option.split)
next
  case (Write i q st wres)
  then show ?thesis using assms(1) by (auto simp: send_write_def dead_def Let_def split: option.split sum.split)
next
  case (Receive i)
  then show ?thesis using assms(1) by (simp add: Call_receive_def dead_def split: list.split)
next
  case (Cancelled i call e)
  then show ?thesis using assms(1) by (cases call) (simp_all add: Call_cancelled_def dead_def Let_def)
next
  case (InputRead lim r)
  then show ?thesis using assms(1) by (cases lim r c rule: input_read_cases) (simp_all add: dead_def)
next
  case (InputDeliver i msg)
  then show ?thesis using assms(1) by (simp add: input_deliver_eq dead_def)
next
  case (InputEnd e)
  then show ?thesis using assms(1) by (auto simp: dead_def dest!: input_end_all)
qed (use assms(1) in \<open>auto simp: dead_def Call_cancel_def Close_eq Let_def\<close>)

lemma dead_run: "client_run lib c c' \<Longrightarrow> dead c \<Longrightarrow> dead c' \<and> sent c' = sent c \<and> assigned c' = assigned c"
  by (induction rule: client_run.induct) (auto dest: dead_step)

section \<open>A client for the examples\<close>

definition demo_call :: "nat call" where
  "demo_call = new_call [] [] [] 0 0 0"

text \<open>One call, registered but not yet written; and then the end of the connection.\<close>

definition demo_client :: "nat client" where
  "demo_client = send_lock 0 (drop_task (SendStart 0) (Call_begin [] ''Arith'' ''Double'' 21 0 (NewClient JSON demo_call)))"

definition demo_failing :: "nat client" where
  "demo_failing = snd (input_read 0 \<lparr>rd_bytes = [], rd_err = EOF\<rparr> demo_client)"

definition demo_dead :: "nat client" where
  "demo_dead = snd (input_end demo_failing)"

lemma demo_client_fields:
  "pending demo_client = [(0, 0)]" "shutdown demo_client = False" "closing demo_client = False"
  "tasks demo_client = [CallWait 0, SendStore 0 0 JSON]" "assigned demo_client = [0]" "input_at demo_client = Reading"
  "ncalls demo_client = 1" "seqptr demo_client 0 = Some 0" "completions demo_client 0 = 0"
  by (simp_all add: demo_client_def Call_begin_eq send_lock_def isHeartBeat_def new_call_def NewClient_def spawn_call_def
      add_task_def drop_task_def make_chan_def)

lemma demo_client_run: "client_run nat_lib (NewClient JSON demo_call) demo_client"
proof -
  have "client_step nat_lib (NewClient JSON demo_call) (Call_begin [] ''Arith'' ''Double'' 21 0 (NewClient JSON demo_call))"
    by (rule client_step.StartCall)
  moreover have "SendStart 0 \<in> set (tasks (Call_begin [] ''Arith'' ''Double'' (21 :: nat) 0 (NewClient JSON demo_call)))"
    by (simp add: Call_begin_eq NewClient_def)
  ultimately show ?thesis
    unfolding demo_client_def by (meson client_run.intros client_step.Send)
qed

lemma demo_read: "Decode 0 NewMessage \<lparr>rd_bytes = [], rd_err = EOF\<rparr> = (Some EOF, NewMessage, \<lparr>rd_bytes = [], rd_err = EOF\<rparr>)"
  by (simp add: Decode_def decode_body_def decode_frame_def ReadFull_def Let_def copy_range_def NewMessage_def)

lemma demo_failing_eq: "demo_failing = demo_client\<lparr>input_at := Failing EOF\<rparr>"
  by (simp add: demo_failing_def input_read_def demo_read)

lemma demo_dead_eq:
  "demo_dead = (complete_with 0 ErrUnexpectedEOF (demo_client\<lparr>input_at := Failing EOF, conn_closed := True, shutdown := True\<rparr>))
     \<lparr>input_at := Ended\<rparr>"
  by (simp add: demo_dead_def demo_failing_eq input_end_def shutdown_error_def demo_client_fields)

lemma demo_dead_fields:
  "pending demo_dead = [(0, 0)]" "shutdown demo_dead" "conn_closed demo_dead" "assigned demo_dead = [0]"
  by (simp_all add: demo_dead_eq demo_client_fields complete_with_finish)

lemma demo_dead_run: "client_run nat_lib (NewClient JSON demo_call) demo_dead"
proof -
  have "client_step nat_lib demo_client demo_failing"
    unfolding demo_failing_def by (rule client_step.InputRead) (rule demo_client_fields)
  moreover have "client_step nat_lib demo_failing demo_dead"
    by (rule client_step.InputEnd [of _ EOF])
      (simp_all add: demo_dead_def demo_failing_eq input_end_def shutdown_error_def)
  ultimately show ?thesis using demo_client_run by (meson client_run.Step)
qed


section \<open>Properties\<close>

text \<open>
  C7: a response reaches the call it answers. In every schedule, while fewer than \<open>2 ^ 64\<close> calls have
  been made, every request on the wire is that of the one call its sequence number was given to; so
  when a response takes a call out of the table, any request sent under the response's number is that
  call's own.
\<close>

theorem response_reaches_its_call:
  assumes "client_run lib (NewClient st c0) c" and "no_wrap c"
    and "Decode lim NewMessage r = (None, msg, r')" and "map_of (pending c) (Seq (Header msg)) = Some i"
  shows "input_at (snd (input_read lim r c)) = Delivering i msg \<and>
    (\<forall>bs \<in> set (sent c). \<exists>j q st p. bs = Encode ((request_of (calls c j) q st)\<lparr>Payload := p\<rparr>) \<and>
       (q = Seq (Header msg) \<longrightarrow> j = i))"
proof -
  have seqs: "seq_inv c" using reachable_inv [OF assms(1,2)] by (simp add: client_inv_def)
  have "owns c (Seq (Header msg)) i"
    using seqs assms(4) by (auto simp: seq_inv_def dest: map_of_SomeD)
  then have "\<forall>bs \<in> set (sent c). \<exists>j q st p. bs = Encode ((request_of (calls c j) q st)\<lparr>Payload := p\<rparr>) \<and>
       (q = Seq (Header msg) \<longrightarrow> j = i)"
    using seqs unfolding seq_inv_def by (metis owns_unique)
  then show ?thesis using assms(3,4) by (simp add: input_read_def Let_def)
qed

theorem response_reaches_its_call_witness:
  "input_at (snd (input_read 0 \<lparr>rd_bytes = Encode NewMessage, rd_err = EOF\<rparr> demo_client)) = Delivering 0 (received NewMessage)"
proof -
  have ok: "wire_ok 0 NewMessage"
    by (simp add: wire_ok_def NewMessage_def wf_header_def CheckMagicNumber_def gomap_ok_def frame_body_def meta_bytes_def
        within_limit_def)
  have "Read 0 \<lparr>rd_bytes = Encode NewMessage, rd_err = EOF\<rparr> = (Inr (received NewMessage), \<lparr>rd_bytes = [], rd_err = EOF\<rparr>)"
    using Read_Encode [OF ok, of "[]" EOF] by simp
  then have "Decode 0 NewMessage \<lparr>rd_bytes = Encode NewMessage, rd_err = EOF\<rparr> =
      (None, received NewMessage, \<lparr>rd_bytes = [], rd_err = EOF\<rparr>)"
    by (auto simp: Read_def split: prod.splits option.splits)
  from response_reaches_its_call [OF demo_client_run _ this, of 0] show ?thesis
    by (simp add: no_wrap_def demo_client_fields received_def NewMessage_def Seq_def u64_of_def)
qed

text \<open>
  C6: nobody waits for ever on a dead connection. Once the connection is shut down or closed and the
  goroutines have run out, every call ever made has been completed, and every \<^verbatim>\<open>Call\<close> that still waits
  finds its call in its channel.
\<close>

theorem no_call_hangs:
  assumes "client_run lib (NewClient st c0) c" and "no_wrap c" and "shutdown c \<or> closing c"
    and "\<forall>t \<in> set (tasks c). \<exists>i. t = CallWait i" and "\<forall>i m. input_at c \<noteq> Delivering i m"
  shows "\<forall>i < ncalls c. 0 < completions c i \<and>
    (CallWait i \<in> set (tasks c) \<longrightarrow> chan_buf c (Done (calls c i)) \<noteq> [])"
proof (intro allI impI)
  fix i
  assume i: "i < ncalls c"
  have inv: "chan_inv c" "live_inv c" using reachable_inv [OF assms(1,2)] by (simp_all add: client_inv_def)
  have "SendStart i \<notin> set (tasks c)" "\<not> completing c i"
    using assms(4,5) by (auto simp: completing_def)
  then have "i \<in> snd ` set (pending c) \<or> 0 < completions c i"
    using live_invD(4) [OF inv(2) i] by (auto simp: alive_def)
  then have "0 < completions c i"
    using assms(3) live_invD(1,3) [OF inv(2)] by auto
  then show "0 < completions c i \<and> (CallWait i \<in> set (tasks c) \<longrightarrow> chan_buf c (Done (calls c i)) \<noteq> [])"
    using inv(1) by (auto simp: chan_inv_def)
qed

text \<open>One call, written to the connection and unanswered when the user closes the client.\<close>

definition demo_quiet :: "nat client" where
  "demo_quiet = snd (Close None (send_write nat_lib None 0 0 JSON (drop_task (SendWrite 0 0 JSON)
     (send_store 0 0 JSON (drop_task (SendStore 0 0 JSON) demo_client)))))"

lemma demo_quiet_run: "client_run nat_lib (NewClient JSON demo_call) demo_quiet"
proof -
  let ?s = "send_store 0 0 JSON (drop_task (SendStore 0 0 JSON) demo_client)"
  have "client_step nat_lib demo_client ?s"
    by (rule client_step.Store) (simp add: demo_client_fields)
  moreover have "client_step nat_lib ?s (send_write nat_lib None 0 0 JSON (drop_task (SendWrite 0 0 JSON) ?s))"
    by (rule client_step.Write)
      (simp_all add: send_store_def add_task_def drop_task_def demo_client_def Call_begin_eq send_lock_def
        isHeartBeat_def new_call_def NewClient_def spawn_call_def make_chan_def)
  ultimately show ?thesis
    unfolding demo_quiet_def using demo_client_run client_step.UserClose by (meson client_run.Step)
qed

lemma demo_quiet_fields:
  "ncalls demo_quiet = 1" "closing demo_quiet" "tasks demo_quiet = [CallWait 0]" "input_at demo_quiet = Reading"
  "assigned demo_quiet = [0]"
  by (simp_all add: demo_quiet_def Close_eq Let_def send_write_def send_store_def nat_lib_def JSONCodec_Encode_def add_task_def drop_task_def
      complete_with_finish demo_client_fields)

theorem no_call_hangs_witness:
  "0 < completions demo_quiet 0 \<and> chan_buf demo_quiet (Done (calls demo_quiet 0)) \<noteq> []"
  using no_call_hangs [OF demo_quiet_run] by (simp add: demo_quiet_fields no_wrap_def)

text \<open>
  C27: the end is final. After the connection was closed by either side, no goroutine puts another byte
  on the wire and no call gets a sequence number, whatever runs on.
\<close>

theorem nothing_after_the_end:
  assumes "(closing c \<or> shutdown c) \<and> conn_closed c" and "client_run lib c c'"
  shows "sent c' = sent c \<and> assigned c' = assigned c \<and> (closing c' \<or> shutdown c') \<and> conn_closed c'"
  using dead_run [OF assms(2)] assms(1) by (simp add: dead_def)

theorem nothing_after_the_end_witness:
  "sent (Call_begin [] ''A'' ''B'' 1 0 demo_dead) = sent demo_dead"
  using nothing_after_the_end [of demo_dead nat_lib "Call_begin [] ''A'' ''B'' 1 0 demo_dead"]
    client_run.Step [OF client_run.Stop client_step.StartCall, of nat_lib demo_dead]
  by (simp add: demo_dead_fields)

text \<open>
  A call can be completed twice. The input loop completes the pending calls when the connection
  ends but leaves them in the table, so a later \<^verbatim>\<open>Close\<close> completes each of them again and replaces the
  error it ended with.
\<close>

theorem close_completes_again:
  assumes "client_run lib (NewClient st c0) c" and "no_wrap c" and "shutdown c" and "(q, i) \<in> set (pending c)"
  shows "fst (Close cres c) = Some ErrShutdown \<and> 2 \<le> completions (snd (Close cres c)) i \<and>
    Error (calls (snd (Close cres c)) i) = Some ErrShutdown"
proof -
  have "0 < completions c i"
    using reachable_inv [OF assms(1,2)] assms(3,4) live_invD(3) by (auto simp: client_inv_def)
  moreover have "0 < length [p \<leftarrow> pending c. snd p = i]" "i \<in> snd ` set (pending c)"
    using assms(4) by (force simp: filter_empty_conv)+
  ultimately show ?thesis
    using assms(3) by (simp add: Close_eq Let_def complete_all_completions complete_all_calls del: length_greater_0_conv)
qed

theorem close_completes_again_witness:
  "2 \<le> completions (snd (Close None demo_dead)) 0"
  using close_completes_again [OF demo_dead_run, of 0 0 None] by (simp add: no_wrap_def demo_dead_fields)

text \<open>
  Cancelling a call too early ends somebody else's. Until \<^verbatim>\<open>send\<close> has stored the sequence number,
  the cancel branch reads 0, takes the call with number 0 out of the table, and completes it with the
  cancelled call's error; the cancelled call itself stays where it was.
\<close>

theorem early_cancel_hits_another_call:
  assumes "seqptr c i = Some 0" and "map_of (pending c) 0 = Some j" and "j \<noteq> i"
    and "c1 = Call_cancel i e c" and "c2 = Call_cancelled i (Some j) e (drop_task (CallCancelled i (Some j) e) c1)"
  shows "CallCancelled i (Some j) e \<in> set (tasks c1) \<and> map_of (pending c2) 0 = None \<and>
    Error (calls c2 j) = Some e \<and> completions c2 j = completions c j + 1 \<and>
    calls c2 i = calls c i \<and> completions c2 i = completions c i \<and> returned c2 i = Some (Some e)"
  using assms by (simp add: Call_cancel_def Call_cancelled_def complete_with_finish)

theorem early_cancel_hits_another_call_witness:
  "\<exists>c. client_run nat_lib (NewClient JSON demo_call) c \<and>
    completions (Call_cancelled 1 (Some 0) Canceled (drop_task (CallCancelled 1 (Some 0) Canceled) (Call_cancel 1 Canceled c))) 0 = 1"
proof -
  let ?c = "Call_begin [] ''Arith'' ''Double'' 4 0 demo_client"
  have "client_run nat_lib (NewClient JSON demo_call) ?c"
    by (rule client_run.Step [OF demo_client_run client_step.StartCall])
  moreover have "seqptr ?c 1 = Some 0" "map_of (pending ?c) 0 = Some 0" "completions ?c 0 = 0"
    by (simp_all add: Call_begin_eq demo_client_fields)
  ultimately show ?thesis
    using early_cancel_hits_another_call [of ?c 1 0 _ Canceled] by fastforce
qed

text \<open>
  One bad reply ends the connection for everybody. A response with status normal whose payload the
  codec rejects ends the input loop, and every other pending call fails with the decoder's error, while
  a response with status error whose payload is rejected does no such harm.
\<close>

theorem bad_reply_fails_all:
  assumes "input_at c = Delivering i msg" and "MessageStatusType (Header msg) = NormalStatus"
    and "Payload msg \<noteq> []" and "Codecs (SerializeType (Header msg)) = Some codec"
    and "codec_Decode lib codec (Payload msg) (ReplyVal (calls c i)) = (Some err, v)"
    and "shutdown_error (closing c) err = Return err'" and "(q, j) \<in> set (pending c)"
  shows "shutdown (snd (input_end (input_deliver lib c))) \<and>
    Error (calls (snd (input_end (input_deliver lib c))) j) = Some err'"
proof -
  let ?d = "input_deliver lib c"
  have d: "input_at ?d = Failing err" "pending ?d = pending c" "closing ?d = closing c"
    using assms(1-5) by (simp_all add: input_deliver_eq apply_response_def NormalStatus_def ErrorStatus_def Let_def)
  then have "snd (input_end ?d) =
      (complete_all err' (pending c) (?d\<lparr>conn_closed := True, shutdown := True\<rparr>))\<lparr>input_at := Ended\<rparr>"
    using assms(6) by (simp add: input_end_def complete_all_def Let_def)
  moreover have "j \<in> snd ` set (pending c)" using assms(7) by force
  ultimately show ?thesis by (simp add: complete_all_calls)
qed

definition demo_delivering :: "nat client" where
  "demo_delivering = demo_client\<lparr>input_at := Delivering 1 (demo_request\<lparr>Payload := [1]\<rparr>)\<rparr>"

definition strict_lib :: "nat golib" where
  "strict_lib = nat_lib\<lparr>json_Decode := (\<lambda>v bs. (Some (NewError ''bad''), v))\<rparr>"

theorem bad_reply_fails_all_witness:
  "Error (calls (snd (input_end (input_deliver strict_lib demo_delivering))) 0) = Some (NewError ''bad'')"
proof -
  have "MessageStatusType (Header demo_request) = NormalStatus" "SerializeType (Header demo_request) = JSON"
    by (simp add: demo_request_header MessageStatusType_def NormalStatus_def) (rule demo_request_simps)
  then show ?thesis
    using bad_reply_fails_all [of demo_delivering 1 "demo_request\<lparr>Payload := [1]\<rparr>" JSONCodec strict_lib "NewError ''bad''"
        "ReplyVal (calls demo_client 1)" "NewError ''bad''" 0 0]
    by (simp add: demo_delivering_def JSONCodec_Decode_def strict_lib_def shutdown_error_def demo_client_fields)
qed

end
