(* ===== verification/Session.thy ===== *)
theory Session
  imports Client_Inv "HOL-Library.Multiset"
begin

text \<open>
  A whole connection, from the requests a client has written to the responses it has read. The first
  section follows a single response to its call; the second runs the input loop over a stream of
  responses in any order.
\<close>

section \<open>A response on its way to its call\<close>

lemma Decode_Encode:
  assumes "wire_ok lim m"
  shows "Decode lim NewMessage \<lparr>rd_bytes = Encode m @ rest, rd_err = e\<rparr> =
    (None, received m, \<lparr>rd_bytes = rest, rd_err = e\<rparr>)"
  using Read_Encode [OF assms, of rest e] by (auto simp: Read_def split: prod.splits option.splits)

text \<open>The client after it has read one response and delivered it.\<close>

definition client_gets :: "'v golib \<Rightarrow> int \<Rightarrow> byte list \<Rightarrow> 'v client \<Rightarrow> 'v client" where
  "client_gets lib lim bs c = input_deliver lib (snd (input_read lim \<lparr>rd_bytes = bs, rd_err = EOF\<rparr> c))"

lemma client_gets_response:
  assumes "wire_ok lim res" and "map_of (pending c) (Seq (Header res)) = Some i"
  shows "pending (client_gets lib lim (Encode res @ rest) c) = gomap_del (Seq (Header res)) (pending c)"
    and "calls (client_gets lib lim (Encode res @ rest) c) = (calls c)(i := fst (apply_response lib (received res) (calls c i)))"
    and "completions (client_gets lib lim (Encode res @ rest) c) i = completions c i + 1"
    and "input_at (client_gets lib lim (Encode res @ rest) c) =
      (case snd (apply_response lib (received res) (calls c i)) of None \<Rightarrow> Reading | Some e \<Rightarrow> Failing e)"
  using Decode_Encode [OF assms(1), of rest EOF] assms(2)
  by (simp_all add: client_gets_def input_read_def received_def Let_def input_deliver_eq)

lemma received_simps [simp]:
  "Header (received m) = Header m" "ServicePath (received m) = ServicePath m" "ServiceMethod (received m) = ServiceMethod m"
  "Metadata (received m) = Metadata m" "Payload (received m) = Payload m"
  by (simp_all add: received_def)

lemma handle_spec_received: "handle_spec lib sm (received req) = handle_spec lib sm req"
  unfolding handle_spec_def received_simps by (rule refl)

lemma render_received: "render (received req) out = render req out"
  by (cases out) (simp_all add: response_base_def)

text \<open>What the server sends back for the request of an ordinary call.\<close>

definition call_request :: "'v call \<Rightarrow> u64 \<Rightarrow> SerializeType \<Rightarrow> byte list \<Rightarrow> message" where
  "call_request ca q st p = (request_of ca q st)\<lparr>Payload := p\<rparr>"

lemma call_request_flags:
  assumes "Codecs st = Some cd"
  shows "wf_header (Header (call_request ca q st p))" "IsHeartbeat (Header (call_request ca q st p)) = isHeartBeat ca"
    "\<not> IsOneway (Header (call_request ca q st p))" "SerializeType (Header (call_request ca q st p)) = st"
    "Seq (Header (call_request ca q st p)) = q" "MessageStatusType (Header (call_request ca q st p)) = NormalStatus"
  using request_of_header [OF assms, of ca q] view_NewMessage(2)
  by (simp_all add: call_request_def header_view_select)

lemma answer_request:
  assumes "Codecs st = Some cd" and "\<not> isHeartBeat ca"
    and "render (call_request ca q st p) (handle_spec lib sm (call_request ca q st p)) = Return (res, err)"
  shows "answer_spec lib sm (received (call_request ca q st p)) = Some (Encode res)"
  using assms(2,3) call_request_flags [OF assms(1), of ca q p]
  by (auto simp: answer_spec_def handle_spec_received render_received)

lemma response_fields:
  assumes "Codecs st = Some cd" and "render (call_request ca q st p) out = Return (res, err)"
  shows "Seq (Header res) = q" "SerializeType (Header res) = st"
    "Metadata res = (case err of None \<Rightarrow> [] | Some e \<Rightarrow> [(ServiceErrorKey, err_string e)])"
    "MessageStatusType (Header res) = (if err = None then NormalStatus else ErrorStatus)"
    "err \<noteq> None \<Longrightarrow> Payload res = []"
proof -
  note flags = call_request_flags [OF assms(1), of ca q p]
  have "header_view (Header res) = (header_view (Header (call_request ca q st p)))
        \<lparr>v_type := Response, v_status := (if err = None then v_status (header_view (Header (call_request ca q st p))) else ErrorStatus)\<rparr>"
    using render_Return(4) [OF assms(2) flags(1)] by simp
  then show "Seq (Header res) = q" "SerializeType (Header res) = st"
      "MessageStatusType (Header res) = (if err = None then NormalStatus else ErrorStatus)"
    using flags by (simp_all add: header_view_select)
  show "Metadata res = (case err of None \<Rightarrow> [] | Some e \<Rightarrow> [(ServiceErrorKey, err_string e)])"
    by (rule render_Return(5) [OF assms(2)])
  show "err \<noteq> None \<Longrightarrow> Payload res = []"
    using assms(2) by (cases out) (auto simp: response_base_def)
qed

lemma server_answers:
  assumes "serving up lib (sv_registry svr)" and "Codecs st = Some cd" and "\<not> isHeartBeat ca"
    and "render (call_request ca q st p) (handle_spec lib (serviceMap (sv_registry svr)) (call_request ca q st p)) = Return (res, err)"
  shows "fst (processOneRequest lib picks svr (received (call_request ca q st p))) = Some (Encode res)"
    and "Seq (Header res) = q" "SerializeType (Header res) = st" "Metadata res = (case err of None \<Rightarrow> [] | Some e \<Rightarrow> [(ServiceErrorKey, err_string e)])"
    and "MessageStatusType (Header res) = (if err = None then NormalStatus else ErrorStatus)"
    and "err \<noteq> None \<Longrightarrow> Payload res = []"
  using processOneRequest_spec [OF assms(1), of picks "received (call_request ca q st p)"]
    answer_request [OF assms(2-4)] response_fields [OF assms(2,4)] by auto

section \<open>A stream of responses\<close>

text \<open>
  Rounds of the input loop on one connection: read a message, deliver it to its call, and go on while
  there was no error.
\<close>

fun input_rounds :: "'v golib \<Rightarrow> int \<Rightarrow> nat \<Rightarrow> reader \<Rightarrow> 'v client \<Rightarrow> reader \<times> 'v client" where
  "input_rounds lib lim 0 r c = (r, c)"
| "input_rounds lib lim (Suc n) r c =
     (if input_at c = Reading
      then (case input_read lim r c of (r, c) \<Rightarrow> input_rounds lib lim n r (input_deliver lib c))
      else (r, c))"

lemma input_round:
  assumes "wire_ok lim res" and "map_of (pending c) (Seq (Header res)) = Some i"
  shows "(case input_read lim \<lparr>rd_bytes = Encode res @ rest, rd_err = e\<rparr> c of (r, c) \<Rightarrow> (r, input_deliver lib c)) =
    (\<lparr>rd_bytes = rest, rd_err = e\<rparr>,
     (finish_call i (fst (apply_response lib (received res) (calls c i))) (c\<lparr>pending := gomap_del (Seq (Header res)) (pending c)\<rparr>))
       \<lparr>input_at := (case snd (apply_response lib (received res) (calls c i)) of None \<Rightarrow> Reading | Some e \<Rightarrow> Failing e)\<rparr>)"
  using Decode_Encode [OF assms(1), of rest e] assms(2)
  by (simp add: input_read_def Let_def input_deliver_eq finish_call_def upd_call_def call_done_def)

text \<open>What the loop leaves of a client after responses to some of its calls.\<close>

definition answered :: "'v golib \<Rightarrow> (u64 \<Rightarrow> cid) \<Rightarrow> message list \<Rightarrow> 'v client \<Rightarrow> 'v client \<Rightarrow> bool" where
  "answered lib idx rs c c' \<longleftrightarrow>
     input_at c' = Reading \<and>
     (\<forall>r \<in> set rs. calls c' (idx (Seq (Header r))) = fst (apply_response lib (received r) (calls c (idx (Seq (Header r))))) \<and>
        completions c' (idx (Seq (Header r))) = completions c (idx (Seq (Header r))) + 1 \<and>
        map_of (pending c') (Seq (Header r)) = None) \<and>
     (\<forall>i. i \<notin> (\<lambda>r. idx (Seq (Header r))) ` set rs \<longrightarrow> calls c' i = calls c i \<and> completions c' i = completions c i) \<and>
     (\<forall>q. q \<notin> (\<lambda>r. Seq (Header r)) ` set rs \<longrightarrow> map_of (pending c') q = map_of (pending c) q)"

definition answers :: "'v golib \<Rightarrow> int \<Rightarrow> (u64 \<Rightarrow> cid) \<Rightarrow> 'v client \<Rightarrow> message \<Rightarrow> bool" where
  "answers lib lim idx c r \<longleftrightarrow>
     wire_ok lim r \<and> map_of (pending c) (Seq (Header r)) = Some (idx (Seq (Header r))) \<and>
     snd (apply_response lib (received r) (calls c (idx (Seq (Header r))))) = None"

lemma answered_Cons:
  assumes "\<And>s. s \<in> set rs \<Longrightarrow> idx (Seq (Header s)) \<noteq> idx (Seq (Header r))"
    and "answered lib idx rs
      ((finish_call (idx (Seq (Header r))) (fst (apply_response lib (received r) (calls c (idx (Seq (Header r))))))
         (c\<lparr>pending := gomap_del (Seq (Header r)) (pending c)\<rparr>))\<lparr>input_at := Reading\<rparr>) c'"
  shows "answered lib idx (r # rs) c c'"
proof -
  have seqs: "Seq (Header s) \<noteq> Seq (Header r)" if "s \<in> set rs" for s using assms(1) [OF that] by auto
  note a = assms(2) [unfolded answered_def, simplified]
  have new: "calls c' (idx (Seq (Header s))) = fst (apply_response lib (received s) (calls c (idx (Seq (Header s))))) \<and>
      completions c' (idx (Seq (Header s))) = completions c (idx (Seq (Header s))) + 1 \<and>
      map_of (pending c') (Seq (Header s)) = None" if "s \<in> set rs" for s
    using a assms(1) [OF that] that by (auto simp: image_iff)
  have self: "idx (Seq (Header r)) \<notin> (\<lambda>r. idx (Seq (Header r))) ` set rs" "Seq (Header r) \<notin> (\<lambda>r. Seq (Header r)) ` set rs"
    by (rule notI, erule imageE, use assms(1) in metis) (rule notI, erule imageE, use seqs in metis)
  have head: "calls c' (idx (Seq (Header r))) = fst (apply_response lib (received r) (calls c (idx (Seq (Header r))))) \<and>
      completions c' (idx (Seq (Header r))) = completions c (idx (Seq (Header r))) + 1 \<and>
      map_of (pending c') (Seq (Header r)) = None"
    using a self by simp
  have rest: "calls c' i = calls c i \<and> completions c' i = completions c i"
    if "i \<notin> (\<lambda>r. idx (Seq (Header r))) ` set (r # rs)" for i
    using a that by simp
  have table: "map_of (pending c') q = map_of (pending c) q" if "q \<notin> (\<lambda>r. Seq (Header r)) ` set (r # rs)" for q
    using a that by simp
  have "input_at c' = Reading" using a by simp
  moreover have "\<forall>s \<in> set (r # rs). calls c' (idx (Seq (Header s))) = fst (apply_response lib (received s) (calls c (idx (Seq (Header s))))) \<and>
      completions c' (idx (Seq (Header s))) = completions c (idx (Seq (Header s))) + 1 \<and>
      map_of (pending c') (Seq (Header s)) = None"
    using new head by (simp only: list.set ball_simps) blast
  ultimately show ?thesis
    unfolding answered_def using rest table by blast
qed

lemma input_rounds_answer:
  assumes "\<And>r. r \<in> set rs \<Longrightarrow> answers lib lim idx c r" and "distinct (map (\<lambda>r. idx (Seq (Header r))) rs)"
    and "input_at c = Reading"
  shows "\<exists>c'. input_rounds lib lim (length rs) \<lparr>rd_bytes = concat (map Encode rs) @ rest, rd_err = e\<rparr> c =
      (\<lparr>rd_bytes = rest, rd_err = e\<rparr>, c') \<and> answered lib idx rs c c'"
  using assms
proof (induction rs arbitrary: c)
  case Nil
  then show ?case by (simp add: answered_def)
next
  case (Cons r rs)
  let ?q = "Seq (Header r)"
  let ?ca = "fst (apply_response lib (received r) (calls c (idx ?q)))"
  let ?c1 = "(finish_call (idx ?q) ?ca (c\<lparr>pending := gomap_del ?q (pending c)\<rparr>))\<lparr>input_at := Reading\<rparr>"
  have ok: "wire_ok lim r" "map_of (pending c) ?q = Some (idx ?q)"
      "snd (apply_response lib (received r) (calls c (idx ?q))) = None"
    using Cons.prems(1) [of r] by (simp_all add: answers_def)
  have other: "idx (Seq (Header s)) \<noteq> idx ?q" if "s \<in> set rs" for s
    using Cons.prems(2) that by simp (metis (mono_tags, lifting) image_eqI)
  have "answers lib lim idx ?c1 s" if "s \<in> set rs" for s
  proof -
    have "Seq (Header s) \<noteq> ?q" using other [OF that] by auto
    then show ?thesis using Cons.prems(1) [of s] other [OF that] that by (simp add: answers_def)
  qed
  moreover have "distinct (map (\<lambda>r. idx (Seq (Header r))) rs)" using Cons.prems(2) by simp
  ultimately obtain c' where run: "input_rounds lib lim (length rs) \<lparr>rd_bytes = concat (map Encode rs) @ rest, rd_err = e\<rparr> ?c1 =
      (\<lparr>rd_bytes = rest, rd_err = e\<rparr>, c')" and ans: "answered lib idx rs ?c1 c'"
    using Cons.IH [of ?c1] by auto
  have "input_rounds lib lim (length (r # rs)) \<lparr>rd_bytes = concat (map Encode (r # rs)) @ rest, rd_err = e\<rparr> c =
      (\<lparr>rd_bytes = rest, rd_err = e\<rparr>, c')"
    using input_round [OF ok(1,2), of lib "concat (map Encode rs) @ rest" e] Cons.prems(3) run ok(3)
    by (auto split: prod.splits)
  moreover have "answered lib idx (r # rs) c c'"
    using answered_Cons [OF _ ans] other by simp
  ultimately show ?case by blast
qed


section \<open>Jobs\<close>

text \<open>
  A job is a pending call with the sequence number and the payload of its request. The response to it,
  and what the response makes of the call, are read off the specification of the handler.
\<close>

type_synonym job = "u64 \<times> cid \<times> byte list"

definition job_request :: "SerializeType \<Rightarrow> 'v client \<Rightarrow> job \<Rightarrow> message" where
  "job_request st c j = call_request (calls c (fst (snd j))) (fst j) st (snd (snd j))"

definition job_response :: "'v golib \<Rightarrow> (string, 'v service) gomap \<Rightarrow> SerializeType \<Rightarrow> 'v client \<Rightarrow> job \<Rightarrow> message" where
  "job_response lib sm st c j =
     (case render (job_request st c j) (handle_spec lib sm (job_request st c j)) of
        Return (res, err) \<Rightarrow> res | Panic \<Rightarrow> job_request st c j)"

definition job_result :: "'v golib \<Rightarrow> codec \<Rightarrow> rpc_outcome \<Rightarrow> 'v call \<Rightarrow> 'v call" where
  "job_result lib cd out ca =
     (case out of
        Reply bs \<Rightarrow> if bs = [] then ca else ca\<lparr>ReplyVal := snd (codec_Decode lib cd bs (ReplyVal ca))\<rparr>
      | Failed e \<Rightarrow>
          ca\<lparr>ca_ResMetadata := [(ServiceErrorKey, err_string e)], Error := Some (ServiceError (err_string e))\<rparr>
      | NoAnswer \<Rightarrow> ca)"

definition sound_job :: "'v golib \<Rightarrow> int \<Rightarrow> codec \<Rightarrow> (string, 'v service) gomap \<Rightarrow> SerializeType \<Rightarrow> 'v client \<Rightarrow> job \<Rightarrow> bool" where
  \<comment> \<open>the call is pending and ordinary, its request and response fit on the wire, the handler answers, and
     the client can decode a reply that is not empty\<close>
  "sound_job lib lim cd sm st c j \<longleftrightarrow>
     map_of (pending c) (fst j) = Some (fst (snd j)) \<and> \<not> isHeartBeat (calls c (fst (snd j))) \<and>
     wire_ok lim (job_request st c j) \<and> wire_ok lim (job_response lib sm st c j) \<and>
     (case handle_spec lib sm (job_request st c j) of
        Reply bs \<Rightarrow> bs = [] \<or> fst (codec_Decode lib cd bs (ReplyVal (calls c (fst (snd j))))) = None
      | Failed e \<Rightarrow> True
      | NoAnswer \<Rightarrow> False)"

lemma sound_job_answer:
  assumes "Codecs st = Some cd" and "sound_job lib lim cd sm st c j"
  shows "answer_spec lib sm (received (job_request st c j)) = Some (Encode (job_response lib sm st c j))"
    and "Seq (Header (job_response lib sm st c j)) = fst j"
    and "apply_response lib (received (job_response lib sm st c j)) (calls c (fst (snd j))) =
      (job_result lib cd (handle_spec lib sm (job_request st c j)) (calls c (fst (snd j))), None)"
proof -
  let ?req = "job_request st c j"
  let ?out = "handle_spec lib sm ?req"
  note req = job_request_def
  obtain res err where r: "render ?req ?out = Return (res, err)"
    using assms(2) by (cases ?out) (auto simp: sound_job_def)
  have res: "job_response lib sm st c j = res" using r by (simp add: job_response_def)
  note f = response_fields [OF assms(1), folded job_request_def, OF r [unfolded req]]
  show "answer_spec lib sm (received ?req) = Some (Encode (job_response lib sm st c j))"
    using answer_request [OF assms(1) _ r [unfolded req]] assms(2) by (simp add: sound_job_def res req)
  show "Seq (Header (job_response lib sm st c j)) = fst j" using f(1) res by simp
  show "apply_response lib (received (job_response lib sm st c j)) (calls c (fst (snd j))) =
      (job_result lib cd ?out (calls c (fst (snd j))), None)"
  proof (cases ?out)
    case (Reply bs)
    then have "err = None" "Payload res = bs" using r by auto
    then show ?thesis
      using Reply assms f res
      by (auto simp: apply_response_def job_result_def sound_job_def Let_def split: prod.splits)
  next
    case (Failed e)
    then have "err = Some e" using r by auto
    then show ?thesis
      using Failed f res by (simp add: apply_response_def job_result_def Let_def gomap_get_def)
  next
    case NoAnswer
    then show ?thesis using r by simp
  qed
qed

lemma mset_map_obtain:
  "mset xs = mset (map f ys) \<Longrightarrow> \<exists>zs. xs = map f zs \<and> mset zs = mset ys"
proof (induction xs arbitrary: ys)
  case Nil
  then show ?case by simp
next
  case (Cons x xs)
  then have "x \<in> set (map f ys)" by (metis list.set_intros(1) mset_eq_setD)
  then obtain y where y: "y \<in> set ys" "x = f y" by auto
  then obtain as bs where ys: "ys = as @ y # bs" by (meson split_list)
  then have "mset xs = mset (map f (as @ bs))" using Cons.prems y by simp
  then obtain zs where "xs = map f zs" "mset zs = mset (as @ bs)" using Cons.IH by blast
  then show ?case using y ys by (intro exI [of _ "y # zs"]) simp
qed

text \<open>The calls of a client after a session: every job has its result, once, and nothing else changed.\<close>

definition jobs_done :: "'v golib \<Rightarrow> codec \<Rightarrow> (string, 'v service) gomap \<Rightarrow> SerializeType \<Rightarrow> job list \<Rightarrow> 'v client \<Rightarrow> 'v client \<Rightarrow> bool" where
  "jobs_done lib cd sm st jobs c c' \<longleftrightarrow>
     input_at c' = Reading \<and>
     list_all (\<lambda>j. calls c' (fst (snd j)) = job_result lib cd (handle_spec lib sm (job_request st c j)) (calls c (fst (snd j))) \<and>
       completions c' (fst (snd j)) = completions c (fst (snd j)) + 1 \<and> map_of (pending c') (fst j) = None) jobs \<and>
     (\<forall>i. i \<notin> set (map (fst \<circ> snd) jobs) \<longrightarrow> calls c' i = calls c i \<and> completions c' i = completions c i) \<and>
     (\<forall>q. q \<notin> set (map fst jobs) \<longrightarrow> map_of (pending c') q = map_of (pending c) q)"

lemma responses_delivered:
  assumes "Codecs st = Some cd" and "list_all (sound_job lib lim cd sm st c) jobs"
    and "distinct (map (fst \<circ> snd) jobs)" and "input_at c = Reading"
    and "mset bss = mset (map (\<lambda>j. Encode (job_response lib sm st c j)) jobs)"
  shows "\<exists>c'. input_rounds lib lim (length bss) \<lparr>rd_bytes = concat bss @ rest, rd_err = e\<rparr> c =
      (\<lparr>rd_bytes = rest, rd_err = e\<rparr>, c') \<and> jobs_done lib cd sm st jobs c c'"
proof -
  define idx where "idx q = the (map_of (pending c) q)" for q
  let ?res = "job_response lib sm st c"
  have sound: "sound_job lib lim cd sm st c j" if "j \<in> set jobs" for j
    using assms(2) that by (simp add: list_all_iff)
  note ans = sound_job_answer [OF assms(1) sound]
  have id: "idx (fst j) = fst (snd j)" if "j \<in> set jobs" for j
    using sound [OF that] by (simp add: idx_def sound_job_def)
  obtain rs where rs: "bss = map Encode rs" "mset rs = mset (map ?res jobs)"
    using mset_map_obtain [of bss Encode "map ?res jobs"] assms(5) by (auto simp: comp_def)
  have mem: "set rs = ?res ` set jobs" using mset_eq_setD [OF rs(2)] by simp
  have ok: "answers lib lim idx c r" if "r \<in> set rs" for r
    using that mem ans id sound by (auto simp: answers_def sound_job_def)
  have "mset (map (\<lambda>r. idx (Seq (Header r))) rs) = mset (map (\<lambda>j. idx (Seq (Header (?res j)))) jobs)"
    using arg_cong [OF rs(2), of "image_mset (\<lambda>r. idx (Seq (Header r)))"] by (simp add: image_mset.compositionality comp_def)
  moreover have "map (\<lambda>j. idx (Seq (Header (?res j)))) jobs = map (fst \<circ> snd) jobs"
    using ans(2) id by (simp add: comp_def)
  ultimately have dist: "distinct (map (\<lambda>r. idx (Seq (Header r))) rs)"
    using assms(3) by (metis mset_eq_imp_distinct_iff)
  obtain c' where run: "input_rounds lib lim (length rs) \<lparr>rd_bytes = concat (map Encode rs) @ rest, rd_err = e\<rparr> c =
      (\<lparr>rd_bytes = rest, rd_err = e\<rparr>, c')" and a: "answered lib idx rs c c'"
    using input_rounds_answer [OF ok dist assms(4)] by blast
  have fin: "calls c' (fst (snd j)) = job_result lib cd (handle_spec lib sm (job_request st c j)) (calls c (fst (snd j))) \<and>
      completions c' (fst (snd j)) = completions c (fst (snd j)) + 1 \<and> map_of (pending c') (fst j) = None"
    if "j \<in> set jobs" for j
  proof -
    have "?res j \<in> set rs" using that mem by blast
    then show ?thesis using a ans(2,3) [OF that] id [OF that] unfolding answered_def by force
  qed
  have "(\<lambda>r. idx (Seq (Header r))) ` set rs = set (map (fst \<circ> snd) jobs)"
    "(\<lambda>r. Seq (Header r)) ` set rs = set (map fst jobs)"
    using ans(2) id by (simp_all add: mem image_image)
  then show ?thesis
    using run rs(1) a fin unfolding answered_def jobs_done_def list_all_iff by auto
qed

end
