(* ===== verification/Heartbeat.thy ===== *)
theory Heartbeat
  imports Client_Inv
begin

text \<open>
  Connecting a client and keeping the connection alive: \<^verbatim>\<open>client/connection.go\<close>, \<^verbatim>\<open>Connect\<close> and the heartbeat
  goroutine of \<^verbatim>\<open>client/client.go\<close>. The goroutine interleaves with all others of the client, so its steps
  extend those of the client; every run with heartbeats is a run of the client.
\<close>

section \<open>Options\<close>

text \<open>Durations are in nanoseconds. \<open>TlsConfig\<close> tells whether there is one.\<close>

record client_option =
  op_Retries :: int
  op_ConnectTimeout :: int
  op_IdleTimeout :: int
  op_SerializeType :: SerializeType
  op_TCPKeepAlivePeriod :: int
  op_TimeToDisallow :: int
  op_TlsConfig :: bool
  op_Heartbeat :: bool
  op_HeartbeatInterval :: int
  op_MaxWaitForHeartbeat :: int
  op_BroadcastTimeout :: int

definition Second :: int where "Second = 1000000000"
definition Minute :: int where "Minute = 60 * Second"

definition DefaultOption :: client_option where
  "DefaultOption =
     \<lparr>op_Retries = 3, op_ConnectTimeout = Second, op_IdleTimeout = 0, op_SerializeType = ProtoBuffer,
      op_TCPKeepAlivePeriod = Minute, op_TimeToDisallow = Minute, op_TlsConfig = False, op_Heartbeat = False,
      op_HeartbeatInterval = 0, op_MaxWaitForHeartbeat = 30 * Second, op_BroadcastTimeout = Minute\<rparr>"

section \<open>Connecting\<close>

text \<open>
  Dialling is a parameter. The settings of a connection are listed in the order they are made; a
  connection that is not there, the nil interface, is \<^term>\<open>None\<close>.
\<close>

record 'c dialer =
  dial_tls :: "int \<Rightarrow> string \<Rightarrow> string \<Rightarrow> go_error + 'c"
  dial_plain :: "int \<Rightarrow> string \<Rightarrow> string \<Rightarrow> go_error + 'c"
  is_tcp :: "'c \<Rightarrow> bool"

datatype conn_setting = SetKeepAlivePeriod int | SetKeepAlive bool | SetDeadline int

definition newDirectConn :: "'c dialer \<Rightarrow> client_option option \<Rightarrow> string \<Rightarrow> string \<Rightarrow> go_error + 'c" where
  \<comment> \<open>\<^term>\<open>None\<close>: the client is nil\<close>
  "newDirectConn d c network address =
     (case c of
        None \<Rightarrow> Inl (NewError ''client is nil'')
      | Some opt \<Rightarrow>
          if op_TlsConfig opt then dial_tls d (op_ConnectTimeout opt) network address
          else dial_plain d (op_ConnectTimeout opt) network address)"

record 'c connected =
  cn_conn :: "'c option"
  cn_settings :: "conn_setting list"
  cn_heartbeat :: bool

definition Connect :: "'c dialer \<Rightarrow> client_option \<Rightarrow> string \<Rightarrow> string \<Rightarrow> (go_error + 'c connected) outcome" where
  "Connect d opt network address =
     (let conn = (if network = ''http'' then Inr None \<comment> \<open>not implemented: no error and no connection\<close>
                  else map_sum id Some (newDirectConn d (Some opt) network address))
      in case conn of
           Inl err \<Rightarrow> Return (Inl err)
         | Inr conn \<Rightarrow>
             (let keep = (if (case conn of None \<Rightarrow> False | Some c \<Rightarrow> is_tcp d c) \<and> op_TCPKeepAlivePeriod opt > 0
                          then [SetKeepAlivePeriod (op_TCPKeepAlivePeriod opt), SetKeepAlive True] else [])
              in if op_IdleTimeout opt \<noteq> 0 \<and> conn = None then Panic
                 else Return (Inr \<lparr>cn_conn = conn,
                   cn_settings = keep @ (if op_IdleTimeout opt \<noteq> 0 then [SetDeadline (op_IdleTimeout opt)] else []),
                   cn_heartbeat = (op_Heartbeat opt \<and> op_HeartbeatInterval opt > 0)\<rparr>)))"

section \<open>The heartbeat goroutine\<close>

datatype hb_pc = HbTick | HbCalling cid | HbStopped

definition hb_max_wait :: "client_option \<Rightarrow> int" where
  "hb_max_wait opt = (if op_MaxWaitForHeartbeat opt = 0 then 30 * Second else op_MaxWaitForHeartbeat opt)"

text \<open>
  A tick: stop if the connection is gone, otherwise call the empty method of the empty service with the
  time as argument. The two flags are only ever set, so reading them one after the other is reading
  them at once.
\<close>

definition hb_tick :: "'v \<Rightarrow> 'v \<Rightarrow> 'v client \<Rightarrow> 'v client \<times> hb_pc" where
  "hb_tick args reply c =
     (if IsShutdown c \<or> IsClosing c then (c, HbStopped)
      else (Call_begin [] [] [] args reply c, HbCalling (ncalls c)))"

text \<open>
  The call returned: \<open>ctxErr\<close> tells whether the context has an error by then, \<open>err\<close> is the result. A reply
  that differs from the argument is only logged.
\<close>

definition hb_reply :: "bool \<Rightarrow> go_error option \<Rightarrow> go_error option \<Rightarrow> 'v client \<Rightarrow> 'v client" where
  "hb_reply ctxErr err cres c =
     (let abnormal = False;
          abnormal = (if ctxErr then True else abnormal);
          abnormal = (if err \<noteq> None then True else abnormal)
      in if abnormal then snd (Close cres c) else c)"

inductive hb_step :: "'v golib \<Rightarrow> 'v client \<times> hb_pc \<Rightarrow> 'v client \<times> hb_pc \<Rightarrow> bool" for lib where
  Other: "client_step lib c c' \<Longrightarrow> hb_step lib (c, h) (c', h)"
| Tick: "hb_step lib (c, HbTick) (hb_tick args reply c)"
| Reply: "returned c i = Some err \<Longrightarrow> hb_step lib (c, HbCalling i) (hb_reply ctxErr err cres c, HbTick)"

inductive_cases hb_stepE: "hb_step lib (c, h) s'"

inductive_simps hb_step_stopped: "hb_step lib (c, HbStopped) (c', h')"

abbreviation hb_run :: "'v golib \<Rightarrow> 'v client \<times> hb_pc \<Rightarrow> 'v client \<times> hb_pc \<Rightarrow> bool" where
  "hb_run lib \<equiv> (hb_step lib)\<^sup>*\<^sup>*"

section \<open>Heartbeats are calls of the client\<close>

lemma hb_step_client: "hb_step lib s s' \<Longrightarrow> client_run lib (fst s) (fst s')"
  by (induction rule: hb_step.induct)
    (auto simp: hb_tick_def hb_reply_def Let_def intro: client_run.intros client_step.StartCall client_step.UserClose)

lemma hb_run_client: "hb_run lib s s' \<Longrightarrow> client_run lib (fst s) (fst s')"
  by (induction rule: rtranclp_induct) (auto intro: client_run.Stop client_run_trans dest: hb_step_client)

section \<open>The flags and the connection\<close>

text \<open>A client that is closing or shut down has closed its connection, and stays that way.\<close>

definition flags_closed :: "'v client \<Rightarrow> bool" where
  "flags_closed c \<longleftrightarrow> (closing c \<or> shutdown c \<longrightarrow> conn_closed c)"

lemma flags_closed_step:
  assumes "flags_closed c" "client_step lib c c'"
  shows "flags_closed c'"
  using assms(2)
proof (cases rule: client_step.cases)
  case (StartGo dn meta sp sm args reply i)
  from StartGo(2) show ?thesis using assms(1) by (cases rule: Go_cases) (simp_all add: flags_closed_def)
next
  case (StartCall meta sp sm args reply)
  then show ?thesis using assms(1) by (simp add: Call_begin_eq flags_closed_def)
next
  case (Send i)
  then show ?thesis using assms(1) by (auto simp: send_lock_def flags_closed_def Let_def split: option.split)
next
  case (Store i q st)
  then show ?thesis using assms(1) by (simp add: send_store_def flags_closed_def split: option.split)
next
  case (Write i q st wres)
  then show ?thesis using assms(1) by (auto simp: send_write_def flags_closed_def Let_def split: option.split sum.split)
next
  case (Receive i)
  then show ?thesis using assms(1) by (simp add: Call_receive_def flags_closed_def split: list.split)
next
  case (Cancelled i call e)
  then show ?thesis using assms(1) by (cases call) (simp_all add: Call_cancelled_def flags_closed_def Let_def)
next
  case (InputRead lim r)
  then show ?thesis using assms(1) by (cases lim r c rule: input_read_cases) (simp_all add: flags_closed_def)
next
  case (InputDeliver i msg)
  then show ?thesis using assms(1) by (simp add: input_deliver_eq flags_closed_def)
next
  case (InputEnd e)
  then show ?thesis using assms(1) by (auto simp: flags_closed_def dest!: input_end_all)
qed (use assms(1) in \<open>auto simp: flags_closed_def Call_cancel_def Close_eq Let_def\<close>)

interpretation flags: step_invariant "client_step lib" flags_closed for lib
  by unfold_locales (rule flags_closed_step)

lemma client_run_rtrancl: "client_run lib c c' \<longleftrightarrow> (client_step lib)\<^sup>*\<^sup>* c c'"
proof
  show "client_run lib c c' \<Longrightarrow> (client_step lib)\<^sup>*\<^sup>* c c'"
    by (induction rule: client_run.induct) (auto intro: rtranclp.rtrancl_into_rtrancl)
  show "(client_step lib)\<^sup>*\<^sup>* c c' \<Longrightarrow> client_run lib c c'"
    by (induction rule: rtranclp_induct) (auto intro: client_run.intros)
qed

lemma flags_closed_run: "client_run lib (NewClient st c0) c \<Longrightarrow> flags_closed c"
  using flags.run_inv [of lib "NewClient st c0" c] by (simp add: client_run_rtrancl flags_closed_def NewClient_def)

section \<open>After a heartbeat failed\<close>

definition quiet_inv :: "byte list list \<Rightarrow> cid list \<Rightarrow> 'v client \<times> hb_pc \<Rightarrow> bool" where
  "quiet_inv bs ns s \<longleftrightarrow> dead (fst s) \<and> snd s \<in> {HbTick, HbStopped} \<and> sent (fst s) = bs \<and> assigned (fst s) = ns"

lemma quiet_inv_step: "hb_step lib s s' \<Longrightarrow> quiet_inv bs ns s \<Longrightarrow> quiet_inv bs ns s'"
proof (induction rule: hb_step.induct)
  case (Other c c' h)
  then show ?case using dead_step [of c lib c'] by (simp add: quiet_inv_def)
next
  case (Tick c args reply)
  then show ?case by (auto simp: quiet_inv_def hb_tick_def dead_def)
qed (simp add: quiet_inv_def)

interpretation quiet: step_invariant "hb_step lib" "quiet_inv bs ns" for lib bs ns
  by unfold_locales (blast intro: quiet_inv_step)

lemma hb_reply_dead:
  assumes "flags_closed c" "ctxErr \<or> err \<noteq> None"
  shows "quiet_inv (sent c) (assigned c) (hb_reply ctxErr err cres c, HbTick)"
  using assms by (auto simp: quiet_inv_def hb_reply_def Let_def Close_eq dead_def flags_closed_def)

section \<open>A heartbeat for the examples\<close>

definition demo_beat :: "nat client" where
  "demo_beat = fst (hb_tick 5 0 (NewClient ProtoBuffer demo_call))"

text \<open>Its call ended with the deadline of the context.\<close>

definition demo_missed :: "nat client" where
  "demo_missed = Call_cancelled 0 None DeadlineExceeded
     (drop_task (CallCancelled 0 None DeadlineExceeded) (Call_cancel 0 DeadlineExceeded (drop_task (CallWait 0) demo_beat)))"

lemma demo_beat_fields:
  "tasks demo_beat = [SendStart 0, CallWait 0]" "pending demo_beat = []" "seqptr demo_beat 0 = Some 0"
  "sent demo_beat = []" "assigned demo_beat = []"
  by (simp_all add: demo_beat_def hb_tick_def NewClient_def Call_begin_eq)

lemma demo_beat_run: "hb_run nat_lib (NewClient ProtoBuffer demo_call, HbTick) (demo_beat, HbCalling 0)"
proof -
  have "hb_tick 5 0 (NewClient ProtoBuffer demo_call) = (demo_beat, HbCalling 0)"
    by (simp add: demo_beat_def hb_tick_def NewClient_def)
  then show ?thesis using hb_step.Tick [of nat_lib "NewClient ProtoBuffer demo_call" 5 0] by (simp add: r_into_rtranclp)
qed

lemma demo_missed_run: "client_run nat_lib (NewClient ProtoBuffer demo_call) demo_missed"
proof -
  have "client_run nat_lib (NewClient ProtoBuffer demo_call) demo_beat"
    using hb_run_client [OF demo_beat_run] by simp
  moreover have "client_step nat_lib demo_beat (Call_cancel 0 DeadlineExceeded (drop_task (CallWait 0) demo_beat))"
    by (rule client_step.Cancel) (simp add: demo_beat_fields)
  moreover have "client_step nat_lib (Call_cancel 0 DeadlineExceeded (drop_task (CallWait 0) demo_beat)) demo_missed"
    unfolding demo_missed_def
    by (rule client_step.Cancelled) (simp add: Call_cancel_def Let_def add_task_def drop_task_def demo_beat_fields)
  ultimately show ?thesis by (meson client_run.Step)
qed

lemma demo_missed_fields: "returned demo_missed 0 = Some (Some DeadlineExceeded)" "sent demo_missed = []"
  by (simp_all add: demo_missed_def Call_cancelled_def Call_cancel_def Let_def add_task_def drop_task_def demo_beat_fields)

section \<open>Properties\<close>

text \<open>
  A heartbeat is an ordinary call. Every run of a client with its heartbeat goroutine is a run of the
  client alone, so everything shown of clients holds with heartbeats; and whatever serialization the
  client uses, the request of a tick on a live client is marked as a heartbeat and encoded as JSON.
\<close>

theorem heartbeats_are_calls:
  assumes "hb_run lib (c0, HbTick) (c, h)" and "\<not> shutdown c" and "\<not> closing c"
    and "hb_tick args reply c = (c1, h1)"
  shows "client_run lib c0 c \<and> h1 = HbCalling (ncalls c) \<and>
    SendStore (ncalls c) (seq c) JSON \<in> set (tasks (send_lock (ncalls c) c1)) \<and>
    IsHeartbeat (Header (request_of (calls c1 (ncalls c)) (seq c) JSON)) \<and>
    SerializeType (Header (request_of (calls c1 (ncalls c)) (seq c) JSON)) = JSON \<and> Args (calls c1 (ncalls c)) = args"
proof -
  have c1: "c1 = Call_begin [] [] [] args reply c" "h1 = HbCalling (ncalls c)"
    using assms(2-4) by (auto simp: hb_tick_def)
  then have call: "isHeartBeat (calls c1 (ncalls c))" "Args (calls c1 (ncalls c)) = args"
    by (simp_all add: Call_begin_eq isHeartBeat_def new_call_def spawn_call_def)
  have "SendStore (ncalls c) (seq c) JSON \<in> set (tasks (send_lock (ncalls c) c1))"
    using c1 call assms(2,3) by (simp add: send_lock_def Call_begin_eq Let_def add_task_def)
  then show ?thesis
    using hb_run_client [OF assms(1)] c1(2) call request_of_header [of JSON JSONCodec "calls c1 (ncalls c)" "seq c"] view_NewMessage(2)
    by (simp add: header_view_select)
qed

text \<open>
  C15: the heartbeat goroutine ends with the connection. After a heartbeat that failed or ran out of time
  the client is closed, and from then on, in every schedule, no further heartbeat is sent, nothing at all
  goes over the wire, and any tick stops the goroutine for good.
\<close>

theorem failed_heartbeat_is_the_last:
  assumes "client_run lib (NewClient st c0) c" and "returned c i = Some err" and "ctxErr \<or> err \<noteq> None"
    and "hb_run lib (hb_reply ctxErr err cres c, HbTick) (c', h')"
  shows "h' \<noteq> HbCalling j \<and> sent c' = sent c \<and> assigned c' = assigned c \<and> hb_tick args reply c' = (c', HbStopped)"
proof -
  have "quiet_inv (sent c) (assigned c) (c', h')"
    using quiet.run_inv [OF assms(4)] hb_reply_dead [OF flags_closed_run [OF assms(1)] assms(3)] by blast
  then show ?thesis by (auto simp: quiet_inv_def hb_tick_def dead_def)
qed

theorem heartbeats_are_calls_witness:
  "SendStore 0 0 JSON \<in> set (tasks (send_lock 0 demo_beat))"
  using heartbeats_are_calls [of nat_lib "NewClient ProtoBuffer demo_call" "NewClient ProtoBuffer demo_call" HbTick 5 0 demo_beat "HbCalling 0"]
  by (simp add: demo_beat_def hb_tick_def NewClient_def)

theorem failed_heartbeat_is_the_last_witness:
  "sent (hb_reply True (Some DeadlineExceeded) None demo_missed) = [] \<and>
    hb_tick 6 0 (hb_reply True (Some DeadlineExceeded) None demo_missed) =
      (hb_reply True (Some DeadlineExceeded) None demo_missed, HbStopped)"
  using failed_heartbeat_is_the_last [OF demo_missed_run demo_missed_fields(1), where ctxErr = True and cres = None
      and h' = HbTick and args = 6 and reply = 0 and c' = "hb_reply True (Some DeadlineExceeded) None demo_missed"]
  by (simp add: demo_missed_fields)

text \<open>
  The network \<^verbatim>\<open>http\<close> is accepted without being implemented: connecting succeeds, and the client has no
  connection, which its input goroutine then dereferences; with an idle timeout already \<^verbatim>\<open>Connect\<close> panics.
\<close>

lemma connect_http_has_no_connection:
  "Connect d opt ''http'' address =
    (if op_IdleTimeout opt \<noteq> 0 then Panic
     else Return (Inr \<lparr>cn_conn = None, cn_settings = [], cn_heartbeat = (op_Heartbeat opt \<and> op_HeartbeatInterval opt > 0)\<rparr>))"
  by (simp add: Connect_def)

end
