(* ===== verification/Discovery.thy ===== *)
theory Discovery
  imports Prelude
begin

text \<open>
  Service discovery and server selection of the client: \<^verbatim>\<open>client/discovery.go\<close> with its three
  implementations (\<^verbatim>\<open>peer2peer_discovery.go\<close>, \<^verbatim>\<open>multi_server_discovery.go\<close>, \<^verbatim>\<open>consul_discovery.go\<close>) and
  \<^verbatim>\<open>client/selector.go\<close>. Both interfaces are locales; the implementations are their interpretations.
\<close>

section \<open>Addresses and channels\<close>

record KVPair =
  Key :: string
  Value :: string

type_synonym pairs_chan = nat \<comment> \<open>a \<^verbatim>\<open>chan []*KVPair\<close>\<close>

text \<open>The loop all \<^verbatim>\<open>RemoveWatcher\<close>s share: the channels other than the given one, in order.\<close>

fun remove_watcher_loop :: "pairs_chan \<Rightarrow> pairs_chan list \<Rightarrow> pairs_chan list \<Rightarrow> pairs_chan list" where
  "remove_watcher_loop ch [] chans = chans"
| "remove_watcher_loop ch (cc # ccs) chans =
     (if cc = ch then remove_watcher_loop ch ccs chans else remove_watcher_loop ch ccs (chans @ [cc]))"

lemma remove_watcher_filter: "remove_watcher_loop ch ccs chans = chans @ [cc \<leftarrow> ccs. cc \<noteq> ch]"
  by (induction ch ccs chans rule: remove_watcher_loop.induct) auto

section \<open>Point to point\<close>

record Peer2PeerDiscovery =
  p2p_server :: string
  p2p_metadata :: string

definition NewPeer2PeerDiscovery :: "string \<Rightarrow> string \<Rightarrow> Peer2PeerDiscovery \<times> go_error option" where
  "NewPeer2PeerDiscovery server metadata = (\<lparr>p2p_server = server, p2p_metadata = metadata\<rparr>, None)"

definition P2P_GetService :: "Peer2PeerDiscovery \<Rightarrow> KVPair list" where
  "P2P_GetService p = [\<lparr>Key = p2p_server p, Value = p2p_metadata p\<rparr>]"

definition P2P_WatchService :: "Peer2PeerDiscovery \<Rightarrow> pairs_chan option \<times> Peer2PeerDiscovery" where
  "P2P_WatchService p = (None, p)"

definition P2P_RemoveWatcher :: "pairs_chan \<Rightarrow> Peer2PeerDiscovery \<Rightarrow> Peer2PeerDiscovery" where
  "P2P_RemoveWatcher ch p = p"

section \<open>A fixed list of servers\<close>

record MultiServersDiscovery =
  md_pairs :: "KVPair list"
  md_chans :: "pairs_chan list"
  md_next :: pairs_chan \<comment> \<open>the identity \<^verbatim>\<open>make\<close> gives the next channel\<close>

definition NewMultiServersDiscovery :: "KVPair list \<Rightarrow> MultiServersDiscovery" where
  "NewMultiServersDiscovery pairs = \<lparr>md_pairs = pairs, md_chans = [], md_next = 0\<rparr>"

definition MD_GetService :: "MultiServersDiscovery \<Rightarrow> KVPair list" where
  "MD_GetService m = md_pairs m"

definition MD_WatchService :: "MultiServersDiscovery \<Rightarrow> pairs_chan option \<times> MultiServersDiscovery" where
  "MD_WatchService m =
     (let ch = md_next m; m = m\<lparr>md_next := md_next m + 1\<rparr>
      in (Some ch, m\<lparr>md_chans := md_chans m @ [ch]\<rparr>))"

definition MD_RemoveWatcher :: "pairs_chan \<Rightarrow> MultiServersDiscovery \<Rightarrow> MultiServersDiscovery" where
  "MD_RemoveWatcher ch m = m\<lparr>md_chans := remove_watcher_loop ch (md_chans m) []\<rparr>"

section \<open>Consul\<close>

text \<open>
  The Consul client library is a parameter: creating a client may fail, and a filtered query returns
  the agent's services by their ids.
\<close>

record AgentService =
  as_Address :: string
  as_Port :: int

record consul_api =
  api_NewClient :: "string \<Rightarrow> go_error option"
  api_ServicesWithFilter :: "string \<Rightarrow> string \<Rightarrow> go_error + (string \<times> AgentService) list"

definition pair_of :: "AgentService \<Rightarrow> KVPair" where
  "pair_of v = \<lparr>Key = as_Address v @ '':'' @ dec_of_int (as_Port v), Value = []\<rparr>"

text \<open>
  Besides the fields of the source the record holds the notifying goroutines, each with its channel
  and, once it has evaluated \<^verbatim>\<open>c.pairs\<close>, the value it is about to send, and the buffers of the channels.
\<close>

record ConsulDiscovery =
  ConsulAddr :: string
  ServiceName :: string
  cd_pairs :: "KVPair list"
  cd_chans :: "pairs_chan list"
  cd_next :: pairs_chan
  notifying :: "(pairs_chan \<times> KVPair list option) list"
  cd_buf :: "pairs_chan \<Rightarrow> KVPair list list"

fun pairs_loop :: "(string \<times> AgentService) list \<Rightarrow> KVPair list \<Rightarrow> KVPair list" where
  "pairs_loop [] pairs = pairs"
| "pairs_loop ((k, v) # svcs) pairs = pairs_loop svcs (pairs @ [pair_of v])"

definition findServiceAddress :: "consul_api \<Rightarrow> string \<Rightarrow> string \<Rightarrow> go_error + KVPair list" where
  "findServiceAddress api addr name =
     (case api_NewClient api addr of
        Some err \<Rightarrow> Inl err
      | None \<Rightarrow>
          (case api_ServicesWithFilter api addr (''Service == \"'' @ name @ ''\"'') of
             Inl err \<Rightarrow> Inl err
           | Inr svcMap \<Rightarrow> Inr (pairs_loop svcMap [])))"

definition NewConsulDiscovery :: "consul_api \<Rightarrow> string \<Rightarrow> string \<Rightarrow> go_error + ConsulDiscovery" where
  "NewConsulDiscovery api serviceName consulAddr =
     (case findServiceAddress api consulAddr serviceName of
        Inl err \<Rightarrow> Inl ErrServiceNotFound
      | Inr pairs \<Rightarrow>
          Inr \<lparr>ConsulAddr = consulAddr, ServiceName = serviceName, cd_pairs = pairs, cd_chans = [], cd_next = 0,
               notifying = [], cd_buf = (\<lambda>_. [])\<rparr>)"

definition CD_GetService :: "ConsulDiscovery \<Rightarrow> KVPair list" where
  "CD_GetService c = cd_pairs c"

definition CD_WatchService :: "ConsulDiscovery \<Rightarrow> pairs_chan option \<times> ConsulDiscovery" where
  "CD_WatchService c =
     (let ch = cd_next c; c = c\<lparr>cd_next := cd_next c + 1, cd_buf := (cd_buf c)(ch := [])\<rparr>
      in (Some ch, c\<lparr>cd_chans := cd_chans c @ [ch]\<rparr>))"

definition CD_RemoveWatcher :: "pairs_chan \<Rightarrow> ConsulDiscovery \<Rightarrow> ConsulDiscovery" where
  "CD_RemoveWatcher ch c = c\<lparr>cd_chans := remove_watcher_loop ch (cd_chans c) []\<rparr>"

text \<open>The handler of the watch plan: new addresses, and one goroutine for every channel.\<close>

definition watch_handler :: "AgentService list \<Rightarrow> ConsulDiscovery \<Rightarrow> ConsulDiscovery" where
  "watch_handler entries c =
     (let pairs = map pair_of entries;
          c = c\<lparr>cd_pairs := pairs\<rparr>
      in c\<lparr>notifying := notifying c @ map (\<lambda>ch. (ch, None)) (cd_chans c)\<rparr>)"

definition notify_load :: "nat \<Rightarrow> ConsulDiscovery \<Rightarrow> ConsulDiscovery" where
  \<comment> \<open>the select statement evaluates \<^verbatim>\<open>c.pairs\<close>\<close>
  "notify_load k c = c\<lparr>notifying := (notifying c)[k := (fst (notifying c ! k), Some (cd_pairs c))]\<rparr>"

definition notify_send :: "nat \<Rightarrow> ConsulDiscovery \<Rightarrow> ConsulDiscovery" where
  "notify_send k c =
     (case notifying c ! k of
        (ch, Some ps) \<Rightarrow>
          c\<lparr>cd_buf := (cd_buf c)(ch := cd_buf c ch @ [ps]), notifying := take k (notifying c) @ drop (Suc k) (notifying c)\<rparr>
      | _ \<Rightarrow> c)"

definition notify_timeout :: "nat \<Rightarrow> ConsulDiscovery \<Rightarrow> ConsulDiscovery" where
  "notify_timeout k c = c\<lparr>notifying := take k (notifying c) @ drop (Suc k) (notifying c)\<rparr>"

section \<open>The contract of service discovery\<close>

locale service_discovery =
  fixes inv :: "'d \<Rightarrow> bool" and get :: "'d \<Rightarrow> KVPair list" and watch :: "'d \<Rightarrow> pairs_chan option \<times> 'd"
    and remove :: "pairs_chan \<Rightarrow> 'd \<Rightarrow> 'd" and watchers :: "'d \<Rightarrow> pairs_chan set"
  assumes inv_watch: "inv d \<Longrightarrow> inv (snd (watch d))"
    and inv_remove: "inv d \<Longrightarrow> inv (remove ch d)"
    and get_watch: "get (snd (watch d)) = get d"
    and get_remove: "get (remove ch d) = get d"
    and watch_some: "inv d \<Longrightarrow> watch d = (Some ch, d') \<Longrightarrow> ch \<notin> watchers d \<and> watchers d' = insert ch (watchers d)"
    and watch_none: "watch d = (None, d') \<Longrightarrow> d' = d"
    and watchers_remove: "watchers (remove ch d) = watchers d - {ch}"
begin

lemma subscribe_unsubscribe:
  assumes "inv d" "watch d = (Some ch, d')"
  shows "watchers (remove ch d') = watchers d" "get (remove ch d') = get d"
  using watch_some [OF assms] get_watch [of d] assms(2) by (auto simp: watchers_remove get_remove)

lemma subscribers_differ:
  assumes "inv d" "watch d = (Some a, d1)" "watch d1 = (Some b, d2)"
  shows "a \<noteq> b" "{a, b} \<subseteq> watchers d2"
  using watch_some [OF assms(1,2)] watch_some [OF _ assms(3)] inv_watch [OF assms(1)] assms(2) by auto

end

interpretation p2p: service_discovery "\<lambda>_. True" P2P_GetService P2P_WatchService P2P_RemoveWatcher "\<lambda>_. {}"
  by unfold_locales (auto simp: P2P_WatchService_def P2P_RemoveWatcher_def)

interpretation multi: service_discovery "\<lambda>m. \<forall>ch \<in> set (md_chans m). ch < md_next m" MD_GetService MD_WatchService
    MD_RemoveWatcher "\<lambda>m. set (md_chans m)"
  by unfold_locales
    (auto simp: MD_WatchService_def MD_RemoveWatcher_def MD_GetService_def Let_def remove_watcher_filter)

interpretation consul: service_discovery "\<lambda>c. \<forall>ch \<in> set (cd_chans c). ch < cd_next c" CD_GetService CD_WatchService
    CD_RemoveWatcher "\<lambda>c. set (cd_chans c)"
  by unfold_locales
    (auto simp: CD_WatchService_def CD_RemoveWatcher_def CD_GetService_def Let_def remove_watcher_filter)


section \<open>Notifications\<close>

text \<open>
  A discovery with its subscribed clients: what each client took from its channel last, and every list
  of addresses the discovery has ever had. The notifying goroutines run in any order; a channel holds
  ten lists.
\<close>

record watch_state =
  ws_cd :: ConsulDiscovery
  ws_view :: "pairs_chan \<Rightarrow> KVPair list option"
  ws_published :: "KVPair list list" \<comment> \<open>history\<close>

definition watch_start :: "ConsulDiscovery \<Rightarrow> watch_state" where
  "watch_start c = \<lparr>ws_cd = c, ws_view = (\<lambda>_. None), ws_published = [cd_pairs c]\<rparr>"

inductive notify_step :: "watch_state \<Rightarrow> watch_state \<Rightarrow> bool" where
  Change: "notify_step s (s\<lparr>ws_cd := watch_handler es (ws_cd s), ws_published := ws_published s @ [map pair_of es]\<rparr>)"
| Load: "\<lbrakk>k < length (notifying (ws_cd s)); snd (notifying (ws_cd s) ! k) = None\<rbrakk>
    \<Longrightarrow> notify_step s (s\<lparr>ws_cd := notify_load k (ws_cd s)\<rparr>)"
| Send: "\<lbrakk>k < length (notifying (ws_cd s)); notifying (ws_cd s) ! k = (ch, Some ps); length (cd_buf (ws_cd s) ch) < 10\<rbrakk>
    \<Longrightarrow> notify_step s (s\<lparr>ws_cd := notify_send k (ws_cd s)\<rparr>)"
| Timeout: "k < length (notifying (ws_cd s)) \<Longrightarrow> notify_step s (s\<lparr>ws_cd := notify_timeout k (ws_cd s)\<rparr>)"
| Receive: "cd_buf (ws_cd s) ch = ps # pss \<Longrightarrow>
    notify_step s (s\<lparr>ws_cd := (ws_cd s)\<lparr>cd_buf := (cd_buf (ws_cd s))(ch := pss)\<rparr>, ws_view := (ws_view s)(ch := Some ps)\<rparr>)"
| Subscribe: "notify_step s (s\<lparr>ws_cd := snd (CD_WatchService (ws_cd s))\<rparr>)"
| Unsubscribe: "notify_step s (s\<lparr>ws_cd := CD_RemoveWatcher ch (ws_cd s)\<rparr>)"

abbreviation notify_run :: "watch_state \<Rightarrow> watch_state \<Rightarrow> bool" where
  "notify_run \<equiv> notify_step\<^sup>*\<^sup>*"

definition watch_inv :: "watch_state \<Rightarrow> bool" where
  "watch_inv s \<longleftrightarrow>
     cd_pairs (ws_cd s) \<in> set (ws_published s) \<and>
     (\<forall>ch ps. (ch, Some ps) \<in> set (notifying (ws_cd s)) \<longrightarrow> ps \<in> set (ws_published s)) \<and>
     (\<forall>ch. set (cd_buf (ws_cd s) ch) \<subseteq> set (ws_published s) \<and> length (cd_buf (ws_cd s) ch) \<le> 10) \<and>
     (\<forall>ch ps. ws_view s ch = Some ps \<longrightarrow> ps \<in> set (ws_published s))"

lemma set_remove_nth: "set (take k xs @ drop (Suc k) xs) \<subseteq> set xs"
  by (auto dest: in_set_takeD in_set_dropD)

lemma watch_inv_step: "notify_step s s' \<Longrightarrow> watch_inv s \<Longrightarrow> watch_inv s'"
proof (induction rule: notify_step.induct)
  case (Change s es)
  then show ?case by (auto simp: watch_inv_def watch_handler_def Let_def)
next
  case (Load k s)
  have "(ch, Some ps) \<in> set ((notifying (ws_cd s))[k := (fst (notifying (ws_cd s) ! k), Some (cd_pairs (ws_cd s)))]) \<Longrightarrow>
      ps \<in> set (ws_published s)" for ch ps
    using Load(3) by (auto simp: watch_inv_def dest!: set_update_subset_insert [THEN subsetD])
  then show ?case using Load(3) by (simp add: watch_inv_def notify_load_def)
next
  case (Send k s ch ps)
  have "(ch, Some ps) \<in> set (notifying (ws_cd s))"
    using Send(1,2) by (metis nth_mem)
  then show ?case
    using Send set_remove_nth [of k "notifying (ws_cd s)"] by (auto simp: watch_inv_def notify_send_def)
next
  case (Timeout k s)
  then show ?case
    using set_remove_nth [of k "notifying (ws_cd s)"] by (auto simp: watch_inv_def notify_timeout_def)
next
  case (Receive s ch ps pss)
  then have "set (ps # pss) \<subseteq> set (ws_published s)" "length (ps # pss) \<le> 10"
    unfolding watch_inv_def by metis+
  then show ?case using Receive by (simp add: watch_inv_def)
next
  case (Subscribe s)
  then show ?case by (auto simp: watch_inv_def CD_WatchService_def Let_def)
next
  case (Unsubscribe s ch)
  then show ?case by (auto simp: watch_inv_def CD_RemoveWatcher_def)
qed

lemma watch_inv_run: "notify_run s s' \<Longrightarrow> watch_inv s \<Longrightarrow> watch_inv s'"
  by (induction rule: rtranclp_induct) (auto intro: watch_inv_step)

lemma watch_inv_start: "(\<And>ch. cd_buf c ch = []) \<Longrightarrow> notifying c = [] \<Longrightarrow> watch_inv (watch_start c)"
  by (simp add: watch_inv_def watch_start_def)

section \<open>Selecting a server\<close>

record randomSelector =
  rs_servers :: "string list"

fun keys_loop :: "(string, string) gomap \<Rightarrow> string list \<Rightarrow> string list" where
  "keys_loop [] ss = ss"
| "keys_loop ((k, v) # m) ss = keys_loop m (ss @ [k])"

lemma keys_loop_map: "keys_loop m ss = ss @ map fst m"
  by (induction m ss rule: keys_loop.induct) auto

definition newRandomSelector :: "(string, string) gomap \<Rightarrow> randomSelector" where
  "newRandomSelector servers = \<lparr>rs_servers = keys_loop servers []\<rparr>"

text \<open>\<open>r\<close> is the random number; \<^verbatim>\<open>rand.Int31n\<close> reduces it to the range it is asked for.\<close>

definition Select :: "nat \<Rightarrow> randomSelector \<Rightarrow> string" where
  "Select r s =
     (let ss = rs_servers s
      in if length ss = 0 then []
         else let i = r mod length ss in ss ! i)"

definition UpdateServer :: "(string, string) gomap \<Rightarrow> randomSelector \<Rightarrow> randomSelector" where
  "UpdateServer servers s = s\<lparr>rs_servers := keys_loop servers []\<rparr>"

definition newSelector :: "int \<Rightarrow> (string, string) gomap \<Rightarrow> randomSelector" where
  \<comment> \<open>every mode falls through to the random selector\<close>
  "newSelector mode servers = newRandomSelector servers"

locale server_selector =
  fixes new :: "('k, 'm) gomap \<Rightarrow> 's" and update :: "('k, 'm) gomap \<Rightarrow> 's \<Rightarrow> 's"
    and select :: "nat \<Rightarrow> 's \<Rightarrow> 'k" and candidates :: "'s \<Rightarrow> 'k set" and none :: 'k
  assumes new_candidates: "candidates (new m) = fst ` set m"
    and update_candidates: "candidates (update m s) = fst ` set m"
    and select_none: "candidates s = {} \<Longrightarrow> select r s = none"
    and select_mem: "candidates s \<noteq> {} \<Longrightarrow> select r s \<in> candidates s"
    and select_onto: "k \<in> candidates s \<Longrightarrow> \<exists>r. select r s = k"
begin

lemma select_after_update: "m \<noteq> [] \<Longrightarrow> select r (update m s) \<in> fst ` set m"
  using select_mem [of "update m s" r] by (simp add: update_candidates)

lemma range_select: "candidates s \<noteq> {} \<Longrightarrow> range (\<lambda>r. select r s) = candidates s"
  using select_mem select_onto by fastforce

lemma select_none_iff: "none \<notin> candidates s \<Longrightarrow> select r s = none \<longleftrightarrow> candidates s = {}"
  using select_none select_mem by metis

end

interpretation random: server_selector newRandomSelector UpdateServer Select "\<lambda>s. set (rs_servers s)" "[]"
proof unfold_locales
  fix s :: randomSelector and r
  assume "set (rs_servers s) \<noteq> {}"
  then show "Select r s \<in> set (rs_servers s)"
    by (simp add: Select_def Let_def)
next
  fix s :: randomSelector and k
  assume "k \<in> set (rs_servers s)"
  then obtain i where "i < length (rs_servers s)" "rs_servers s ! i = k"
    by (metis in_set_conv_nth)
  then show "\<exists>r. Select r s = k"
    by (intro exI [of _ i]) (auto simp: Select_def Let_def)
qed (simp_all add: newRandomSelector_def UpdateServer_def Select_def keys_loop_map)

section \<open>Properties\<close>

text \<open>
  C39: a client never learns an address list the discovery did not have. Under every interleaving of
  changes, notifying goroutines, time-outs, subscriptions and receives, whatever a client took from its
  channel is a list that was current at some moment, and a channel never holds more than ten lists.
\<close>

theorem notifications_are_genuine:
  assumes "NewConsulDiscovery api name addr = Inr c" and "notify_run (watch_start c) s" and "ws_view s ch = Some ps"
  shows "ps \<in> set (ws_published s) \<and> length (cd_buf (ws_cd s) ch) \<le> 10"
proof -
  have "watch_inv (watch_start c)"
    using assms(1) by (intro watch_inv_start) (auto simp: NewConsulDiscovery_def split: sum.splits)
  then have "watch_inv s" using watch_inv_run assms(2) by blast
  then show ?thesis using assms(3) by (simp add: watch_inv_def)
qed

definition demo_api :: consul_api where
  "demo_api = \<lparr>api_NewClient = (\<lambda>_. None), api_ServicesWithFilter = (\<lambda>_ _. Inr [(''id'', \<lparr>as_Address = ''a'', as_Port = 1\<rparr>)])\<rparr>"

definition demo_cd :: ConsulDiscovery where
  "demo_cd = \<lparr>ConsulAddr = ''c'', ServiceName = ''Arith'', cd_pairs = [\<lparr>Key = ''a:1'', Value = []\<rparr>], cd_chans = [], cd_next = 0,
     notifying = [], cd_buf = (\<lambda>_. [])\<rparr>"

lemma dec_of_int_digits: "dec_of_int 1 = ''1''" "dec_of_int 2 = ''2''" "dec_of_int 3 = ''3''"
  by (simp_all add: dec_of_int_def dec_of_nat.simps char_of_def bit_iff_odd)

lemma demo_cd: "NewConsulDiscovery demo_api ''Arith'' ''c'' = Inr demo_cd"
  by (simp add: NewConsulDiscovery_def findServiceAddress_def demo_api_def demo_cd_def pair_of_def dec_of_int_digits)

text \<open>
  The schedule of the next two examples: one subscriber; two changes in a row; the first goroutine
  evaluates the addresses before the second change but sends them after the second goroutine.
\<close>

definition entries :: "int \<Rightarrow> AgentService list" where
  "entries p = [\<lparr>as_Address = ''a'', as_Port = p\<rparr>]"

definition overtaken :: watch_state where
  "overtaken =
     \<lparr>ws_cd = demo_cd\<lparr>cd_pairs := map pair_of (entries 3), cd_chans := [0], cd_next := 1\<rparr>,
      ws_view = (\<lambda>_. None)(0 := Some (map pair_of (entries 2))),
      ws_published = [cd_pairs demo_cd, map pair_of (entries 2), map pair_of (entries 3)]\<rparr>"

lemmas notify_more = converse_rtranclp_into_rtranclp [where r = notify_step]

lemma overtaken_run: "notify_run (watch_start demo_cd) overtaken"
proof -
  let ?p2 = "map pair_of (entries 2)" and ?p3 = "map pair_of (entries 3)"
  let ?pub = "[cd_pairs demo_cd]"
  let ?st = "\<lambda>ps ns buf view pub. \<lparr>ws_cd = demo_cd\<lparr>cd_pairs := ps, cd_chans := [0], cd_next := 1,
      notifying := ns, cd_buf := (\<lambda>_. [])(0 := buf)\<rparr>, ws_view = view, ws_published = pub\<rparr>"
  have 1: "notify_step (watch_start demo_cd) (?st (cd_pairs demo_cd) [] [] (\<lambda>_. None) ?pub)"
    using Subscribe [of "watch_start demo_cd"] by (simp add: watch_start_def CD_WatchService_def demo_cd_def)
  have 2: "notify_step (?st (cd_pairs demo_cd) [] [] (\<lambda>_. None) ?pub) (?st ?p2 [(0, None)] [] (\<lambda>_. None) (?pub @ [?p2]))"
    using Change [of "?st (cd_pairs demo_cd) [] [] (\<lambda>_. None) ?pub" "entries 2"] by (simp add: watch_handler_def demo_cd_def)
  have 3: "notify_step (?st ?p2 [(0, None)] [] (\<lambda>_. None) (?pub @ [?p2])) (?st ?p2 [(0, Some ?p2)] [] (\<lambda>_. None) (?pub @ [?p2]))"
    using Load [of 0 "?st ?p2 [(0, None)] [] (\<lambda>_. None) (?pub @ [?p2])"] by (simp add: notify_load_def demo_cd_def)
  have 4: "notify_step (?st ?p2 [(0, Some ?p2)] [] (\<lambda>_. None) (?pub @ [?p2]))
      (?st ?p3 [(0, Some ?p2), (0, None)] [] (\<lambda>_. None) (?pub @ [?p2, ?p3]))"
    using Change [of "?st ?p2 [(0, Some ?p2)] [] (\<lambda>_. None) (?pub @ [?p2])" "entries 3"]
    by (simp add: watch_handler_def demo_cd_def)
  have 5: "notify_step (?st ?p3 [(0, Some ?p2), (0, None)] [] (\<lambda>_. None) (?pub @ [?p2, ?p3]))
      (?st ?p3 [(0, Some ?p2), (0, Some ?p3)] [] (\<lambda>_. None) (?pub @ [?p2, ?p3]))"
    using Load [of 1 "?st ?p3 [(0, Some ?p2), (0, None)] [] (\<lambda>_. None) (?pub @ [?p2, ?p3])"]
    by (simp add: notify_load_def demo_cd_def)
  have 6: "notify_step (?st ?p3 [(0, Some ?p2), (0, Some ?p3)] [] (\<lambda>_. None) (?pub @ [?p2, ?p3]))
      (?st ?p3 [(0, Some ?p2)] [?p3] (\<lambda>_. None) (?pub @ [?p2, ?p3]))"
    using Send [of 1 "?st ?p3 [(0, Some ?p2), (0, Some ?p3)] [] (\<lambda>_. None) (?pub @ [?p2, ?p3])" 0 ?p3]
    by (simp add: notify_send_def demo_cd_def)
  have 7: "notify_step (?st ?p3 [(0, Some ?p2)] [?p3] (\<lambda>_. None) (?pub @ [?p2, ?p3]))
      (?st ?p3 [] [?p3, ?p2] (\<lambda>_. None) (?pub @ [?p2, ?p3]))"
    using Send [of 0 "?st ?p3 [(0, Some ?p2)] [?p3] (\<lambda>_. None) (?pub @ [?p2, ?p3])" 0 ?p2]
    by (simp add: notify_send_def demo_cd_def)
  have 8: "notify_step (?st ?p3 [] [?p3, ?p2] (\<lambda>_. None) (?pub @ [?p2, ?p3]))
      (?st ?p3 [] [?p2] ((\<lambda>_. None)(0 := Some ?p3)) (?pub @ [?p2, ?p3]))"
    using Receive [of "?st ?p3 [] [?p3, ?p2] (\<lambda>_. None) (?pub @ [?p2, ?p3])" 0 ?p3 "[?p2]"] by (simp add: demo_cd_def)
  have 9: "notify_step (?st ?p3 [] [?p2] ((\<lambda>_. None)(0 := Some ?p3)) (?pub @ [?p2, ?p3]))
      (?st ?p3 [] [] ((\<lambda>_. None)(0 := Some ?p2)) (?pub @ [?p2, ?p3]))"
    using Receive [of "?st ?p3 [] [?p2] ((\<lambda>_. None)(0 := Some ?p3)) (?pub @ [?p2, ?p3])" 0 ?p2 "[]"] by (simp add: demo_cd_def)
  have "?st ?p3 [] [] ((\<lambda>_. None)(0 := Some ?p2)) (?pub @ [?p2, ?p3]) = overtaken"
    by (simp add: overtaken_def demo_cd_def fun_eq_iff)
  then show ?thesis
    using notify_more [OF 1 notify_more [OF 2 notify_more [OF 3 notify_more [OF 4 notify_more [OF 5 notify_more [OF 6
      notify_more [OF 7 notify_more [OF 8 notify_more [OF 9 rtranclp.rtrancl_refl]]]]]]]]]
    by simp
qed

theorem notifications_are_genuine_witness:
  "map pair_of (entries 2) \<in> set (ws_published overtaken)"
  using notifications_are_genuine [OF demo_cd overtaken_run, of 0] by (simp add: overtaken_def)

text \<open>
  A client can be left with an outdated address list for good. There is a schedule after which no
  notification is in flight and no channel holds anything, and yet what the client learned last is not
  the current list: a goroutine that evaluated the old list sent it after the newer one.
\<close>

theorem notification_overtaken:
  "\<exists>s. notify_run (watch_start demo_cd) s \<and> notifying (ws_cd s) = [] \<and> (\<forall>ch. cd_buf (ws_cd s) ch = []) \<and>
     0 \<in> set (cd_chans (ws_cd s)) \<and> ws_view s 0 = Some (map pair_of (entries 2)) \<and>
     cd_pairs (ws_cd s) = map pair_of (entries 3) \<and> map pair_of (entries 2) \<noteq> map pair_of (entries 3)"
  using overtaken_run
  by (intro exI [of _ overtaken]) (simp add: overtaken_def demo_cd_def entries_def pair_of_def dec_of_int_digits)

text \<open>
  A subscription is an identity. Two subscriptions to a discovery get different channels, both are
  notified of the next change, and removing one brings back the set of subscribers there was before,
  without touching the addresses.
\<close>

theorem subscriptions_are_separate:
  assumes "\<forall>ch \<in> set (cd_chans c). ch < cd_next c"
    and "CD_WatchService c = (Some a, c1)" and "CD_WatchService c1 = (Some b, c2)"
  shows "a \<noteq> b \<and> {a, b} \<subseteq> fst ` set (notifying (watch_handler es c2)) \<and>
    set (cd_chans (CD_RemoveWatcher a c1)) = set (cd_chans c) \<and> CD_GetService (CD_RemoveWatcher a c1) = CD_GetService c"
  using consul.subscribers_differ [OF assms] consul.subscribe_unsubscribe [OF assms(1,2)]
  by (auto simp: watch_handler_def Let_def image_Un image_image)

theorem subscriptions_are_separate_witness:
  "fst (CD_WatchService demo_cd) \<noteq> fst (CD_WatchService (snd (CD_WatchService demo_cd)))"
  using subscriptions_are_separate [of demo_cd 0 "snd (CD_WatchService demo_cd)" 1
      "snd (CD_WatchService (snd (CD_WatchService demo_cd)))" "[]"]
  by (simp add: CD_WatchService_def demo_cd_def)

text \<open>
  The selector picks current servers only, and any of them. After an update with a non-empty list of
  servers the possible choices are exactly the keys of that list; without servers the empty address is
  returned.
\<close>

theorem selector_picks_current_servers:
  "(servers \<noteq> [] \<longrightarrow> range (\<lambda>r. Select r (UpdateServer servers s)) = fst ` set servers) \<and>
   Select r (UpdateServer [] s) = []"
  using random.range_select [of "UpdateServer servers s"] random.select_none [of "UpdateServer [] s" r]
    random.update_candidates [of servers s] random.update_candidates [of "[]" s]
  by auto

theorem selector_picks_current_servers_witness:
  "range (\<lambda>r. Select r (UpdateServer [(''a:1'', []), (''b:2'', [])] \<lparr>rs_servers = []\<rparr>)) = {''a:1'', ''b:2''}"
  using selector_picks_current_servers [of "[(''a:1'', []), (''b:2'', [])]" "\<lparr>rs_servers = []\<rparr>"] by simp

end
