(* ===== verification/XClient.thy ===== *)
theory XClient
  imports Discovery
begin

text \<open>
  The client of a service, \<^verbatim>\<open>client/xclient.go\<close>: construction from a discovery, the cache of connections,
  the fail modes of a call, closing, and the reaction to new addresses. The connections are behind
  the interface \<^verbatim>\<open>RPCClient\<close>; what they and the network do is an environment that changes a world.
\<close>

section \<open>State and environment\<close>

definition FailOver :: int where "FailOver = 0"
definition FailFast :: int where "FailFast = 1"
definition FailTry :: int where "FailTry = 2"
definition FailBackup :: int where "FailBackup = 3"

lemmas fail_modes = FailOver_def FailFast_def FailTry_def FailBackup_def

definition RandomSelect :: int where "RandomSelect = 0"

text \<open>
  \<open>env_Connect\<close> is \<^verbatim>\<open>NewClient\<close> followed by \<^verbatim>\<open>Connect\<close>; a call of an \<^verbatim>\<open>RPCClient\<close> gives an error or nil,
  the arguments and the reply being part of the world.
\<close>

record ('cl, 'w) rpc_env =
  env_Connect :: "string \<Rightarrow> string \<Rightarrow> 'w \<Rightarrow> (go_error option \<times> 'cl) \<times> 'w"
  env_Call :: "'cl \<Rightarrow> string \<Rightarrow> string \<Rightarrow> 'w \<Rightarrow> go_error option \<times> 'w"
  env_Go :: "'cl \<Rightarrow> string \<Rightarrow> string \<Rightarrow> 'w \<Rightarrow> nat \<times> 'w" \<comment> \<open>the new \<^verbatim>\<open>*Call\<close>\<close>
  env_Close :: "'cl \<Rightarrow> 'w \<Rightarrow> 'w"
  env_IsClosing :: "'cl \<Rightarrow> 'w \<Rightarrow> bool"
  env_IsShutdown :: "'cl \<Rightarrow> 'w \<Rightarrow> bool"
  env_rand :: "'w \<Rightarrow> nat \<times> 'w"

record 'cl xClient =
  xc_servicePath :: string
  xc_Retries :: int
  xc_failMode :: int
  xc_selector :: randomSelector
  xc_ch :: "pairs_chan option"
  xc_servers :: "(string, string) gomap"
  cachedClient :: "(string, 'cl) gomap"
  isShutdown :: bool
  attempts :: "('cl \<times> go_error option) list" \<comment> \<open>history: the calls made and what they returned\<close>

fun pairs_map :: "KVPair list \<Rightarrow> (string, string) gomap \<Rightarrow> (string, string) gomap" where
  "pairs_map [] m = m"
| "pairs_map (p # ps) m = pairs_map ps (gomap_set (Key p) (Value p) m)"

definition NewXClient ::
    "('d \<Rightarrow> KVPair list) \<Rightarrow> ('d \<Rightarrow> pairs_chan option \<times> 'd) \<Rightarrow> string \<Rightarrow> int \<Rightarrow> int \<Rightarrow> 'd \<Rightarrow> int \<Rightarrow> 'cl xClient \<times> 'd" where
  "NewXClient get watch servicePath failMode selectMode discovery retries =
     (let pairs = get discovery;
          servers = pairs_map pairs [];
          selector = newSelector selectMode servers;
          (ch, discovery) = watch discovery
      in (\<lparr>xc_servicePath = servicePath, xc_Retries = retries, xc_failMode = failMode, xc_selector = selector,
           xc_ch = ch, xc_servers = servers, cachedClient = [], isShutdown = False, attempts = []\<rparr>, discovery))"

section \<open>Addresses and errors\<close>

definition uncoverError :: "go_error option \<Rightarrow> bool" where
  "uncoverError err =
     (case err of
        None \<Rightarrow> True
      | Some e \<Rightarrow>
          if errors_As_ServiceError e then False
          else if errors_Is e DeadlineExceeded then False
          else if errors_Is e Canceled then False
          else True)"

text \<open>\<^verbatim>\<open>strings.SplitN(server, "@", 2)\<close>: split at the first separator, if there is one.\<close>

fun splitN2 :: "char \<Rightarrow> string \<Rightarrow> string list" where
  "splitN2 c [] = [[]]"
| "splitN2 c (x # xs) =
     (if x = c then [[], xs]
      else (case splitN2 c xs of [] \<Rightarrow> [] | s # ss \<Rightarrow> (x # s) # ss))"

definition splitNetworkAndAddress :: "string \<Rightarrow> string \<times> string" where
  "splitNetworkAndAddress server =
     (let ss = splitN2 (CHR ''@'') server
      in if length ss = 1 then (''tcp'', server) else (ss ! 0, ss ! 1))"

section \<open>The cache of connections\<close>

definition generateClient :: "('cl, 'w) rpc_env \<Rightarrow> string \<Rightarrow> 'w \<Rightarrow> (go_error option \<times> 'cl) \<times> 'w" where
  "generateClient env k w =
     (case splitNetworkAndAddress k of (network, addr) \<Rightarrow> env_Connect env network addr w)"

definition getCachedClient ::
    "('cl, 'w) rpc_env \<Rightarrow> string \<Rightarrow> 'cl xClient \<Rightarrow> 'w \<Rightarrow> (go_error + 'cl) \<times> 'cl xClient \<times> 'w" where
  "getCachedClient env k x w =
     (if isShutdown x then (Inl ErrXClientShutdown, x, w)
      else
        let generate = (\<lambda>x. case generateClient env k w of
              ((Some err, client), w) \<Rightarrow> (Inl err, x, w)
            | ((None, client), w) \<Rightarrow> (Inr client, x\<lparr>cachedClient := gomap_set k client (cachedClient x)\<rparr>, w))
        in case map_of (cachedClient x) k of
             Some client \<Rightarrow>
               if \<not> env_IsClosing env client w \<and> \<not> env_IsShutdown env client w then (Inr client, x, w)
               else generate (x\<lparr>cachedClient := gomap_del k (cachedClient x)\<rparr>)
           | None \<Rightarrow> generate x)"

definition selectClient ::
    "('cl, 'w) rpc_env \<Rightarrow> 'cl xClient \<Rightarrow> 'w \<Rightarrow> (string \<times> (go_error + 'cl)) \<times> 'cl xClient \<times> 'w" where
  "selectClient env x w =
     (let (r, w) = env_rand env w;
          k = Select r (xc_selector x)
      in if k = [] then (([], Inl ErrXClientNoServer), x, w)
         else (case getCachedClient env k x w of (res, x, w) \<Rightarrow> ((k, res), x, w)))"

definition removeClient :: "('cl, 'w) rpc_env \<Rightarrow> string \<Rightarrow> 'cl option \<Rightarrow> 'cl xClient \<Rightarrow> 'w \<Rightarrow> 'cl xClient \<times> 'w" where
  "removeClient env k client x w =
     (let x = (if client = map_of (cachedClient x) k then x\<lparr>cachedClient := gomap_del k (cachedClient x)\<rparr> else x)
      in case client of None \<Rightarrow> (x, w) | Some cl \<Rightarrow> (x, env_Close env cl w))"

definition wrapCall ::
    "('cl, 'w) rpc_env \<Rightarrow> 'cl option \<Rightarrow> string \<Rightarrow> 'cl xClient \<Rightarrow> 'w \<Rightarrow> go_error option \<times> 'cl xClient \<times> 'w" where
  "wrapCall env client method x w =
     (case client of
        None \<Rightarrow> (Some ErrServerUnavailable, x, w)
      | Some cl \<Rightarrow>
          (case env_Call env cl (xc_servicePath x) method w of
             (err, w) \<Rightarrow> (err, x\<lparr>attempts := attempts x @ [(cl, err)]\<rparr>, w)))"

section \<open>Calling\<close>

text \<open>
  The loops of \<open>FailTry\<close> and \<open>FailOver\<close> are the same up to their last statement, which gets the client
  for the next round: \<open>next k\<close> is the new key, client and error.
\<close>

definition split_result :: "go_error + 'cl \<Rightarrow> 'cl option \<times> go_error option" where
  "split_result r = (case r of Inl e \<Rightarrow> (None, Some e) | Inr cl \<Rightarrow> (Some cl, None))"

type_synonym ('cl, 'w) next_client =
  "string \<Rightarrow> 'cl xClient \<Rightarrow> 'w \<Rightarrow> (string \<times> 'cl option \<times> go_error option) \<times> 'cl xClient \<times> 'w"

definition try_next :: "('cl, 'w) rpc_env \<Rightarrow> ('cl, 'w) next_client" where
  "try_next env k x w =
     (case getCachedClient env k x w of (res, x, w) \<Rightarrow>
        (case split_result res of (client, err) \<Rightarrow> ((k, client, err), x, w)))"

definition over_next :: "('cl, 'w) rpc_env \<Rightarrow> ('cl, 'w) next_client" where
  "over_next env k x w =
     (case selectClient env x w of ((k, res), x, w) \<Rightarrow>
        (case split_result res of (client, err) \<Rightarrow> ((k, client, err), x, w)))"

text \<open>One round: either the call is over, or a client for the next round was looked for.\<close>

definition retry_round ::
    "('cl, 'w) rpc_env \<Rightarrow> ('cl, 'w) next_client \<Rightarrow> string
     \<Rightarrow> string \<times> 'cl option \<times> go_error option \<Rightarrow> 'cl xClient \<Rightarrow> 'w
     \<Rightarrow> (go_error option + string \<times> 'cl option \<times> go_error option) \<times> 'cl xClient \<times> 'w" where
  "retry_round env next method cur x w =
     (case cur of (k, client, err) \<Rightarrow>
        let again = (\<lambda>err x w.
              case (if uncoverError err then removeClient env k client x w else (x, w)) of (x, w) \<Rightarrow>
              (case next k x w of (cur, x, w) \<Rightarrow> (Inr cur, x, w)))
        in if client \<noteq> None then
             (case wrapCall env client method x w of (err, x, w) \<Rightarrow>
                if err = None then (Inl None, x, w)
                else if \<not> uncoverError err then (Inl err, x, w)
                else again err x w)
           else again err x w)"

function retry_loop ::
    "('cl, 'w) rpc_env \<Rightarrow> ('cl, 'w) next_client \<Rightarrow> string \<Rightarrow> int
     \<Rightarrow> string \<times> 'cl option \<times> go_error option \<Rightarrow> 'cl xClient \<Rightarrow> 'w \<Rightarrow> go_error option \<times> 'cl xClient \<times> 'w" where
  "retry_loop env next method retries cur x w =
     (if retries \<ge> 0 then
        (case retry_round env next method cur x w of
           (Inl res, x, w) \<Rightarrow> (res, x, w)
         | (Inr cur, x, w) \<Rightarrow> retry_loop env next method (retries - 1) cur x w)
      else (snd (snd cur), x, w))"
  by pat_completeness auto
termination
  by (relation "measure (\<lambda>(env, next, method, retries, cur, x, w). nat (retries + 1))") auto

declare retry_loop.simps [simp del]

definition XCall :: "('cl, 'w) rpc_env \<Rightarrow> string \<Rightarrow> 'cl xClient \<Rightarrow> 'w \<Rightarrow> go_error option \<times> 'cl xClient \<times> 'w" where
  "XCall env method x w =
     (if isShutdown x then (Some ErrXClientShutdown, x, w)
      else
        (case selectClient env x w of ((k, res), x, w) \<Rightarrow>
           (case split_result res of (client, err) \<Rightarrow>
              if err \<noteq> None \<and> xc_failMode x = FailFast then (err, x, w)
              else if xc_failMode x = FailTry then retry_loop env (try_next env) method (xc_Retries x) (k, client, err) x w
              else if xc_failMode x = FailOver then retry_loop env (over_next env) method (xc_Retries x) (k, client, err) x w
              else if xc_failMode x = FailFast then
                (case wrapCall env client method x w of (err, x, w) \<Rightarrow>
                   if err \<noteq> None \<and> uncoverError err
                   then (case removeClient env k client x w of (x, w) \<Rightarrow> (err, x, w))
                   else (err, x, w))
              else (Some (NewError ''failMode not supported''), x, w))))"

text \<open>The asynchronous call; the fail mode plays no part.\<close>

definition XGo :: "('cl, 'w) rpc_env \<Rightarrow> string \<Rightarrow> 'cl xClient \<Rightarrow> 'w \<Rightarrow> (go_error + nat) \<times> 'cl xClient \<times> 'w" where
  "XGo env method x w =
     (if isShutdown x then (Inl ErrXClientShutdown, x, w)
      else
        (case selectClient env x w of
           ((k, Inl err), x, w) \<Rightarrow> (Inl err, x, w)
         | ((k, Inr client), x, w) \<Rightarrow>
             (case env_Go env client (xc_servicePath x) method w of (call, w) \<Rightarrow> (Inr call, x, w))))"

section \<open>Closing, and new addresses\<close>

fun close_loop :: "('cl, 'w) rpc_env \<Rightarrow> (string \<times> 'cl) list \<Rightarrow> 'cl xClient \<Rightarrow> 'w \<Rightarrow> 'cl xClient \<times> 'w" where
  "close_loop env [] x w = (x, w)"
| "close_loop env ((k, client) # cs) x w =
     close_loop env cs (x\<lparr>cachedClient := gomap_del k (cachedClient x)\<rparr>) (env_Close env client w)"

definition XClose :: "('cl, 'w) rpc_env \<Rightarrow> 'cl xClient \<Rightarrow> 'w \<Rightarrow> go_error option \<times> 'cl xClient \<times> 'w" where
  "XClose env x w =
     (let x = x\<lparr>isShutdown := True\<rparr>
      in case close_loop env (cachedClient x) x w of (x, w) \<Rightarrow> (None, x, w))"

definition watch_update :: "KVPair list \<Rightarrow> 'cl xClient \<Rightarrow> 'cl xClient" where
  \<comment> \<open>the body of the loop in \<^verbatim>\<open>watch\<close>\<close>
  "watch_update pairs x =
     (let servers = pairs_map pairs [];
          x = x\<lparr>xc_servers := servers\<rparr>
      in x\<lparr>xc_selector := UpdateServer servers (xc_selector x)\<rparr>)"


section \<open>What the operations leave alone\<close>

lemma getCachedClient_keeps:
  assumes "getCachedClient env k x w = (res, x', w')"
  shows "attempts x' = attempts x" "isShutdown x' = isShutdown x" "xc_selector x' = xc_selector x"
    "xc_Retries x' = xc_Retries x" "xc_failMode x' = xc_failMode x" "xc_servicePath x' = xc_servicePath x"
  using assms by (auto simp: getCachedClient_def Let_def split: if_splits option.splits prod.splits)

lemma selectClient_keeps:
  assumes "selectClient env x w = (res, x', w')"
  shows "attempts x' = attempts x" "isShutdown x' = isShutdown x" "xc_selector x' = xc_selector x"
    "xc_Retries x' = xc_Retries x" "xc_failMode x' = xc_failMode x" "xc_servicePath x' = xc_servicePath x"
  using assms
  by (auto simp: selectClient_def Let_def dest: getCachedClient_keeps split: if_splits prod.splits)

lemma removeClient_keeps:
  assumes "removeClient env k client x w = (x', w')"
  shows "attempts x' = attempts x" "isShutdown x' = isShutdown x" "xc_selector x' = xc_selector x"
  using assms by (auto simp: removeClient_def Let_def split: if_splits option.splits)

text \<open>A way to get the next client that makes no call itself.\<close>

definition quiet :: "('cl, 'w) next_client \<Rightarrow> bool" where
  "quiet next \<longleftrightarrow> (\<forall>k x w cur x' w'. next k x w = (cur, x', w') \<longrightarrow>
     attempts x' = attempts x \<and> isShutdown x' = isShutdown x \<and> xc_selector x' = xc_selector x)"

lemma quietD:
  assumes "quiet next" "next k x w = (cur, x', w')"
  shows "attempts x' = attempts x" "isShutdown x' = isShutdown x" "xc_selector x' = xc_selector x"
  using assms unfolding quiet_def by blast+

lemma quiet_next: "quiet (try_next env)" "quiet (over_next env)"
  by (auto simp: quiet_def try_next_def over_next_def dest: getCachedClient_keeps selectClient_keeps split: prod.splits)

section \<open>Attempts\<close>

text \<open>An attempt that failed in a way the client may try again: neither a success nor an answer from the service nor a cancelled context.\<close>

definition transient :: "go_error option \<Rightarrow> bool" where
  "transient r \<longleftrightarrow> r \<noteq> None \<and> uncoverError r"

definition explained :: "go_error option list \<Rightarrow> go_error option \<Rightarrow> bool" where
  "explained rs res \<longleftrightarrow>
     (\<exists>prior. rs = prior @ [res] \<and> list_all transient prior \<and> \<not> transient res) \<or> list_all transient rs"

lemma explained_simps [simp]: "explained [] res" "\<not> transient res \<Longrightarrow> explained [res] res" "transient r \<Longrightarrow> explained [r] res"
  by (simp_all add: explained_def)

lemma explained_Cons: "transient r \<Longrightarrow> explained rs res \<Longrightarrow> explained (r # rs) res"
  unfolding explained_def
proof (elim disjE exE conjE)
  fix prior
  assume "transient r" "rs = prior @ [res]" "list_all transient prior" "\<not> transient res"
  then show "(\<exists>prior. r # rs = prior @ [res] \<and> list_all transient prior \<and> \<not> transient res) \<or> list_all transient (r # rs)"
    by (intro disjI1 exI [of _ "r # prior"]) simp
qed simp

lemma wrapCall_Some:
  "wrapCall env (Some cl) m x w =
    (fst (env_Call env cl (xc_servicePath x) m w),
     x\<lparr>attempts := attempts x @ [(cl, fst (env_Call env cl (xc_servicePath x) m w))]\<rparr>,
     snd (env_Call env cl (xc_servicePath x) m w))"
  by (simp add: wrapCall_def split: prod.split)

text \<open>The result of an attempt is what the connection answered.\<close>

definition answered :: "('cl, 'w) rpc_env \<Rightarrow> string \<Rightarrow> 'cl \<times> go_error option \<Rightarrow> bool" where
  "answered env m a \<longleftrightarrow> (\<exists>sp w. snd a = fst (env_Call env (fst a) sp m w))"

lemma answeredI [simp]: "answered env m (cl, fst (env_Call env cl sp m w))"
  by (auto simp: answered_def)

lemma answered_eqI: "fst (env_Call env cl sp m w) = e \<Longrightarrow> answered env m (cl, e)"
  by (auto simp: answered_def)

lemma retry_round_over:
  assumes "retry_round env next m (k, client, err) x w = (Inl res, x', w')"
  shows "\<exists>cl. client = Some cl \<and> attempts x' = attempts x @ [(cl, res)] \<and> \<not> transient res \<and> answered env m (cl, res)"
proof (cases client)
  case None
  then show ?thesis using assms by (auto simp: retry_round_def Let_def split: prod.splits if_splits)
next
  case (Some cl)
  then show ?thesis
    using assms
    by (auto simp: retry_round_def Let_def wrapCall_Some transient_def intro: answered_eqI split: prod.splits if_splits)
qed

lemma retry_round_again:
  assumes "retry_round env next m (k, client, err) x w = (Inr cur, x', w')" "quiet next"
  shows "isShutdown x' = isShutdown x \<and> xc_selector x' = xc_selector x \<and>
    (client = None \<and> attempts x' = attempts x \<or>
     (\<exists>cl e. client = Some cl \<and> attempts x' = attempts x @ [(cl, e)] \<and> transient e \<and> answered env m (cl, e)))"
proof -
  define call where "call = wrapCall env client m x w"
  obtain e y v where call_eq: "call = (e, y, v)" by (cases call) auto
  define e1 where "e1 = (if client = None then err else e)"
  define y1 where "y1 = (if client = None then x else y)"
  define v1 where "v1 = (if client = None then w else v)"
  obtain z u where rem: "(if uncoverError e1 then removeClient env k client y1 v1 else (y1, v1)) = (z, u)"
    by fastforce
  have nxt: "next k z u = (cur, x', w')"
    using assms(1) rem call_eq unfolding call_def e1_def y1_def v1_def
    by (auto simp: retry_round_def Let_def split: prod.splits if_splits)
  have "attempts x' = attempts y1" "isShutdown x' = isShutdown y1" "xc_selector x' = xc_selector y1"
    using quietD [OF assms(2) nxt] rem by (auto dest: removeClient_keeps split: if_splits)
  moreover have "client \<noteq> None \<Longrightarrow> transient e"
    using assms(1) call_eq unfolding call_def
    by (auto simp: retry_round_def Let_def transient_def split: prod.splits if_splits)
  ultimately show ?thesis
    using call_eq unfolding call_def y1_def by (cases client) (auto simp: wrapCall_Some)
qed

lemma retry_loop_attempts:
  assumes "retry_loop env next m retries cur x w = (res, x', w')" "quiet next"
  shows "\<exists>as. attempts x' = attempts x @ as \<and> length as \<le> nat (retries + 1) \<and> explained (map snd as) res \<and>
    list_all (answered env m) as"
  using assms
proof (induction env "next" m retries cur x w rule: retry_loop.induct)
  case (1 env "next" m retries cur x w)
  obtain k client err where cur: "cur = (k, client, err)" by (cases cur)
  show ?case
  proof (cases "0 \<le> retries")
    case False
    then show ?thesis using "1.prems"(1) by (auto simp: retry_loop.simps [of _ _ _ retries])
  next
    case True
    obtain r y v where round: "retry_round env next m cur x w = (r, y, v)" by (metis prod_cases3)
    show ?thesis
    proof (cases r)
      case (Inl e)
      then obtain cl where "attempts y = attempts x @ [(cl, e)]" "\<not> transient e" "answered env m (cl, e)"
        using retry_round_over round cur by metis
      moreover have "res = e" "x' = y"
        using "1.prems"(1) True round Inl by (simp_all add: retry_loop.simps [of _ _ _ retries])
      ultimately show ?thesis using True by auto
    next
      case (Inr cur')
      have "retry_loop env next m (retries - 1) cur' y v = (res, x', w')"
        using "1.prems"(1) True round Inr by (simp add: retry_loop.simps [of _ _ _ retries])
      then obtain as where as: "attempts x' = attempts y @ as" "length as \<le> nat retries" "explained (map snd as) res"
          "list_all (answered env m) as"
        using "1.IH" [OF True round [symmetric] _ refl] Inr "1.prems"(2) by fastforce
      consider "attempts y = attempts x" | cl e where "attempts y = attempts x @ [(cl, e)]" "transient e" "answered env m (cl, e)"
        using retry_round_again round cur Inr "1.prems"(2) by metis
      then show ?thesis
      proof cases
        case 1
        then show ?thesis using as True by (intro exI [of _ as]) auto
      next
        case (2 cl e)
        then show ?thesis using as True explained_Cons by (intro exI [of _ "(cl, e) # as"]) auto
      qed
    qed
  qed
qed

lemma XCall_attempts:
  assumes "XCall env m x w = (res, x', w')"
  shows "\<exists>as. attempts x' = attempts x @ as \<and> length as \<le> max 1 (nat (xc_Retries x + 1)) \<and> explained (map snd as) res \<and>
    list_all (answered env m) as"
proof (cases "isShutdown x")
  case True
  then show ?thesis using assms by (auto simp: XCall_def)
next
  case False
  obtain k r y v where sel: "selectClient env x w = ((k, r), y, v)" by (metis prod_cases3 prod.exhaust)
  obtain client err where r: "split_result r = (client, err)" by fastforce
  note keeps = selectClient_keeps [OF sel]
  note loops = retry_loop_attempts [OF _ quiet_next(1) [of env]] retry_loop_attempts [OF _ quiet_next(2) [of env]]
  have fast: "explained (map snd [(cl, e)]) e" if "xc_failMode y = FailFast" for cl :: 'a and e
    by (cases "transient e") simp_all
  show ?thesis
  proof (cases "xc_failMode y = FailTry \<or> xc_failMode y = FailOver")
    case True
    then have "retry_loop env (try_next env) m (xc_Retries y) (k, client, err) y v = (res, x', w') \<or>
        retry_loop env (over_next env) m (xc_Retries y) (k, client, err) y v = (res, x', w')"
      using assms False sel r by (auto simp: XCall_def fail_modes)
    then have "\<exists>as. attempts x' = attempts y @ as \<and> length as \<le> nat (xc_Retries y + 1) \<and> explained (map snd as) res \<and>
        list_all (answered env m) as"
      using loops by blast
    then show ?thesis using keeps by auto
  next
    case other: False
    show ?thesis
    proof (cases client)
      case None
      then have "err \<noteq> None" using r by (auto simp: split_result_def split: sum.splits)
      then have "attempts x' = attempts y"
        using assms False sel r other None by (auto simp: XCall_def split: if_splits)
      then show ?thesis using keeps by auto
    next
      case (Some cl)
      then have "attempts x' = attempts y \<or> attempts x' = attempts y @ [(cl, res)] \<and> answered env m (cl, res)"
        using assms False sel r other
        by (auto simp: XCall_def wrapCall_Some dest: removeClient_keeps intro: answered_eqI split: if_splits prod.splits)
      then show ?thesis
        using keeps by (cases "transient res") (auto intro: exI [of _ "[(cl, res)]"])
    qed
  qed
qed


section \<open>The cache\<close>

lemma getCachedClient_Inr:
  assumes "getCachedClient env k x w = (Inr cl, x', w')"
  shows "map_of (cachedClient x') k = Some cl \<and> \<not> isShutdown x \<and>
    (\<forall>k'. k' \<noteq> k \<longrightarrow> map_of (cachedClient x') k' = map_of (cachedClient x) k') \<and>
    (x' = x \<and> w' = w \<and> \<not> env_IsClosing env cl w \<and> \<not> env_IsShutdown env cl w \<or>
     generateClient env k w = ((None, cl), w'))"
  using assms by (auto simp: getCachedClient_def Let_def split: if_splits option.splits prod.splits)

lemma getCachedClient_connects:
  assumes "\<not> isShutdown x" "\<And>n a w. fst (fst (env_Connect env n a w)) = None"
  shows "\<exists>cl x' w'. getCachedClient env k x w = (Inr cl, x', w')"
proof -
  obtain n a where s: "splitNetworkAndAddress k = (n, a)" by fastforce
  obtain cl w' where "env_Connect env n a w = ((None, cl), w')"
    using assms(2) [of n a w] by (metis prod.collapse)
  then show ?thesis
    using assms(1) s by (auto simp: getCachedClient_def generateClient_def Let_def split: option.split)
qed

section \<open>When every attempt fails\<close>

text \<open>A way to get the next client that always finds one.\<close>

definition finds :: "('cl, 'w) next_client \<Rightarrow> 'cl xClient \<Rightarrow> bool" where
  "finds next x0 \<longleftrightarrow> (\<forall>k x w. \<not> isShutdown x \<longrightarrow> xc_selector x = xc_selector x0 \<longrightarrow>
     (\<exists>k' cl x' w'. next k x w = ((k', Some cl, None), x', w')))"

lemma finds_next:
  fixes env :: "('cl, 'w) rpc_env"
  assumes "\<And>n a w. fst (fst (env_Connect env n a w)) = None"
    and "rs_servers (xc_selector x0) \<noteq> []" "[] \<notin> set (rs_servers (xc_selector x0))"
  shows "finds (try_next env) x0" "finds (over_next env) x0"
proof -
  have conn: "\<exists>cl x' w'. getCachedClient env k x w = (Inr cl, x', w')" if "\<not> isShutdown x" for k x w
    by (rule getCachedClient_connects [OF that assms(1)])
  show "finds (try_next env) x0"
    unfolding finds_def
  proof (intro allI impI)
    fix k and x :: "'cl xClient" and w
    assume "\<not> isShutdown x"
    then obtain cl x' w' where "getCachedClient env k x w = (Inr cl, x', w')" using conn by blast
    then show "\<exists>k' cl x' w'. try_next env k x w = ((k', Some cl, None), x', w')"
      by (simp add: try_next_def split_result_def)
  qed
  show "finds (over_next env) x0"
    unfolding finds_def
  proof (intro allI impI)
    fix k and x :: "'cl xClient" and w
    assume x: "\<not> isShutdown x" "xc_selector x = xc_selector x0"
    obtain r v where r: "env_rand env w = (r, v)" by fastforce
    have "Select r (xc_selector x) \<noteq> []"
      using random.select_none_iff [of "xc_selector x0" r] assms(2,3) x(2) by simp
    moreover obtain cl x' w' where "getCachedClient env (Select r (xc_selector x)) x v = (Inr cl, x', w')"
      using conn [OF x(1)] by blast
    ultimately show "\<exists>k' cl x' w'. over_next env k x w = ((k', Some cl, None), x', w')"
      by (simp add: over_next_def selectClient_def r split_result_def)
  qed
qed

lemma retry_loop_all_fail:
  assumes "finds next x0" "quiet next" "\<And>cl sp w. transient (fst (env_Call env cl sp m w))"
    and "\<not> isShutdown x" "xc_selector x = xc_selector x0"
  shows "fst (retry_loop env next m retries (k, Some cl, None) x w) = None"
  using assms(4,5)
proof (induction "nat (retries + 1)" arbitrary: retries k cl x w)
  case 0
  then show ?case by (simp add: retry_loop.simps [of _ _ _ retries])
next
  case (Suc n)
  obtain r y v where round: "retry_round env next m (k, Some cl, None) x w = (r, y, v)" by (metis prod_cases3)
  have t: "transient (fst (env_Call env cl (xc_servicePath x) m w))" by (rule assms(3))
  show ?case
  proof (cases r)
    case (Inl e)
    then obtain c' where "attempts y = attempts x @ [(c', e)]" "\<not> transient e"
      using retry_round_over round by metis
    moreover have "e = fst (env_Call env cl (xc_servicePath x) m w)"
      using round Inl by (auto simp: retry_round_def Let_def wrapCall_Some split: prod.splits if_splits)
    ultimately show ?thesis using t by simp
  next
    case (Inr cur)
    have same: "\<not> isShutdown y" "xc_selector y = xc_selector x0"
      using retry_round_again [OF round [unfolded Inr] assms(2)] Suc.prems by auto
    define z where "z = removeClient env k (Some cl) (fst (snd (wrapCall env (Some cl) m x w))) (snd (snd (wrapCall env (Some cl) m x w)))"
    have z: "\<not> isShutdown (fst z)" "xc_selector (fst z) = xc_selector x0"
      using Suc.prems removeClient_keeps(2,3) [of env k "Some cl" _ _ "fst z" "snd z"]
      by (auto simp: z_def wrapCall_Some)
    then obtain k' cl' x' w' where nxt: "next k (fst z) (snd z) = ((k', Some cl', None), x', w')"
      using assms(1) unfolding finds_def by blast
    have "uncoverError (fst (env_Call env cl (xc_servicePath x) m w))" "fst (env_Call env cl (xc_servicePath x) m w) \<noteq> None"
      using t by (simp_all add: transient_def)
    then have "retry_round env next m (k, Some cl, None) x w = (Inr (k', Some cl', None), x', w')"
      using nxt by (simp add: retry_round_def Let_def wrapCall_Some z_def case_prod_beta)
    then have "cur = (k', Some cl', None)" using round Inr by simp
    moreover have "0 \<le> retries" using Suc.hyps(2) by simp
    ultimately show ?thesis
      using Suc.hyps(1) [of "retries - 1" y k' cl' v] Suc.hyps(2) same round Inr
      by (simp add: retry_loop.simps [of _ _ _ retries])
  qed
qed

lemma retry_loop_some_attempt:
  assumes "retry_loop env next m retries (k, Some cl, err) x w = (res, x', w')" "quiet next" "0 \<le> retries"
  shows "attempts x' \<noteq> attempts x"
proof -
  obtain r y v where round: "retry_round env next m (k, Some cl, err) x w = (r, y, v)" by (metis prod_cases3)
  show ?thesis
  proof (cases r)
    case (Inl e)
    then show ?thesis
      using retry_round_over [of env "next" m k "Some cl" err x w e y v] round assms(1,3)
      by (auto simp: retry_loop.simps [of _ _ _ retries])
  next
    case (Inr cur)
    have "retry_loop env next m (retries - 1) cur y v = (res, x', w')"
      using assms(1,3) round Inr by (simp add: retry_loop.simps [of _ _ _ retries])
    then obtain as where "attempts x' = attempts y @ as"
      using retry_loop_attempts assms(2) by metis
    then show ?thesis
      using retry_round_again [OF round [unfolded Inr] assms(2)] by auto
  qed
qed

section \<open>New addresses\<close>

lemma fst_pairs_map: "fst ` set (pairs_map ps m) = Key ` set ps \<union> fst ` set m"
  by (induction ps arbitrary: m) (auto simp: dom_update)

lemma watch_update_candidates: "set (rs_servers (xc_selector (watch_update ps x))) = Key ` set ps"
  using random.update_candidates [of "pairs_map ps []" "xc_selector x"]
  by (simp add: watch_update_def Let_def fst_pairs_map)

lemma close_loop_eq:
  "close_loop env cs x w = (x\<lparr>cachedClient := fold (\<lambda>(k, cl). gomap_del k) cs (cachedClient x)\<rparr>, fold (\<lambda>(k, cl). env_Close env cl) cs w)"
  by (induction env cs x w rule: close_loop.induct) auto

lemma fold_del_empty: "fst ` set m \<subseteq> fst ` set cs \<Longrightarrow> fold (\<lambda>(k, cl). gomap_del k) cs m = []"
proof (induction cs arbitrary: m)
  case Nil
  then show ?case by simp
next
  case (Cons c cs)
  obtain k cl where c: "c = (k, cl)" by fastforce
  have "fst ` set (gomap_del k m) \<subseteq> fst ` set cs"
    using Cons.prems by (auto simp: c AList.delete_eq)
  then show ?case using Cons.IH by (simp add: c)
qed

section \<open>What a call returns when no attempt decides it\<close>










section \<open>Whom a client is connected to\<close>

text \<open>
  \<open>tag\<close> gives the network and address a connection was made to; \<open>dials\<close> says that connecting makes a
  connection to what it was given. Then a cached connection is one to the server it is cached for.
\<close>

definition dials :: "('cl, 'w) rpc_env \<Rightarrow> ('cl \<Rightarrow> string \<times> string) \<Rightarrow> bool" where
  "dials env tag \<longleftrightarrow> (\<forall>n a w cl w'. env_Connect env n a w = ((None, cl), w') \<longrightarrow> tag cl = (n, a))"

definition cache_ok :: "('cl \<Rightarrow> string \<times> string) \<Rightarrow> 'cl xClient \<Rightarrow> bool" where
  "cache_ok tag x \<longleftrightarrow> (\<forall>k cl. map_of (cachedClient x) k = Some cl \<longrightarrow> tag cl = splitNetworkAndAddress k)"

lemma cache_ok_cong: "cachedClient x' = cachedClient x \<Longrightarrow> cache_ok tag x' = cache_ok tag x"
  by (simp add: cache_ok_def)

lemma generateClient_tag: "dials env tag \<Longrightarrow> generateClient env k w = ((None, cl), w') \<Longrightarrow> tag cl = splitNetworkAndAddress k"
  unfolding dials_def generateClient_def by (cases "splitNetworkAndAddress k") fastforce

lemma getCachedClient_tag:
  assumes "getCachedClient env k x w = (r, x', w')" "dials env tag" "cache_ok tag x"
  shows "cache_ok tag x' \<and> (\<forall>cl. r = Inr cl \<longrightarrow> tag cl = splitNetworkAndAddress k)"
  using assms generateClient_tag [OF assms(2), of k]
  by (auto simp: getCachedClient_def Let_def cache_ok_def split: if_splits option.splits prod.splits)

lemma selectClient_tag:
  assumes "selectClient env x w = ((k, r), x', w')" "dials env tag" "cache_ok tag x"
  shows "cache_ok tag x' \<and> (\<forall>cl. r = Inr cl \<longrightarrow> tag cl = splitNetworkAndAddress k \<and> k \<in> set (rs_servers (xc_selector x)))"
proof -
  obtain q v where q: "env_rand env w = (q, v)" by fastforce
  define key where "key = Select q (xc_selector x)"
  have mem: "key \<noteq> [] \<Longrightarrow> key \<in> set (rs_servers (xc_selector x))"
    using random.select_mem [of "xc_selector x" q] random.select_none [of "xc_selector x" q] by (auto simp: key_def)
  show ?thesis
    using assms q mem getCachedClient_tag [of env key x v _ _ _ tag]
    by (auto simp: selectClient_def key_def [symmetric] split: if_splits prod.splits)
qed

lemma removeClient_tag: "removeClient env k client x w = (x', w') \<Longrightarrow> cache_ok tag x \<Longrightarrow> cache_ok tag x'"
  by (auto simp: removeClient_def Let_def cache_ok_def split: if_splits option.splits)

lemma NewXClient_cache_ok: "cache_ok tag (fst (NewXClient get watch sp mode sel d retries))"
  by (simp add: NewXClient_def cache_ok_def Let_def split: prod.split)

lemma watch_update_cache_ok [simp]: "cache_ok tag (watch_update ps x) = cache_ok tag x"
  by (rule cache_ok_cong) (simp add: watch_update_def Let_def)

lemma XClose_cache_ok: "XClose env x w = (e, x', w') \<Longrightarrow> cache_ok tag x'"
  using fold_del_empty [of "cachedClient x" "cachedClient x"]
  by (auto simp: XClose_def Let_def close_loop_eq cache_ok_def)

text \<open>A way to get the next client that, from an acceptable key, leads only to the servers in \<open>K\<close>.\<close>

definition stays ::
    "('cl \<Rightarrow> string \<times> string) \<Rightarrow> randomSelector \<Rightarrow> (string \<Rightarrow> bool) \<Rightarrow> string set \<Rightarrow> ('cl, 'w) next_client \<Rightarrow> bool" where
  "stays tag sel Q K next \<longleftrightarrow>
     (\<forall>k x w k' client err x' w'. Q k \<longrightarrow> cache_ok tag x \<longrightarrow> xc_selector x = sel \<longrightarrow> next k x w = ((k', client, err), x', w') \<longrightarrow>
        Q k' \<and> cache_ok tag x' \<and> (\<forall>cl. client = Some cl \<longrightarrow> tag cl \<in> splitNetworkAndAddress ` K))"

lemma stays_try: "dials env tag \<Longrightarrow> stays tag sel (\<lambda>k. k \<in> K) K (try_next env)"
  by (auto simp: stays_def try_next_def split_result_def dest: getCachedClient_tag split: prod.splits sum.splits)

lemma stays_over: "dials env tag \<Longrightarrow> stays tag sel (\<lambda>k. True) (set (rs_servers sel)) (over_next env)"
  by (auto simp: stays_def over_next_def split_result_def dest: selectClient_tag split: prod.splits sum.splits)

lemma retry_round_tag:
  assumes "retry_round env next m (k, client, err) x w = (r, x', w')" "stays tag (xc_selector x) Q K next"
    and "Q k" "cache_ok tag x"
  shows "cache_ok tag x' \<and> (\<forall>k' client' err'. r = Inr (k', client', err') \<longrightarrow>
    Q k' \<and> (\<forall>cl. client' = Some cl \<longrightarrow> tag cl \<in> splitNetworkAndAddress ` K))"
proof (cases r)
  case (Inl e)
  then show ?thesis
    using assms(1,4)
    by (cases client) (auto simp: retry_round_def Let_def wrapCall_Some cache_ok_def split: prod.splits if_splits)
next
  case (Inr cur)
  have "\<exists>y v e1. (y = x \<or> (\<exists>a. y = x\<lparr>attempts := a\<rparr>)) \<and>
      (case (if uncoverError e1 then removeClient env k client y v else (y, v)) of (z, u) \<Rightarrow> next k z u) = (cur, x', w')"
  proof (cases client)
    case None
    have "(case (if uncoverError err then removeClient env k client x w else (x, w)) of (z, u) \<Rightarrow> next k z u) = (cur, x', w')"
      using assms(1) unfolding Inr None
      by (cases "uncoverError err") (simp_all add: retry_round_def Let_def split: prod.splits)
    then show ?thesis by blast
  next
    case (Some cl)
    let ?e = "fst (env_Call env cl (xc_servicePath x) m w)" and ?v = "snd (env_Call env cl (xc_servicePath x) m w)"
    let ?y = "x\<lparr>attempts := attempts x @ [(cl, ?e)]\<rparr>"
    have "(case (if uncoverError ?e then removeClient env k client ?y ?v else (?y, ?v)) of (z, u) \<Rightarrow> next k z u) = (cur, x', w')"
      using assms(1) unfolding Inr Some
      by (cases "?e = None"; cases "uncoverError ?e") (simp_all add: retry_round_def Let_def wrapCall_Some split: prod.splits)
    then show ?thesis by blast
  qed
  then obtain y v e1 where y: "y = x \<or> (\<exists>a. y = x\<lparr>attempts := a\<rparr>)"
      and nxt: "(case (if uncoverError e1 then removeClient env k client y v else (y, v)) of (z, u) \<Rightarrow> next k z u) = (cur, x', w')"
    by blast
  obtain z u where z: "(if uncoverError e1 then removeClient env k client y v else (y, v)) = (z, u)" by fastforce
  have "cache_ok tag y" "xc_selector y = xc_selector x" using y assms(4) by (auto simp: cache_ok_def)
  then have "cache_ok tag z" "xc_selector z = xc_selector x"
    using z removeClient_tag removeClient_keeps(3) by (metis prod.inject)+
  moreover obtain k' client' err' where cur: "cur = (k', client', err')" by (cases cur)
  moreover have "next k z u = ((k', client', err'), x', w')" using nxt z cur by simp
  ultimately have "Q k' \<and> cache_ok tag x' \<and> (\<forall>cl. client' = Some cl \<longrightarrow> tag cl \<in> splitNetworkAndAddress ` K)"
    using assms(2,3) unfolding stays_def by blast
  then show ?thesis using Inr cur by simp
qed

lemma retry_loop_tag:
  assumes "retry_loop env next m retries (k, client, err) x w = (res, x', w')" "quiet next"
    and "stays tag (xc_selector x) Q K next" "Q k" "cache_ok tag x"
    and "\<And>cl. client = Some cl \<Longrightarrow> tag cl \<in> splitNetworkAndAddress ` K"
  shows "cache_ok tag x' \<and> (\<exists>as. attempts x' = attempts x @ as \<and> list_all (\<lambda>a. tag (fst a) \<in> splitNetworkAndAddress ` K) as)"
  using assms
proof (induction "nat (retries + 1)" arbitrary: retries k client err x w)
  case 0
  then show ?case by (simp add: retry_loop.simps [of _ _ _ retries])
next
  case (Suc n)
  have pos: "0 \<le> retries" "n = nat (retries - 1 + 1)" using Suc.hyps(2) by simp_all
  obtain r y v where round: "retry_round env next m (k, client, err) x w = (r, y, v)" by (metis prod_cases3)
  note tagged = retry_round_tag [OF round Suc.prems(3-5)]
  show ?case
  proof (cases r)
    case (Inl e)
    then obtain cl where "client = Some cl" "attempts y = attempts x @ [(cl, e)]"
      using retry_round_over round by metis
    moreover have "x' = y"
      using Suc.prems(1) pos round Inl by (simp add: retry_loop.simps [of _ _ _ retries])
    ultimately show ?thesis using tagged Suc.prems(6) by auto
  next
    case (Inr cur)
    obtain k' client' err' where cur: "cur = (k', client', err')" by (cases cur)
    have loop: "retry_loop env next m (retries - 1) (k', client', err') y v = (res, x', w')"
      using Suc.prems(1) pos round Inr cur by (simp add: retry_loop.simps [of _ _ _ retries])
    have again: "xc_selector y = xc_selector x" "attempts y = attempts x \<or> (\<exists>cl e. client = Some cl \<and> attempts y = attempts x @ [(cl, e)])"
      using retry_round_again [OF round [unfolded Inr] Suc.prems(2)] by auto
    obtain as where "cache_ok tag x'" "attempts x' = attempts y @ as"
        "list_all (\<lambda>a. tag (fst a) \<in> splitNetworkAndAddress ` K) as"
      using Suc.hyps(1) [OF pos(2) loop Suc.prems(2)] Suc.prems(3) tagged again(1) Inr cur by auto
    then show ?thesis using again(2) Suc.prems(6) by auto
  qed
qed

lemma XCall_tag:
  assumes "XCall env m x w = (res, x', w')" "dials env tag" "cache_ok tag x"
    and "rs_servers (xc_selector x) \<noteq> [] \<or> xc_failMode x \<noteq> FailTry" "[] \<notin> set (rs_servers (xc_selector x))"
  shows "cache_ok tag x' \<and> (\<exists>as. attempts x' = attempts x @ as \<and>
    list_all (\<lambda>a. tag (fst a) \<in> splitNetworkAndAddress ` set (rs_servers (xc_selector x))) as)"
proof (cases "isShutdown x")
  case True
  then show ?thesis using assms(1,3) by (auto simp: XCall_def)
next
  case False
  let ?K = "set (rs_servers (xc_selector x))"
  obtain k r y v where sel: "selectClient env x w = ((k, r), y, v)" by (metis prod_cases3 prod.exhaust)
  obtain client err where r: "split_result r = (client, err)" by fastforce
  note keeps = selectClient_keeps [OF sel] and tagged = selectClient_tag [OF sel assms(2,3)]
  have cl: "tag cl \<in> splitNetworkAndAddress ` ?K" if "client = Some cl" for cl
    using tagged r that by (auto simp: split_result_def split: sum.splits)
  show ?thesis
  proof (cases "xc_failMode x = FailTry")
    case True
    then have "retry_loop env (try_next env) m (xc_Retries y) (k, client, err) y v = (res, x', w')"
      using assms(1) False sel r keeps by (auto simp: XCall_def fail_modes)
    moreover have "k \<in> ?K"
    proof -
      obtain q u where q: "env_rand env w = (q, u)" by fastforce
      have "rs_servers (xc_selector x) \<noteq> []" using True assms(4) by simp
      then have "Select q (xc_selector x) \<in> ?K" by (simp add: random.select_mem)
      then show ?thesis using sel q assms(5) by (auto simp: selectClient_def Let_def split: if_splits prod.splits)
    qed
    ultimately show ?thesis
      using retry_loop_tag [OF _ quiet_next(1) stays_try [OF assms(2), of _ ?K]] tagged cl keeps(1) by metis
  next
    case not_try: False
    show ?thesis
    proof (cases "xc_failMode x = FailOver")
      case True
      then have loop: "retry_loop env (over_next env) m (xc_Retries y) (k, client, err) y v = (res, x', w')"
        using assms(1) False sel r keeps by (auto simp: XCall_def fail_modes)
      show ?thesis
        using retry_loop_tag [OF loop quiet_next(2) stays_over [OF assms(2)]] tagged cl keeps by simp
    next
      case over: False
      have same: "cachedClient z = cachedClient y \<Longrightarrow> cache_ok tag z" for z using tagged by (simp add: cache_ok_def)
      show ?thesis
      proof (cases client)
        case None
        then have "x' = y"
          using assms(1) False sel r not_try over keeps by (auto simp: XCall_def split_result_def split: if_splits sum.splits)
        then show ?thesis using tagged keeps by auto
      next
        case (Some c)
        let ?y = "\<lambda>e. y\<lparr>attempts := attempts y @ [(c, e)]\<rparr>"
        have fast: "x' = y \<or> (\<exists>e. x' = ?y e) \<or> (\<exists>e u. removeClient env k (Some c) (?y e) u = (x', w'))"
        proof (cases "xc_failMode x = FailFast")
          case True
          then have "err = None" using r Some by (auto simp: split_result_def split: sum.splits)
          let ?e = "fst (env_Call env c (xc_servicePath y) m v)"
          have "x' = ?y ?e \<or> removeClient env k (Some c) (?y ?e) (snd (env_Call env c (xc_servicePath y) m v)) = (x', w')"
            using assms(1) False sel r Some True keeps \<open>err = None\<close>
            by (cases "?e \<noteq> None \<and> uncoverError ?e") (auto simp: XCall_def wrapCall_Some fail_modes split: prod.splits)
          then show ?thesis by blast
        next
          case slow: False
          then have "x' = y" using assms(1) False sel r not_try over keeps by (simp add: XCall_def)
          then show ?thesis by simp
        qed
        then consider "x' = y" | e where "x' = ?y e" | e u where "removeClient env k (Some c) (?y e) u = (x', w')" by blast
        then show ?thesis
        proof cases
          case 1
          then show ?thesis using tagged keeps by auto
        next
          case (2 e)
          then show ?thesis using same [of x'] cl Some keeps by simp
        next
          case (3 e u)
          then show ?thesis
            using removeClient_tag [OF 3 same] removeClient_keeps(1) [OF 3] cl Some keeps by simp
        qed
      qed
    qed
  qed
qed

lemma XGo_tag:
  assumes "XGo env m x w = (go, x', w')" "dials env tag" "cache_ok tag x"
  shows "cache_ok tag x' \<and> (\<forall>call. go = Inr call \<longrightarrow> (\<exists>cl u. env_Go env cl (xc_servicePath x) m u = (call, w') \<and>
    tag cl \<in> splitNetworkAndAddress ` set (rs_servers (xc_selector x))))"
proof (cases "isShutdown x")
  case True
  then show ?thesis using assms(1,3) by (auto simp: XGo_def)
next
  case False
  obtain k r y v where sel: "selectClient env x w = ((k, r), y, v)" by (metis prod_cases3 prod.exhaust)
  note tagged = selectClient_tag [OF sel assms(2,3)] and keeps = selectClient_keeps(6) [OF sel]
  show ?thesis
  proof (cases r)
    case (Inl e)
    then show ?thesis using assms(1) False sel tagged by (auto simp: XGo_def)
  next
    case (Inr cl)
    obtain call u where g: "env_Go env cl (xc_servicePath x) m v = (call, u)" by fastforce
    then have "go = Inr call" "x' = y" "w' = u" using assms(1) False sel Inr keeps by (simp_all add: XGo_def)
    then show ?thesis using tagged Inr g by auto
  qed
qed

lemma selectClient_no_server: "rs_servers (xc_selector x) = [] \<Longrightarrow> \<exists>v. selectClient env x w = (([], Inl ErrXClientNoServer), x, v)"
  by (auto simp: selectClient_def random.select_none Let_def split: prod.split)

lemma retry_loop_no_server:
  assumes "rs_servers (xc_selector x) = []"
  shows "fst (retry_loop env (over_next env) m retries ([], None, Some ErrXClientNoServer) x w) = Some ErrXClientNoServer"
  using assms
proof (induction "nat (retries + 1)" arbitrary: retries x w)
  case 0
  then show ?case by (simp add: retry_loop.simps [of _ _ _ retries])
next
  case (Suc n)
  have pos: "0 \<le> retries" "n = nat (retries - 1 + 1)" using Suc.hyps(2) by simp_all
  obtain r y v where round: "retry_round env (over_next env) m ([], None, Some ErrXClientNoServer) x w = (r, y, v)"
    by (metis prod_cases3)
  obtain z u where z: "(if uncoverError (Some ErrXClientNoServer) then removeClient env [] None x w else (x, w)) = (z, u)"
    by fastforce
  then have "rs_servers (xc_selector z) = []"
    using Suc.prems removeClient_keeps(3) [of env "[]" None x w z u] by (auto split: if_splits)
  from selectClient_no_server [OF this, of env u]
  obtain u' where "selectClient env z u = (([], Inl ErrXClientNoServer), z, u')" by blast
  then have "retry_round env (over_next env) m ([], None, Some ErrXClientNoServer) x w =
      (Inr ([], None, Some ErrXClientNoServer), z, u')"
    using z by (simp add: retry_round_def Let_def over_next_def split_result_def)
  then show ?case
    using Suc.hyps(1) [OF pos(2) \<open>rs_servers (xc_selector z) = []\<close>] pos(1) by (simp add: retry_loop.simps [of _ _ _ retries])
qed

lemma XCall_no_server:
  assumes "XCall env m x w = (res, x', w')" "rs_servers (xc_selector x) = []" "\<not> isShutdown x"
    and "xc_failMode x = FailFast \<or> xc_failMode x = FailOver"
  shows "res = Some ErrXClientNoServer"
proof -
  obtain v where sel: "selectClient env x w = (([], Inl ErrXClientNoServer), x, v)"
    using selectClient_no_server [OF assms(2), of env w] by blast
  show ?thesis
    using assms(1,3,4) retry_loop_no_server [OF assms(2), of env m "xc_Retries x" v]
    by (auto simp: XCall_def sel split_result_def fail_modes)
qed

lemma XGo_no_server:
  assumes "XGo env m x w = (go, x', w')" "rs_servers (xc_selector x) = []" "\<not> isShutdown x"
  shows "go = Inl ErrXClientNoServer"
  using assms(1,3) selectClient_no_server [OF assms(2), of env w] by (auto simp: XGo_def)

section \<open>Splitting addresses\<close>

lemma splitN2_none: "c \<notin> set s \<Longrightarrow> splitN2 c s = [s]"
  by (induction s) auto

lemma splitN2_at: "c \<notin> set n \<Longrightarrow> splitN2 c (n @ c # a) = [n, a]"
  by (induction n) auto


section \<open>An environment for the examples\<close>

text \<open>Clients are numbered; the world counts the connections made and the calls; \<open>answer\<close> decides each call.\<close>

definition demo_env :: "(nat \<Rightarrow> go_error option) \<Rightarrow> (nat, nat \<times> nat list) rpc_env" where
  "demo_env answer =
     \<lparr>env_Connect = (\<lambda>n a (i, closed). ((None, i), (i + 1, closed))),
      env_Call = (\<lambda>cl sp m w. (answer cl, w)), env_Go = (\<lambda>cl sp m w. (0, w)),
      env_Close = (\<lambda>cl (i, closed). (i, closed @ [cl])),
      env_IsClosing = (\<lambda>cl (i, closed). cl \<in> set closed), env_IsShutdown = (\<lambda>cl w. False),
      env_rand = (\<lambda>w. (0, w))\<rparr>"

definition demo_xclient :: "int \<Rightarrow> nat xClient" where
  "demo_xclient mode = fst (NewXClient P2P_GetService P2P_WatchService ''Arith'' mode RandomSelect
     \<lparr>p2p_server = ''tcp@a:1'', p2p_metadata = []\<rparr> 1)"

lemma demo_xclient_fields:
  "\<not> isShutdown (demo_xclient mode)" "xc_failMode (demo_xclient mode) = mode" "xc_Retries (demo_xclient mode) = 1"
  "rs_servers (xc_selector (demo_xclient mode)) = [''tcp@a:1'']" "attempts (demo_xclient mode) = []"
  "cachedClient (demo_xclient mode) = []"
  by (simp_all add: demo_xclient_def NewXClient_def Let_def P2P_WatchService_def P2P_GetService_def newSelector_def
      newRandomSelector_def)

text \<open>Clients that are the network and address they were connected to; the client below still has a connection to an old server.\<close>

definition addr_env :: "(string \<times> string, nat) rpc_env" where
  "addr_env =
     \<lparr>env_Connect = (\<lambda>n a w. ((None, (n, a)), w)), env_Call = (\<lambda>cl sp m w. (None, w)), env_Go = (\<lambda>cl sp m w. (0, w)),
      env_Close = (\<lambda>cl w. w), env_IsClosing = (\<lambda>cl w. False), env_IsShutdown = (\<lambda>cl w. False), env_rand = (\<lambda>w. (0, w))\<rparr>"

definition stale_xclient :: "(string \<times> string) xClient" where
  "stale_xclient =
     \<lparr>xc_servicePath = ''Arith'', xc_Retries = 1, xc_failMode = FailOver, xc_selector = \<lparr>rs_servers = [''tcp@a:1'']\<rparr>,
      xc_ch = None, xc_servers = [(''tcp@a:1'', [])], cachedClient = [(''tcp@a:1'', (''tcp'', ''a:1''))], isShutdown = False,
      attempts = []\<rparr>"

lemma addr_call:
  "XCall addr_env m (watch_update [\<lparr>Key = ''tcp@b:2'', Value = []\<rparr>] stale_xclient) w = (res, x', w') \<Longrightarrow> attempts x' \<noteq> []"
  by (auto simp: addr_env_def stale_xclient_def watch_update_def XCall_def selectClient_def getCachedClient_def generateClient_def
      split_result_def splitNetworkAndAddress_def fail_modes Let_def retry_loop.simps retry_round_def wrapCall_def
      UpdateServer_def Select_def split: if_splits)

section \<open>Properties\<close>



text \<open>
  C19: a call can report success although every attempt failed. With the modes that retry, if the
  server keeps failing its calls but accepts connections, the error of the last attempt is overwritten
  by the nil error of the reconnection that follows it, and the call returns nil.
\<close>

theorem failure_reported_as_success:
  assumes "xc_failMode x = FailTry \<or> xc_failMode x = FailOver" and "0 \<le> xc_Retries x" and "\<not> isShutdown x"
    and "rs_servers (xc_selector x) \<noteq> []" and "[] \<notin> set (rs_servers (xc_selector x))"
    and "\<And>cl sp w. transient (fst (env_Call env cl sp m w))"
    and "\<And>n a w. fst (fst (env_Connect env n a w)) = None"
  shows "\<exists>as x' w'. XCall env m x w = (None, x', w') \<and> attempts x' = attempts x @ as \<and> as \<noteq> [] \<and>
    list_all transient (map snd as)"
proof -
  obtain r v where r: "env_rand env w = (r, v)" by fastforce
  define k where "k = Select r (xc_selector x)"
  have "k \<noteq> []"
    using random.select_none_iff [of "xc_selector x" r] assms(4,5) by (simp add: k_def)
  moreover obtain cl y u where get: "getCachedClient env k x v = (Inr cl, y, u)"
    using getCachedClient_connects [OF assms(3,7)] by blast
  ultimately have sel: "selectClient env x w = ((k, Inr cl), y, u)"
    by (simp add: selectClient_def r k_def)
  note keeps = selectClient_keeps [OF sel]
  obtain res x' w' where call: "XCall env m x w = (res, x', w')" by (metis prod_cases3)
  note find = finds_next [where env = env, OF assms(7,4,5)]
  have loop: "(res, x', w') = retry_loop env (try_next env) m (xc_Retries x) (k, Some cl, None) y u \<or>
      (res, x', w') = retry_loop env (over_next env) m (xc_Retries x) (k, Some cl, None) y u"
    using call sel assms(1,3) keeps by (auto simp: XCall_def split_result_def fail_modes)
  moreover have "fst (retry_loop env (try_next env) m (xc_Retries x) (k, Some cl, None) y u) = None"
      "fst (retry_loop env (over_next env) m (xc_Retries x) (k, Some cl, None) y u) = None"
    using keeps assms(3)
    by (auto intro!: retry_loop_all_fail [OF find(1) quiet_next(1) assms(6)] retry_loop_all_fail [OF find(2) quiet_next(2) assms(6)])
  ultimately have res: "res = None" by (metis fst_conv)
  obtain as where as: "attempts x' = attempts x @ as" "explained (map snd as) None" "list_all (answered env m) as"
    using XCall_attempts [OF call] res by blast
  have "attempts x' \<noteq> attempts y"
    using loop retry_loop_some_attempt [OF _ quiet_next(1)] retry_loop_some_attempt [OF _ quiet_next(2)] assms(2) by metis
  then have "as \<noteq> []" using as(1) keeps(1) by auto
  moreover have "list_all transient (map snd as)"
    using as(3) assms(6) by (auto simp: list_all_iff answered_def)
  ultimately show ?thesis using call res as(1) by blast
qed


theorem failure_reported_as_success_witness:
  "fst (XCall (demo_env (\<lambda>_. Some (NewError ''broken''))) ''Double'' (demo_xclient FailTry) (0, [])) = None"
proof -
  have "transient (Some (NewError ''broken''))" by (simp add: transient_def uncoverError_def)
  then obtain as x' w' where
    "XCall (demo_env (\<lambda>_. Some (NewError ''broken''))) ''Double'' (demo_xclient FailTry) (0, []) = (None, x', w')"
    using failure_reported_as_success [of "demo_xclient FailTry" "demo_env (\<lambda>_. Some (NewError ''broken''))" "''Double''" "(0, [])"]
    by (auto simp: demo_xclient_fields demo_env_def)
  then show ?thesis by simp
qed

text \<open>
  With a negative number of retries nothing is called at all. The loop is not entered, no attempt is
  made, and the call returns the nil error of the successful selection.
\<close>

theorem negative_retries_call_nothing:
  assumes "xc_failMode x = FailTry \<or> xc_failMode x = FailOver" and "xc_Retries x < 0" and "\<not> isShutdown x"
    and "selectClient env x w = ((k, Inr cl), x', w')"
  shows "XCall env m x w = (None, x', w') \<and> attempts x' = attempts x"
  using assms selectClient_keeps [OF assms(4)]
  by (auto simp: XCall_def split_result_def fail_modes retry_loop.simps)

theorem negative_retries_call_nothing_witness:
  "fst (XCall (demo_env (\<lambda>_. None)) ''Double'' ((demo_xclient FailTry)\<lparr>xc_Retries := -1\<rparr>) (0, [])) = None"
proof -
  let ?x = "(demo_xclient FailTry)\<lparr>xc_Retries := -1\<rparr>"
  have "selectClient (demo_env (\<lambda>_. None)) ?x (0, []) =
      ((''tcp@a:1'', Inr 0), ?x\<lparr>cachedClient := [(''tcp@a:1'', 0)]\<rparr>, (1, []))"
    by (simp add: selectClient_def demo_env_def demo_xclient_fields Select_def getCachedClient_def generateClient_def
        splitNetworkAndAddress_def Let_def)
  from negative_retries_call_nothing [OF _ _ _ this] show ?thesis by (simp add: demo_xclient_fields)
qed

text \<open>
  C30: a connection that failed is not used again. After an attempt on a cached connection fails in a way
  that permits a retry, that connection is out of the cache and closed before anything else happens, and
  the next attempt on the same server is made on a newly made connection.
\<close>

theorem retry_uses_new_connection:
  assumes "map_of (cachedClient x) k = Some cl" and "gomap_ok (cachedClient x)"
    and "transient (fst (env_Call env cl (xc_servicePath x) m w))"
    and "retry_round env (try_next env) m (k, Some cl, err) x w = (Inr (k', Some cl', err'), x', w')"
  shows "k' = k \<and> err' = None \<and>
    generateClient env k (env_Close env cl (snd (env_Call env cl (xc_servicePath x) m w))) = ((None, cl'), w') \<and>
    map_of (cachedClient x') k = Some cl'"
proof -
  define e where "e = fst (env_Call env cl (xc_servicePath x) m w)"
  define v where "v = snd (env_Call env cl (xc_servicePath x) m w)"
  have e: "e \<noteq> None" "uncoverError e" using assms(3) by (simp_all add: transient_def e_def)
  let ?x1 = "x\<lparr>attempts := attempts x @ [(cl, e)]\<rparr>"
  let ?x2 = "?x1\<lparr>cachedClient := gomap_del k (cachedClient x)\<rparr>"
  have rem: "removeClient env k (Some cl) ?x1 v = (?x2, env_Close env cl v)"
    using assms(1) by (simp add: removeClient_def)
  obtain res y u where get: "getCachedClient env k ?x2 (env_Close env cl v) = (res, y, u)" by (metis prod_cases3)
  have "retry_round env (try_next env) m (k, Some cl, err) x w =
      (case split_result res of (client, err) \<Rightarrow> (Inr (k, client, err), y, u))"
    using e rem get by (simp add: retry_round_def Let_def wrapCall_Some e_def v_def try_next_def split: prod.split)
  then have "res = Inr cl'" "k' = k" "err' = None" "y = x'" "u = w'"
    using assms(4) by (auto simp: split_result_def split: sum.splits)
  moreover have "map_of (cachedClient ?x2) k = None" by simp
  ultimately show ?thesis
    using get getCachedClient_Inr [OF get [unfolded \<open>res = Inr cl'\<close>]]
    by (auto simp: getCachedClient_def v_def Let_def split: if_splits prod.splits option.splits)
qed

theorem retry_uses_new_connection_witness:
  "generateClient (demo_env (\<lambda>_. Some (NewError ''broken''))) ''a:1'' (7, [3]) = ((None, 7), (8, [3]))"
proof -
  let ?env = "demo_env (\<lambda>_. Some (NewError ''broken''))"
  let ?x = "(demo_xclient FailTry)\<lparr>cachedClient := [(''a:1'', 3)]\<rparr>"
  have t: "transient (fst (env_Call ?env 3 (xc_servicePath ?x) ''Double'' (7, [])))"
    by (simp add: demo_env_def transient_def uncoverError_def)
  have "retry_round ?env (try_next ?env) ''Double'' (''a:1'', Some 3, None) ?x (7, []) =
      (Inr (''a:1'', Some 7, None),
       ?x\<lparr>attempts := [(3, Some (NewError ''broken''))], cachedClient := [(''a:1'', 7)]\<rparr>, (8, [3]))"
    by (simp add: retry_round_def wrapCall_def removeClient_def try_next_def getCachedClient_def generateClient_def
        splitNetworkAndAddress_def split_result_def uncoverError_def demo_env_def demo_xclient_fields)
  from retry_uses_new_connection [OF _ _ t this] show ?thesis
    by (simp add: gomap_ok_def demo_env_def)
qed

text \<open>
  C37: closing a client closes every cached connection exactly once, empties the cache, and is final:
  every later call, synchronous or not, is refused without touching anything.
\<close>

theorem closed_client_is_inert:
  assumes "XClose env x w = (err, x', w')"
  shows "err = None \<and> cachedClient x' = [] \<and> w' = fold (env_Close env) (map snd (cachedClient x)) w \<and>
    XCall env m x' v = (Some ErrXClientShutdown, x', v) \<and> XGo env m x' v = (Inl ErrXClientShutdown, x', v) \<and>
    getCachedClient env k x' v = (Inl ErrXClientShutdown, x', v)"
proof -
  have "fold (\<lambda>(k, cl). env_Close env cl) cs w = fold (env_Close env) (map snd cs) w" for cs :: "(string \<times> 'a) list" and w
    by (induction cs arbitrary: w) auto
  then show ?thesis
    using assms fold_del_empty [of "cachedClient x" "cachedClient x"]
    by (auto simp: XClose_def Let_def close_loop_eq XCall_def XGo_def getCachedClient_def)
qed

theorem closed_client_is_inert_witness:
  "XCall (demo_env (\<lambda>_. None)) ''Double'' (fst (snd (XClose (demo_env (\<lambda>_. None)) (demo_xclient FailTry) (0, [])))) (5, []) =
    (Some ErrXClientShutdown, fst (snd (XClose (demo_env (\<lambda>_. None)) (demo_xclient FailTry) (0, []))), (5, []))"
proof -
  obtain e x' w' where c: "XClose (demo_env (\<lambda>_. None)) (demo_xclient FailTry) (0, []) = (e, x', w')"
    by (metis prod_cases3)
  from closed_client_is_inert [OF c] show ?thesis by (simp add: c)
qed

text \<open>
  C38: calls go to the servers that are known now. Once new addresses have been taken from the discovery,
  every attempt of a synchronous call in the given fail mode, its retries included, and every
  asynchronous call is made on a connection to one of those addresses, whatever connections to older
  servers are still in the cache; and without any address nothing is called and the call is refused.
  \<open>tag\<close> names the server a connection was made to; the cache holds every connection under its server, as
  it does from construction on. (\<open>FailTry\<close> without any server is excluded; see below what it does.)
\<close>

theorem calls_go_to_current_servers:
  assumes "dials env tag" and "cache_ok tag x" and "[] \<notin> Key ` set pairs"
    and "pairs \<noteq> [] \<or> xc_failMode x \<noteq> FailTry"
    and "XCall env m (watch_update pairs x) w = (res, x', w')"
    and "XGo env m' (watch_update pairs x) v = (go, y', v')"
  shows "(\<exists>as. attempts x' = attempts x @ as \<and> list_all (\<lambda>a. tag (fst a) \<in> (splitNetworkAndAddress \<circ> Key) ` set pairs) as) \<and>
    (\<forall>call. go = Inr call \<longrightarrow>
      (\<exists>cl u. env_Go env cl (xc_servicePath x) m' u = (call, v') \<and> tag cl \<in> (splitNetworkAndAddress \<circ> Key) ` set pairs)) \<and>
    (pairs = [] \<and> \<not> isShutdown x \<longrightarrow> go = Inl ErrXClientNoServer \<and>
      (xc_failMode x = FailFast \<or> xc_failMode x = FailOver \<longrightarrow> res = Some ErrXClientNoServer)) \<and>
    cache_ok tag x' \<and> cache_ok tag y'"
proof -
  let ?x = "watch_update pairs x"
  have K: "set (rs_servers (xc_selector ?x)) = Key ` set pairs" by (rule watch_update_candidates)
  have same: "attempts ?x = attempts x" "xc_failMode ?x = xc_failMode x" "xc_servicePath ?x = xc_servicePath x"
      "isShutdown ?x = isShutdown x" "cache_ok tag ?x"
    using assms(2) watch_update_cache_ok by (auto simp: watch_update_def Let_def)
  have none: "rs_servers (xc_selector ?x) = [] \<longleftrightarrow> pairs = []" using K by (metis image_is_empty set_empty)
  have "rs_servers (xc_selector ?x) \<noteq> [] \<or> xc_failMode ?x \<noteq> FailTry" "[] \<notin> set (rs_servers (xc_selector ?x))"
    using assms(3,4) none same(2) K by auto
  note call = XCall_tag [OF assms(5,1) same(5) this]
  note go = XGo_tag [OF assms(6,1) same(5)]
  have "pairs = [] \<Longrightarrow> \<not> isShutdown x \<Longrightarrow> go = Inl ErrXClientNoServer"
      "pairs = [] \<Longrightarrow> \<not> isShutdown x \<Longrightarrow> xc_failMode x = FailFast \<or> xc_failMode x = FailOver \<Longrightarrow> res = Some ErrXClientNoServer"
    using XCall_no_server [OF assms(5)] XGo_no_server [OF assms(6)] none same(2,4) by metis+
  with call go show ?thesis by (simp add: same K image_comp)
qed

theorem calls_go_to_current_servers_witness:
  "list_all (\<lambda>a. fst a = (''tcp'', ''b:2''))
     (attempts (fst (snd (XCall addr_env ''Double'' (watch_update [\<lparr>Key = ''tcp@b:2'', Value = []\<rparr>] stale_xclient) 0)))) \<and>
   attempts (fst (snd (XCall addr_env ''Double'' (watch_update [\<lparr>Key = ''tcp@b:2'', Value = []\<rparr>] stale_xclient) 0))) \<noteq> []"
proof -
  let ?x = "watch_update [\<lparr>Key = ''tcp@b:2'', Value = []\<rparr>] stale_xclient"
  obtain res x' w' where c: "XCall addr_env ''Double'' ?x 0 = (res, x', w')" by (metis prod_cases3)
  obtain go y' v' where g: "XGo addr_env ''Double'' ?x 0 = (go, y', v')" by (metis prod_cases3)
  have d: "dials addr_env id" "cache_ok id stale_xclient" "attempts stale_xclient = []" "xc_failMode stale_xclient = FailOver"
    by (auto simp: dials_def addr_env_def cache_ok_def stale_xclient_def splitNetworkAndAddress_def
        split: if_splits)
  have "attempts x' \<noteq> []"
    using c by (auto simp: addr_call)
  with calls_go_to_current_servers [OF d(1,2) _ _ c g] show ?thesis
    by (auto simp: c d splitNetworkAndAddress_def)
qed

text \<open>
  \<open>FailTry\<close> does not notice that there is no server: its loop searches again with the empty key that came with
  the refusal, so an empty address is dialled over TCP, and the call returns what came of that.
\<close>

theorem try_mode_dials_the_empty_address:
  "attempts (fst (snd (XCall addr_env ''Double'' (watch_update [] (stale_xclient\<lparr>xc_failMode := FailTry\<rparr>)) 0))) =
     [((''tcp'', []), None)]"
  by (simp add: addr_env_def stale_xclient_def watch_update_def XCall_def selectClient_def getCachedClient_def generateClient_def
      split_result_def splitNetworkAndAddress_def fail_modes Let_def retry_loop.simps retry_round_def try_next_def wrapCall_def
      removeClient_def uncoverError_def UpdateServer_def Select_def)

text \<open>
  Addresses are parsed unambiguously. A server named by network and address is split at the first
  separator, whatever the address contains, and a name without a separator is a TCP address.
\<close>

theorem addresses_split:
  assumes "CHR ''@'' \<notin> set n"
  shows "splitNetworkAndAddress (n @ CHR ''@'' # a) = (n, a) \<and> splitNetworkAndAddress n = (''tcp'', n)"
  using splitN2_at [OF assms, of a] splitN2_none [OF assms] by (simp add: splitNetworkAndAddress_def)

theorem addresses_split_witness:
  "splitNetworkAndAddress ''unix@/tmp/a@b'' = (''unix'', ''/tmp/a@b'')"
  using addresses_split [of "''unix''" "''/tmp/a@b''"] by simp

end
