(* ===== verification/Broadcast.thy ===== *)
theory Broadcast
  imports XClient Plugin
begin

text \<open>
  \<^verbatim>\<open>Broadcast\<close> of \<^verbatim>\<open>client/xclient.go\<close>: one goroutine for every server that can be reached, a channel on
  which each reports whether its call succeeded, and the loop that waits for them. The goroutines and
  the loop interleave; the step relation describes every schedule.
\<close>

section \<open>Collecting the clients\<close>

fun broadcast_clients ::
    "('cl, 'w) rpc_env \<Rightarrow> string list \<Rightarrow> (string \<times> 'cl) list \<Rightarrow> 'cl xClient \<Rightarrow> 'w \<Rightarrow> (string \<times> 'cl) list \<times> 'cl xClient \<times> 'w" where
  "broadcast_clients env [] clientMap x w = (clientMap, x, w)"
| "broadcast_clients env (addr # addrs) clientMap x w =
     (case getCachedClient env addr x w of
        (Inl err, x, w) \<Rightarrow> broadcast_clients env addrs clientMap x w
      | (Inr client, x, w) \<Rightarrow> broadcast_clients env addrs (gomap_set addr client clientMap) x w)"

section \<open>State\<close>

text \<open>
  A goroutine: waiting for its call; about to signal; about to report its error or set the reply;
  finished. It carries the result of its call and the value its clone of the reply holds.
\<close>

datatype 'v worker =
    Calling
  | Signalling "go_error option" 'v
  | Posting "go_error option" 'v
  | Finished "go_error option" 'v

fun outcome_of :: "'v worker \<Rightarrow> (go_error option \<times> 'v) option" where
  "outcome_of Calling = None"
| "outcome_of (Signalling e v) = Some (e, v)"
| "outcome_of (Posting e v) = Some (e, v)"
| "outcome_of (Finished e v) = Some (e, v)"

datatype main_pc = Waiting | Leaving | Returned "go_error option"

record ('cl, 'w, 'v) broadcast =
  bc_clients :: "(string \<times> 'cl) list"
  bc_workers :: "'v worker list"
  bc_done :: "bool list" \<comment> \<open>the channel \<open>done\<close>, of capacity \<^verbatim>\<open>len(clientMap)\<close>\<close>
  bc_lc :: nat
  bc_multiErr :: MultiError
  bc_once :: bool \<comment> \<open>\<open>replyOnce\<close> has run\<close>
  bc_reply :: 'v
  bc_main :: main_pc
  bc_x :: "'cl xClient"
  bc_w :: 'w

definition Broadcast_start ::
    "('cl, 'w) rpc_env \<Rightarrow> 'v \<Rightarrow> 'cl xClient \<Rightarrow> 'w \<Rightarrow> go_error + ('cl, 'w, 'v) broadcast" where
  "Broadcast_start env reply x w =
     (if isShutdown x then Inl ErrXClientShutdown
      else
        (case broadcast_clients env (map fst (xc_servers x)) [] x w of (clientMap, x, w) \<Rightarrow>
           if length clientMap = 0 then Inl ErrXClientNoServer
           else Inr \<lparr>bc_clients = clientMap, bc_workers = replicate (length clientMap) Calling, bc_done = [],
                  bc_lc = length clientMap, bc_multiErr = NewMultiError [], bc_once = False, bc_reply = reply,
                  bc_main = Waiting, bc_x = x, bc_w = w\<rparr>))"

definition timeout_error :: go_error where
  "timeout_error = NewError ''timeout''"

section \<open>Steps\<close>

definition worker_call ::
    "('cl, 'w) rpc_env \<Rightarrow> string \<Rightarrow> nat \<Rightarrow> 'v \<Rightarrow> ('cl, 'w, 'v) broadcast \<Rightarrow> ('cl, 'w, 'v) broadcast" where
  \<comment> \<open>\<open>v\<close> is what the call leaves in the cloned reply\<close>
  "worker_call env method i v b =
     (case wrapCall env (Some (snd (bc_clients b ! i))) method (bc_x b) (bc_w b) of
        (err, x, w) \<Rightarrow> b\<lparr>bc_workers := (bc_workers b)[i := Signalling err v], bc_x := x, bc_w := w\<rparr>)"

definition worker_signal :: "nat \<Rightarrow> ('cl, 'w, 'v) broadcast \<Rightarrow> ('cl, 'w, 'v) broadcast" where
  "worker_signal i b =
     (case bc_workers b ! i of
        Signalling err v \<Rightarrow> b\<lparr>bc_done := bc_done b @ [err = None], bc_workers := (bc_workers b)[i := Posting err v]\<rparr>
      | _ \<Rightarrow> b)"

definition worker_post :: "('cl, 'w) rpc_env \<Rightarrow> nat \<Rightarrow> ('cl, 'w, 'v) broadcast \<Rightarrow> ('cl, 'w, 'v) broadcast" where
  "worker_post env i b =
     (case bc_workers b ! i of
        Posting err v \<Rightarrow>
          (let b = (case err of
                      None \<Rightarrow> b
                    | Some e \<Rightarrow>
                        (case (if uncoverError (Some e)
                               then removeClient env (fst (bc_clients b ! i)) (Some (snd (bc_clients b ! i))) (bc_x b) (bc_w b)
                               else (bc_x b, bc_w b)) of
                           (x, w) \<Rightarrow> b\<lparr>bc_x := x, bc_w := w, bc_multiErr := MultiError_Append (bc_multiErr b) e\<rparr>));
               b = (if err = None then (if bc_once b then b else b\<lparr>bc_reply := v, bc_once := True\<rparr>) else b)
           in b\<lparr>bc_workers := (bc_workers b)[i := Finished err v]\<rparr>)
      | _ \<Rightarrow> b)"

definition main_receive :: "('cl, 'w, 'v) broadcast \<Rightarrow> ('cl, 'w, 'v) broadcast" where
  "main_receive b =
     (case bc_done b of
        [] \<Rightarrow> b
      | result # rest \<Rightarrow>
          (let b = b\<lparr>bc_done := rest\<rparr>;
               b = b\<lparr>bc_lc := bc_lc b - 1\<rparr>
           in if bc_lc b = 0 \<or> \<not> result then b\<lparr>bc_main := Leaving\<rparr> else b))"

definition main_timeout :: "('cl, 'w, 'v) broadcast \<Rightarrow> ('cl, 'w, 'v) broadcast" where
  "main_timeout b = b\<lparr>bc_multiErr := MultiError_Append (bc_multiErr b) timeout_error, bc_main := Leaving\<rparr>"

definition main_return :: "('cl, 'w, 'v) broadcast \<Rightarrow> ('cl, 'w, 'v) broadcast" where
  "main_return b = b\<lparr>bc_main := Returned (ErrorOrNil (Some (bc_multiErr b)))\<rparr>"

inductive bc_step ::
    "('cl, 'w) rpc_env \<Rightarrow> string \<Rightarrow> ('cl, 'w, 'v) broadcast \<Rightarrow> ('cl, 'w, 'v) broadcast \<Rightarrow> bool" for env m where
  Answer: "\<lbrakk>i < length (bc_workers b); bc_workers b ! i = Calling\<rbrakk> \<Longrightarrow> bc_step env m b (worker_call env m i v b)"
| Signal: "\<lbrakk>i < length (bc_workers b); bc_workers b ! i = Signalling e v; length (bc_done b) < length (bc_workers b)\<rbrakk>
    \<Longrightarrow> bc_step env m b (worker_signal i b)"
| Post: "\<lbrakk>i < length (bc_workers b); bc_workers b ! i = Posting e v\<rbrakk> \<Longrightarrow> bc_step env m b (worker_post env i b)"
| Receive: "\<lbrakk>bc_main b = Waiting; bc_done b \<noteq> []\<rbrakk> \<Longrightarrow> bc_step env m b (main_receive b)"
| Timeout: "bc_main b = Waiting \<Longrightarrow> bc_step env m b (main_timeout b)"
| Return: "bc_main b = Leaving \<Longrightarrow> bc_step env m b (main_return b)"

inductive_cases bc_stepE: "bc_step env m b b'"

abbreviation bc_run ::
    "('cl, 'w) rpc_env \<Rightarrow> string \<Rightarrow> ('cl, 'w, 'v) broadcast \<Rightarrow> ('cl, 'w, 'v) broadcast \<Rightarrow> bool" where
  "bc_run env m \<equiv> (bc_step env m)\<^sup>*\<^sup>*"


section \<open>Invariant\<close>

fun signalled :: "'v worker \<Rightarrow> bool" where
  "signalled (Posting e v) = True"
| "signalled (Finished e v) = True"
| "signalled _ = False"

fun failed :: "'v worker \<Rightarrow> bool" where
  "failed w = (case outcome_of w of Some (Some e, v) \<Rightarrow> True | _ \<Rightarrow> False)"

fun succeeded :: "'v worker \<Rightarrow> bool" where
  "succeeded w = (case outcome_of w of Some (None, v) \<Rightarrow> True | _ \<Rightarrow> False)"

lemma worker_cases: "failed w \<longleftrightarrow> (\<exists>e v. outcome_of w = Some (Some e, v))" "succeeded w \<longleftrightarrow> (\<exists>v. outcome_of w = Some (None, v))"
  by (auto split: option.splits)

lemma signalled_result: "signalled w \<Longrightarrow> failed w \<or> succeeded w"
  by (cases w) (auto split: option.split)

declare failed.simps [simp del] succeeded.simps [simp del]

definition num :: "('a \<Rightarrow> bool) \<Rightarrow> 'a list \<Rightarrow> nat" where
  "num P xs = length (filter P xs)"

lemma num_simps [simp]: "num P [] = 0" "num P (x # xs) = (if P x then 1 else 0) + num P xs" "num P (xs @ ys) = num P xs + num P ys"
  by (simp_all add: num_def)

lemma num_update:
  "i < length xs \<Longrightarrow> num P (xs[i := y]) + (if P (xs ! i) then 1 else 0) = num P xs + (if P y then 1 else 0)"
proof (induction xs arbitrary: i)
  case (Cons x xs)
  then show ?case by (cases i) (auto dest!: Cons.IH)
qed simp

lemma num_pos: "0 < num P xs \<Longrightarrow> \<exists>x \<in> set xs. P x"
  by (induction xs) (auto split: if_splits)

lemma num_all: "num P xs = length xs \<Longrightarrow> x \<in> set xs \<Longrightarrow> P x"
proof (induction xs)
  case (Cons y ys)
  have "num P ys \<le> length ys" by (simp add: num_def)
  then show ?case using Cons by (auto split: if_splits)
qed simp

definition fails_in :: "('cl, 'w, 'v) broadcast \<Rightarrow> bool" where
  "fails_in b \<longleftrightarrow> (\<exists>x \<in> set (bc_workers b). failed x)"

definition all_succeed :: "('cl, 'w, 'v) broadcast \<Rightarrow> bool" where
  "all_succeed b \<longleftrightarrow> (\<forall>x \<in> set (bc_workers b). succeeded x)"

definition known_error :: "('cl, 'w, 'v) broadcast \<Rightarrow> go_error \<Rightarrow> bool" where
  "known_error b e \<longleftrightarrow> e = timeout_error \<or> (\<exists>x \<in> set (bc_workers b). \<exists>v. outcome_of x = Some (Some e, v))"

text \<open>What happened to the workers is never undone.\<close>

definition workers_grow :: "('cl, 'w, 'v) broadcast \<Rightarrow> ('cl, 'w, 'v) broadcast \<Rightarrow> bool" where
  "workers_grow b b' \<longleftrightarrow>
     (\<forall>r. r \<in> outcome_of ` set (bc_workers b) \<longrightarrow> r \<noteq> None \<longrightarrow> r \<in> outcome_of ` set (bc_workers b')) \<and>
     (all_succeed b \<longrightarrow> all_succeed b')"

definition counts_ok :: "('cl, 'w, 'v) broadcast \<Rightarrow> bool" where
  "counts_ok b \<longleftrightarrow>
     bc_lc b + num signalled (bc_workers b) = length (bc_workers b) + length (bc_done b) \<and>
     num (\<lambda>x. signalled x \<and> failed x) (bc_workers b) = num Not (bc_done b)"

definition bc_inv :: "'v \<Rightarrow> ('cl, 'w, 'v) broadcast \<Rightarrow> bool" where
  "bc_inv reply b \<longleftrightarrow>
     (\<forall>e \<in> set (Errors (bc_multiErr b)). known_error b e) \<and>
     (bc_reply b = reply \<or> (\<exists>x \<in> set (bc_workers b). outcome_of x = Some (None, bc_reply b))) \<and>
     (case bc_main b of
        Waiting \<Rightarrow> 0 < bc_lc b \<and> counts_ok b
      | Leaving \<Rightarrow> timeout_error \<in> set (Errors (bc_multiErr b)) \<or> fails_in b \<or> all_succeed b
      | Returned None \<Rightarrow> fails_in b \<or> all_succeed b
      | Returned (Some e) \<Rightarrow> \<exists>es. e = MultiErr es \<and> es \<noteq> [] \<and> (\<forall>e' \<in> set es. known_error b e'))"

lemma grow_update:
  assumes "i < length (bc_workers b)" "bc_workers b' = (bc_workers b)[i := y]"
    and "outcome_of (bc_workers b ! i) \<noteq> None \<Longrightarrow> outcome_of y = outcome_of (bc_workers b ! i)"
    and "succeeded (bc_workers b ! i) \<Longrightarrow> succeeded y"
  shows "workers_grow b b'"
  unfolding workers_grow_def
proof (intro conjI allI impI)
  fix r
  assume "r \<in> outcome_of ` set (bc_workers b)" "r \<noteq> None"
  then obtain j where j: "j < length (bc_workers b)" "r = outcome_of (bc_workers b ! j)"
    by (auto simp: in_set_conv_nth)
  have "outcome_of (bc_workers b' ! j) = r"
    using j assms(1-3) \<open>r \<noteq> None\<close> by (cases "j = i") auto
  then show "r \<in> outcome_of ` set (bc_workers b')"
    using j(1) assms(2) by (metis image_eqI length_list_update nth_mem)
next
  assume "all_succeed b"
  then show "all_succeed b'"
    using assms unfolding all_succeed_def by (auto dest!: set_update_subset_insert [THEN subsetD])
qed

lemma grow_same: "bc_workers b' = bc_workers b \<Longrightarrow> workers_grow b b'"
  by (simp add: workers_grow_def all_succeed_def)

lemma growD:
  assumes "workers_grow b b'"
  shows "known_error b e \<Longrightarrow> known_error b' e" "fails_in b \<Longrightarrow> fails_in b'" "all_succeed b \<Longrightarrow> all_succeed b'"
    "\<exists>x \<in> set (bc_workers b). outcome_of x = Some (None, v) \<Longrightarrow> \<exists>x \<in> set (bc_workers b'). outcome_of x = Some (None, v)"
proof -
  have g: "\<exists>x \<in> set (bc_workers b). outcome_of x = Some r \<Longrightarrow> \<exists>x \<in> set (bc_workers b'). outcome_of x = Some r" for r
  proof -
    assume "\<exists>x \<in> set (bc_workers b). outcome_of x = Some r"
    then have "Some r \<in> outcome_of ` set (bc_workers b)" by (metis image_eqI)
    then have "Some r \<in> outcome_of ` set (bc_workers b')" using assms by (simp add: workers_grow_def)
    then show ?thesis by (metis imageE)
  qed
  show "known_error b e \<Longrightarrow> known_error b' e" "fails_in b \<Longrightarrow> fails_in b'"
    "\<exists>x \<in> set (bc_workers b). outcome_of x = Some (None, v) \<Longrightarrow> \<exists>x \<in> set (bc_workers b'). outcome_of x = Some (None, v)"
    using g unfolding known_error_def fails_in_def worker_cases by blast+
  show "all_succeed b \<Longrightarrow> all_succeed b'" using assms by (simp add: workers_grow_def)
qed

text \<open>A step of a goroutine that leaves the main loop where it is.\<close>

lemma bc_inv_grow:
  assumes inv: "bc_inv reply b" and g: "workers_grow b b'" and main: "bc_main b' = bc_main b"
    and errs: "\<And>e. e \<in> set (Errors (bc_multiErr b')) \<Longrightarrow> e \<in> set (Errors (bc_multiErr b)) \<or> known_error b' e"
    and keep: "set (Errors (bc_multiErr b)) \<subseteq> set (Errors (bc_multiErr b'))"
    and reply: "bc_reply b' = bc_reply b \<or> (\<exists>x \<in> set (bc_workers b'). outcome_of x = Some (None, bc_reply b'))"
    and counts: "bc_main b = Waiting \<Longrightarrow> counts_ok b \<Longrightarrow> counts_ok b'" and lc: "bc_lc b' = bc_lc b"
  shows "bc_inv reply b'"
proof -
  have known: "\<forall>e \<in> set (Errors (bc_multiErr b)). known_error b e"
    and old: "bc_reply b = reply \<or> (\<exists>x \<in> set (bc_workers b). outcome_of x = Some (None, bc_reply b))"
    using inv by (simp_all add: bc_inv_def)
  have "\<forall>e \<in> set (Errors (bc_multiErr b')). known_error b' e"
    using errs known growD(1) [OF g] by auto
  moreover have "bc_reply b' = reply \<or> (\<exists>x \<in> set (bc_workers b'). outcome_of x = Some (None, bc_reply b'))"
    using reply old growD(4) [OF g] by metis
  moreover have "case bc_main b' of
        Waiting \<Rightarrow> 0 < bc_lc b' \<and> counts_ok b'
      | Leaving \<Rightarrow> timeout_error \<in> set (Errors (bc_multiErr b')) \<or> fails_in b' \<or> all_succeed b'
      | Returned None \<Rightarrow> fails_in b' \<or> all_succeed b'
      | Returned (Some e) \<Rightarrow> \<exists>es. e = MultiErr es \<and> es \<noteq> [] \<and> (\<forall>e' \<in> set es. known_error b' e')"
  proof (cases "bc_main b")
    case Waiting
    then show ?thesis using inv main counts lc by (simp add: bc_inv_def)
  next
    case Leaving
    then show ?thesis using inv main keep growD(2,3) [OF g] by (auto simp: bc_inv_def)
  next
    case (Returned r)
    then show ?thesis
      using inv main growD(1-3) [OF g] by (cases r) (auto simp: bc_inv_def)
  qed
  ultimately show ?thesis unfolding bc_inv_def by blast
qed


lemma bc_inv_answer:
  assumes inv: "bc_inv reply b" and i: "i < length (bc_workers b)" "bc_workers b ! i = Calling"
  shows "bc_inv reply (worker_call env m i v b)"
proof -
  obtain err x w where call: "wrapCall env (Some (snd (bc_clients b ! i))) m (bc_x b) (bc_w b) = (err, x, w)"
    by (metis prod_cases3)
  let ?b = "b\<lparr>bc_workers := (bc_workers b)[i := Signalling err v], bc_x := x, bc_w := w\<rparr>"
  have g: "workers_grow b ?b"
    by (rule grow_update [OF i(1), where y = "Signalling err v"]) (simp_all add: i(2) worker_cases)
  have "bc_inv reply ?b"
  proof (rule bc_inv_grow [OF inv g])
    assume "counts_ok b"
    then show "counts_ok ?b"
      using num_update [OF i(1), of signalled "Signalling err v"]
        num_update [OF i(1), of "\<lambda>x. signalled x \<and> failed x" "Signalling err v"] i(2)
      by (simp add: counts_ok_def)
  qed simp_all
  then show ?thesis by (simp add: worker_call_def call)
qed

lemma bc_inv_signal:
  assumes inv: "bc_inv reply b" and i: "i < length (bc_workers b)" "bc_workers b ! i = Signalling err v"
  shows "bc_inv reply (worker_signal i b)"
proof -
  let ?b = "b\<lparr>bc_done := bc_done b @ [err = None], bc_workers := (bc_workers b)[i := Posting err v]\<rparr>"
  have g: "workers_grow b ?b"
    by (rule grow_update [OF i(1), where y = "Posting err v"]) (simp_all add: i(2) worker_cases)
  have "bc_inv reply ?b"
  proof (rule bc_inv_grow [OF inv g])
    assume "counts_ok b"
    then show "counts_ok ?b"
      using num_update [OF i(1), of signalled "Posting err v"]
        num_update [OF i(1), of "\<lambda>x. signalled x \<and> failed x" "Posting err v"] i(2)
      by (cases err) (simp_all add: counts_ok_def failed.simps)
  qed simp_all
  then show ?thesis by (simp add: worker_signal_def i(2))
qed

lemma bc_inv_post:
  fixes b :: "('cl, 'w, 'v) broadcast"
  assumes inv: "bc_inv reply b" and i: "i < length (bc_workers b)" "bc_workers b ! i = Posting err v"
  shows "bc_inv reply (worker_post env i b)"
proof -
  let ?ws = "(bc_workers b)[i := Finished err v]"
  have counts: "num signalled ?ws = num signalled (bc_workers b)"
      "num (\<lambda>x. signalled x \<and> failed x) ?ws = num (\<lambda>x. signalled x \<and> failed x) (bc_workers b)"
    using num_update [OF i(1), of signalled "Finished err v"]
      num_update [OF i(1), of "\<lambda>x. signalled x \<and> failed x" "Finished err v"] i(2)
    by (simp_all add: failed.simps)
  have grow: "bc_workers b' = ?ws \<Longrightarrow> workers_grow b b'" for b' :: "('cl, 'w, 'v) broadcast"
    by (rule grow_update [OF i(1), where y = "Finished err v"]) (simp_all add: i(2) worker_cases)
  have mem: "Finished err v \<in> set ?ws" using i(1) by (rule set_update_memI)
  show ?thesis
  proof (cases err)
    case None
    let ?b = "b\<lparr>bc_reply := v, bc_once := True, bc_workers := ?ws\<rparr>"
    have "bc_inv reply ?b"
      using mem None
      by (intro bc_inv_grow [OF inv grow])
        (auto simp: counts_ok_def counts [unfolded None] intro!: bexI [of _ "Finished err v"])
    moreover have "bc_inv reply (b\<lparr>bc_workers := ?ws\<rparr>)"
      by (intro bc_inv_grow [OF inv grow]) (auto simp: counts_ok_def counts)
    ultimately show ?thesis
      using None by (simp add: worker_post_def i(2) Let_def)
  next
    case (Some e)
    obtain x w where rem: "(if uncoverError (Some e)
        then removeClient env (fst (bc_clients b ! i)) (Some (snd (bc_clients b ! i))) (bc_x b) (bc_w b)
        else (bc_x b, bc_w b)) = (x, w)" by fastforce
    let ?b = "b\<lparr>bc_x := x, bc_w := w, bc_multiErr := MultiError_Append (bc_multiErr b) e, bc_workers := ?ws\<rparr>"
    have "known_error ?b e"
      using mem Some by (auto simp: known_error_def intro!: bexI [of _ "Finished err v"])
    then have "bc_inv reply ?b"
      by (intro bc_inv_grow [OF inv grow]) (auto simp: counts_ok_def counts MultiError_Append_def)
    then show ?thesis
      using Some rem by (simp add: worker_post_def i(2) Let_def)
  qed
qed

lemma num_le: "num P xs \<le> length xs"
  by (simp add: num_def)

lemma num_zero: "num P xs = 0 \<Longrightarrow> x \<in> set xs \<Longrightarrow> \<not> P x"
  by (auto simp: num_def filter_empty_conv)

lemma bc_inv_receive:
  assumes inv: "bc_inv reply b" and main: "bc_main b = Waiting" and d: "bc_done b = r # rest"
  shows "bc_inv reply (main_receive b)"
proof -
  have lc: "0 < bc_lc b" and c: "bc_lc b + num signalled (bc_workers b) = length (bc_workers b) + length (bc_done b)"
      "num (\<lambda>x. signalled x \<and> failed x) (bc_workers b) = num Not (bc_done b)"
    using inv main by (simp_all add: bc_inv_def counts_ok_def)
  have rest: "\<forall>e \<in> set (Errors (bc_multiErr b)). known_error b e"
      "bc_reply b = reply \<or> (\<exists>x \<in> set (bc_workers b). outcome_of x = Some (None, bc_reply b))"
    using inv by (simp_all add: bc_inv_def)
  have same: "fails_in (b\<lparr>bc_done := rest, bc_lc := n, bc_main := p\<rparr>) = fails_in b"
      "all_succeed (b\<lparr>bc_done := rest, bc_lc := n, bc_main := p\<rparr>) = all_succeed b"
      "known_error (b\<lparr>bc_done := rest, bc_lc := n, bc_main := p\<rparr>) = known_error b" for n p
    by (simp_all add: fails_in_def all_succeed_def known_error_def fun_eq_iff)
  show ?thesis
  proof (cases "bc_lc b - 1 = 0 \<or> \<not> r")
    case True
    have "fails_in b \<or> all_succeed b"
    proof (cases r)
      case False
      then have "0 < num (\<lambda>x. signalled x \<and> failed x) (bc_workers b)" using c(2) d by simp
      then show ?thesis using num_pos unfolding fails_in_def by blast
    next
      case r: True
      then have one: "bc_lc b = 1" using True lc by simp
      have "length (bc_done b) = Suc (length rest)" using d by simp
      then have all: "num signalled (bc_workers b) = length (bc_workers b)" and "length rest = 0"
        using c(1) one num_le [of signalled "bc_workers b"] by simp_all
      then have none: "num (\<lambda>x. signalled x \<and> failed x) (bc_workers b) = 0" using c(2) d r by simp
      have "succeeded x" if x: "x \<in> set (bc_workers b)" for x
        using num_all [OF all x] num_zero [OF none x] signalled_result by blast
      then show ?thesis by (simp add: all_succeed_def)
    qed
    then have "bc_inv reply (b\<lparr>bc_done := rest, bc_lc := bc_lc b - 1, bc_main := Leaving\<rparr>)"
      unfolding bc_inv_def same using rest by simp
    then show ?thesis using True by (simp add: main_receive_def d)
  next
    case False
    then have "bc_inv reply (b\<lparr>bc_done := rest, bc_lc := bc_lc b - 1\<rparr>)"
      unfolding bc_inv_def known_error_def using rest lc c d main by (simp add: counts_ok_def known_error_def)
    then show ?thesis using False main by (simp add: main_receive_def d)
  qed
qed

lemma bc_inv_step: "bc_step env m b b' \<Longrightarrow> bc_inv reply b \<Longrightarrow> bc_inv reply b'"
proof (elim bc_stepE)
  assume inv: "bc_inv reply b" and "b' = main_receive b" "bc_main b = Waiting" "bc_done b \<noteq> []"
  then show "bc_inv reply b'" using bc_inv_receive by (metis neq_Nil_conv)
next
  assume inv: "bc_inv reply b" and "b' = main_timeout b"
  then show "bc_inv reply b'"
    by (auto simp: bc_inv_def main_timeout_def MultiError_Append_def known_error_def)
next
  assume inv: "bc_inv reply b" and b': "b' = main_return b" and main: "bc_main b = Leaving"
  have same: "fails_in b' = fails_in b" "all_succeed b' = all_succeed b" "known_error b' = known_error b"
    by (simp_all add: b' main_return_def fails_in_def all_succeed_def known_error_def fun_eq_iff)
  show "bc_inv reply b'"
    using inv main unfolding bc_inv_def same by (auto simp: b' main_return_def ErrorOrNil_def)
qed (auto intro: bc_inv_answer bc_inv_signal bc_inv_post)

lemma bc_inv_run: "bc_run env m b b' \<Longrightarrow> bc_inv reply b \<Longrightarrow> bc_inv reply b'"
  by (induction rule: rtranclp_induct) (auto intro: bc_inv_step)

lemma bc_inv_start: "Broadcast_start env reply x w = Inr b \<Longrightarrow> bc_inv reply b"
  by (auto simp: Broadcast_start_def bc_inv_def NewMultiError_def counts_ok_def num_def split: if_splits prod.splits)


section \<open>Properties\<close>

text \<open>
  C14: what a broadcast returns. In every schedule a returned error lists, and only lists, errors that
  calls really returned or the time-out, and is not empty; and if nil is returned although some call has
  not succeeded yet, then only because some call failed: with no failing call, nil means that every server
  has answered successfully.
\<close>

theorem broadcast_result:
  assumes "Broadcast_start env reply x w = Inr b0" and "bc_run env m b0 b" and "bc_main b = Returned r"
  shows "case r of
      None \<Rightarrow> (\<exists>k \<in> set (bc_workers b). \<exists>e v. outcome_of k = Some (Some e, v)) \<or>
        (\<forall>k \<in> set (bc_workers b). \<exists>v. outcome_of k = Some (None, v))
    | Some e \<Rightarrow> \<exists>es. e = MultiErr es \<and> es \<noteq> [] \<and>
        (\<forall>e' \<in> set es. e' = timeout_error \<or> (\<exists>k \<in> set (bc_workers b). \<exists>v. outcome_of k = Some (Some e', v)))"
proof -
  have "bc_inv reply b" using bc_inv_run [OF assms(2)] bc_inv_start [OF assms(1)] by blast
  then show ?thesis
    using assms(3) by (cases r) (auto simp: bc_inv_def known_error_def fails_in_def all_succeed_def worker_cases)
qed

text \<open>Two servers, of which the second cannot be reached.\<close>

definition half_env :: "(nat, nat \<times> nat list) rpc_env" where
  "half_env = (demo_env (\<lambda>_. Some (NewError ''broken'')))
     \<lparr>env_Connect := (\<lambda>n a (i, closed). ((if a = ''b:2'' then Some (NewError ''refused'') else None, i), (i + 1, closed)))\<rparr>"

definition half_client :: "nat xClient" where
  "half_client = watch_update [\<lparr>Key = ''a:1'', Value = []\<rparr>, \<lparr>Key = ''b:2'', Value = []\<rparr>] (demo_xclient FailTry)"

definition half_start :: "(nat, nat \<times> nat list, nat) broadcast" where
  "half_start =
     \<lparr>bc_clients = [(''a:1'', 0)], bc_workers = [Calling], bc_done = [], bc_lc = 1, bc_multiErr = NewMultiError [],
      bc_once = False, bc_reply = 0, bc_main = Waiting,
      bc_x = half_client\<lparr>cachedClient := [(''a:1'', 0)]\<rparr>, bc_w = (2, [])\<rparr>"

lemma half_start: "Broadcast_start half_env 0 half_client (0, []) = Inr half_start"
  by (simp add: Broadcast_start_def half_start_def half_client_def half_env_def demo_env_def watch_update_def Let_def
      demo_xclient_fields getCachedClient_def generateClient_def splitNetworkAndAddress_def)

text \<open>The race: the call fails and signals, and the loop returns before the error is recorded.\<close>

definition half_end :: "(nat, nat \<times> nat list, nat) broadcast" where
  "half_end = main_return (main_receive (worker_signal 0 (worker_call half_env ''Double'' 0 0 half_start)))"

lemma half_run: "bc_run half_env ''Double'' half_start half_end"
proof -
  let ?b1 = "worker_call half_env ''Double'' 0 0 half_start"
  let ?b2 = "worker_signal 0 ?b1"
  have 1: "bc_step half_env ''Double'' half_start ?b1"
    by (rule bc_step.Answer) (simp_all add: half_start_def)
  have 2: "bc_step half_env ''Double'' ?b1 ?b2"
    by (rule bc_step.Signal [where e = "Some (NewError ''broken'')" and v = 0])
      (simp_all add: half_start_def worker_call_def wrapCall_def half_env_def demo_env_def)
  have 3: "bc_step half_env ''Double'' ?b2 (main_receive ?b2)"
    by (rule bc_step.Receive) (simp_all add: half_start_def worker_call_def worker_signal_def wrapCall_def half_env_def demo_env_def)
  have 4: "bc_step half_env ''Double'' (main_receive ?b2) half_end"
    unfolding half_end_def
    by (rule bc_step.Return) (simp add: half_start_def worker_call_def worker_signal_def main_receive_def Let_def wrapCall_def half_env_def demo_env_def)
  note more = converse_rtranclp_into_rtranclp [where r = "bc_step half_env ''Double''"]
  show ?thesis by (rule more [OF 1 more [OF 2 more [OF 3 more [OF 4 rtranclp.rtrancl_refl]]]])
qed

lemma half_end_fields:
  "bc_main half_end = Returned None" "bc_workers half_end = [Posting (Some (NewError ''broken'')) 0]"
  by (simp_all add: half_end_def half_start_def worker_call_def worker_signal_def main_receive_def main_return_def Let_def
      wrapCall_def half_env_def demo_env_def ErrorOrNil_def NewMultiError_def)

theorem broadcast_result_witness:
  "\<exists>k \<in> set (bc_workers half_end). \<exists>e v. outcome_of k = Some (Some e, v)"
  using broadcast_result [OF half_start half_run half_end_fields(1)] by (simp add: half_end_fields)

text \<open>
  A failed broadcast can be reported as a success. A goroutine signals the failure of its call
  before it records the error, so there is a schedule in which the only call of a broadcast failed and
  nil is returned.
\<close>

theorem broadcast_race:
  "\<exists>x w b0 b. Broadcast_start half_env (0 :: nat) x w = Inr b0 \<and> bc_run half_env ''Double'' b0 b \<and>
     bc_main b = Returned None \<and> list_all (\<lambda>k. \<exists>e v. outcome_of k = Some (Some e, v)) (bc_workers b)"
  using half_start half_run half_end_fields by (intro exI conjI) (assumption | simp)+

text \<open>
  The reply of a broadcast comes from one successful call. In every schedule the reply is either what
  the caller passed in or what a call that succeeded left in its own copy; a failed call never touches it.
\<close>

theorem broadcast_reply:
  assumes "Broadcast_start env reply x w = Inr b0" and "bc_run env m b0 b"
  shows "bc_reply b = reply \<or> (\<exists>k \<in> set (bc_workers b). outcome_of k = Some (None, bc_reply b))"
  using bc_inv_run [OF assms(2) bc_inv_start [OF assms(1)]] by (simp add: bc_inv_def)

theorem broadcast_reply_witness: "bc_reply half_end = 0"
  using broadcast_reply [OF half_start half_run] by (simp add: half_end_fields)

lemma broadcast_clients_keys:
  assumes "broadcast_clients env addrs cm x w = (cm', x', w')"
    and "addr \<notin> fst ` set cm" "map_of (cachedClient x) addr = None" "\<And>w. fst (fst (generateClient env addr w)) \<noteq> None"
  shows "addr \<notin> fst ` set cm'"
  using assms
proof (induction env addrs cm x w rule: broadcast_clients.induct)
  case (1 env cm x w)
  then show ?case by simp
next
  case (2 env a addrs cm x w)
  obtain r y v where get: "getCachedClient env a x w = (r, y, v)" by (metis prod_cases3)
  show ?case
  proof (cases r)
    case (Inl err)
    have "map_of (cachedClient y) addr = None"
      using get Inl "2.prems"(3) by (auto simp: getCachedClient_def Let_def split: if_splits option.splits prod.splits)
    then show ?thesis using "2.IH"(1) [OF get [symmetric] Inl refl] "2.prems" get Inl by simp
  next
    case (Inr cl)
    note g = getCachedClient_Inr [OF get [unfolded Inr]]
    have "a \<noteq> addr"
    proof
      assume "a = addr"
      then have "generateClient env addr w = ((None, cl), v)"
        using g "2.prems"(3) by auto
      then show False using "2.prems"(4) [of w] by simp
    qed
    then have "map_of (cachedClient y) addr = None" "addr \<notin> fst ` set (gomap_set a cl cm)"
      using g "2.prems"(2,3) by (auto simp: dom_update)
    then show ?thesis using "2.IH"(2) [OF get [symmetric] _ refl] "2.prems" get Inr by simp
  qed
qed

text \<open>
  Servers that cannot be reached are left out silently. A server to which no connection can be made
  is not among those whose answers a broadcast waits for, so nil does not mean that all servers
  succeeded.
\<close>

theorem broadcast_skips_unreachable:
  assumes "Broadcast_start env reply x w = Inr b" and "map_of (cachedClient x) addr = None"
    and "\<And>w. fst (fst (generateClient env addr w)) \<noteq> None"
  shows "addr \<notin> fst ` set (bc_clients b)"
proof -
  obtain cm y v where c: "broadcast_clients env (map fst (xc_servers x)) [] x w = (cm, y, v)" by (metis prod_cases3)
  then have "addr \<notin> fst ` set cm"
    by (rule broadcast_clients_keys) (use assms(2,3) in simp_all)
  then show ?thesis using assms(1) c by (auto simp: Broadcast_start_def split: if_splits)
qed

theorem broadcast_skips_unreachable_witness: "''b:2'' \<notin> fst ` set (bc_clients half_start)"
  by (rule broadcast_skips_unreachable [OF half_start])
    (simp_all add: half_client_def watch_update_def Let_def demo_xclient_fields half_env_def demo_env_def generateClient_def
      splitNetworkAndAddress_def split: prod.split)

end
