(* ===== verification/Go_Text.thy ===== *)
theory Go_Text
  imports Prelude "HOL-Library.Char_ord" "HOL-Library.List_Lexorder"
begin

text \<open>
  What the HTTP gateway, the Consul plugin and the logger use of the packages \<^verbatim>\<open>strings\<close>, \<^verbatim>\<open>strconv\<close>,
  \<^verbatim>\<open>net/url\<close> and \<^verbatim>\<open>net\<close>: splitting, decimal numbers with their overflow, query strings, and host-port
  pairs. The quoted text in an error message depends on the Unicode table of printable runes; the
  function \<^verbatim>\<open>strconv.Quote\<close> is an argument of the operations that report such errors.
\<close>

section \<open>Splitting\<close>

fun split_on :: "'a \<Rightarrow> 'a list \<Rightarrow> 'a list list" where
  \<comment> \<open>\<^verbatim>\<open>strings.Split\<close> with a separator of one byte: never empty\<close>
  "split_on c [] = [[]]"
| "split_on c (x # xs) =
     (if x = c then [] # split_on c xs
      else (case split_on c xs of [] \<Rightarrow> [[x]] | s # ss \<Rightarrow> (x # s) # ss))"

fun cut :: "'a \<Rightarrow> 'a list \<Rightarrow> 'a list \<times> 'a list" where
  \<comment> \<open>\<^verbatim>\<open>strings.Cut\<close>, without its third result\<close>
  "cut c [] = ([], [])"
| "cut c (x # xs) = (if x = c then ([], xs) else (case cut c xs of (a, b) \<Rightarrow> (x # a, b)))"

fun join_with :: "'a \<Rightarrow> 'a list list \<Rightarrow> 'a list" where
  "join_with c [] = []"
| "join_with c [s] = s"
| "join_with c (s # t # ts) = s @ c # join_with c (t # ts)"

lemma split_on_nonempty [simp]: "split_on c xs \<noteq> []"
  by (induction xs) (auto split: list.splits)

lemma split_on_none: "c \<notin> set xs \<Longrightarrow> split_on c xs = [xs]"
  by (induction xs) auto

lemma split_on_at: "c \<notin> set xs \<Longrightarrow> split_on c (xs @ c # ys) = xs # split_on c ys"
  by (induction xs) auto

lemma split_join: "ss \<noteq> [] \<Longrightarrow> (\<And>s. s \<in> set ss \<Longrightarrow> c \<notin> set s) \<Longrightarrow> split_on c (join_with c ss) = ss"
  by (induction c ss rule: join_with.induct) (auto simp: split_on_none split_on_at)

lemma cut_at: "c \<notin> set xs \<Longrightarrow> cut c (xs @ c # ys) = (xs, ys)"
  by (induction xs) auto

section \<open>Decimal numbers\<close>

definition digit_of :: "char \<Rightarrow> nat option" where
  "digit_of c = (let n = of_char c :: nat in if 48 \<le> n \<and> n \<le> 57 then Some (n - 48) else None)"

datatype num_failure = ErrSyntax | ErrRange

fun failure_text :: "num_failure \<Rightarrow> string" where
  "failure_text ErrSyntax = ''invalid syntax''"
| "failure_text ErrRange = ''value out of range''"

definition num_error :: "(string \<Rightarrow> string) \<Rightarrow> string \<Rightarrow> string \<Rightarrow> num_failure \<Rightarrow> go_error" where
  \<comment> \<open>the text of a \<^verbatim>\<open>strconv.NumError\<close>\<close>
  "num_error quote fn s k = NewError (''strconv.'' @ fn @ '': parsing '' @ quote s @ '': '' @ failure_text k)"

text \<open>
  The loop of \<^verbatim>\<open>ParseUint\<close> in base 10 at 64 bits. It stops at the first digit that overflows, before it
  has looked at the bytes after it.
\<close>

fun parse_digits :: "nat \<Rightarrow> string \<Rightarrow> num_failure + nat" where
  "parse_digits n [] = Inr n"
| "parse_digits n (c # cs) =
     (case digit_of c of
        None \<Rightarrow> Inl ErrSyntax
      | Some d \<Rightarrow> if 2 ^ 64 \<le> 10 * n + d then Inl ErrRange else parse_digits (10 * n + d) cs)"

definition uint_value :: "string \<Rightarrow> num_failure + nat" where
  "uint_value s = (if s = [] then Inl ErrSyntax else parse_digits 0 s)"

definition ParseUint :: "(string \<Rightarrow> string) \<Rightarrow> string \<Rightarrow> go_error + u64" where
  "ParseUint quote s =
     (case uint_value s of Inl k \<Rightarrow> Inl (num_error quote ''ParseUint'' s k) | Inr n \<Rightarrow> Inr (word_of_nat n))"

text \<open>
  \<^verbatim>\<open>Atoi\<close> on a 64-bit machine: an optional sign and digits. On a range error the value is the nearest
  representable number, on a syntax error it is 0.
\<close>

definition signed_value :: "bool \<Rightarrow> string \<Rightarrow> int \<times> num_failure option" where
  "signed_value neg s =
     (case uint_value s of
        Inl ErrSyntax \<Rightarrow> (0, Some ErrSyntax)
      | Inl ErrRange \<Rightarrow> (if neg then - (2 ^ 63) else 2 ^ 63 - 1, Some ErrRange)
      | Inr n \<Rightarrow>
          if \<not> neg \<and> 2 ^ 63 \<le> n then (2 ^ 63 - 1, Some ErrRange)
          else if neg \<and> 2 ^ 63 < n then (- (2 ^ 63), Some ErrRange)
          else (if neg then - int n else int n, None))"

definition Atoi :: "(string \<Rightarrow> string) \<Rightarrow> string \<Rightarrow> int \<times> go_error option" where
  "Atoi quote s =
     (let (v, k) = (case s of
              [] \<Rightarrow> (0, Some ErrSyntax)
            | c # cs \<Rightarrow>
                if c = CHR ''-'' then signed_value True cs
                else if c = CHR ''+'' then signed_value False cs
                else signed_value False s)
      in (v, map_option (num_error quote ''Atoi'' s) k))"

lemma digit_of_char: "d < 10 \<Longrightarrow> digit_of (char_of (48 + d)) = Some d"
  by (simp add: digit_of_def Let_def)

lemma parse_digits_append:
  "parse_digits n (xs @ [c]) =
    (case parse_digits n xs of Inl k \<Rightarrow> Inl k | Inr m \<Rightarrow> parse_digits m [c])"
  by (induction n xs rule: parse_digits.induct) (auto split: option.splits)

lemma parse_dec_of_nat: "n < 2 ^ 64 \<Longrightarrow> parse_digits 0 (dec_of_nat n) = Inr n"
proof (induction n rule: dec_of_nat.induct)
  case (1 n)
  show ?case
  proof (cases "n < 10")
    case True
    then show ?thesis by (simp add: dec_of_nat.simps [of n] digit_of_char)
  next
    case False
    have "parse_digits 0 (dec_of_nat (n div 10)) = Inr (n div 10)"
      using 1 False by simp
    then show ?thesis
      using False 1(2) by (simp add: dec_of_nat.simps [of n] parse_digits_append digit_of_char)
  qed
qed

lemma ParseUint_dec: "n < 2 ^ 64 \<Longrightarrow> ParseUint quote (dec_of_nat n) = Inr (word_of_nat n)"
  by (simp add: ParseUint_def uint_value_def parse_dec_of_nat)

lemma parse_digits_bound: "parse_digits n s = Inr m \<Longrightarrow> n < 2 ^ 64 \<Longrightarrow> m < 2 ^ 64"
  by (induction n s rule: parse_digits.induct) (auto split: option.splits if_splits)

lemma signed_value_bounds: "- (2 ^ 63) \<le> fst (signed_value neg s) \<and> fst (signed_value neg s) < 2 ^ 63"
proof (cases "uint_value s")
  case (Inl k)
  then show ?thesis by (cases k) (simp_all add: signed_value_def)
next
  case (Inr n)
  have "int n < 2 ^ 63" if "n < 2 ^ 63" using that by simp
  moreover have "int n \<le> 2 ^ 63" if "n \<le> 2 ^ 63" using that by simp
  ultimately show ?thesis using Inr by (simp add: signed_value_def)
qed

lemma Atoi_bounds: "- (2 ^ 63) \<le> fst (Atoi quote s) \<and> fst (Atoi quote s) < 2 ^ 63"
  using signed_value_bounds [of True "tl s"] signed_value_bounds [of False "tl s"] signed_value_bounds [of False s]
  by (auto simp: Atoi_def Let_def split: list.split prod.split)

lemma dec_digits: "c \<in> set (dec_of_nat n) \<Longrightarrow> digit_of c \<noteq> None"
proof (induction n rule: dec_of_nat.induct)
  case (1 n)
  have last: "digit_of (char_of (48 + n mod 10)) \<noteq> None" by (simp add: digit_of_char)
  show ?case
  proof (cases "n < 10")
    case True
    then show ?thesis using 1(2) last by (simp add: dec_of_nat.simps [of n])
  next
    case False
    then show ?thesis using 1 last by (auto simp: dec_of_nat.simps [of n])
  qed
qed

lemma digit_not_sign: "digit_of (CHR ''-'') = None" "digit_of (CHR ''+'') = None"
  by (simp_all add: digit_of_def)

lemma Atoi_digits:
  assumes "digit_of c \<noteq> None"
  shows "Atoi quote (c # cs) =
    (case signed_value False (c # cs) of (v, k) \<Rightarrow> (v, map_option (num_error quote ''Atoi'' (c # cs)) k))"
proof -
  have "c \<noteq> CHR ''-''" "c \<noteq> CHR ''+''"
    using assms digit_not_sign by metis+
  then show ?thesis by (simp add: Atoi_def Let_def)
qed

lemma Atoi_dec:
  assumes "n < 2 ^ 63"
  shows "Atoi quote (dec_of_nat n) = (int n, None)"
proof -
  obtain c cs where s: "dec_of_nat n = c # cs"
    by (cases "dec_of_nat n") auto
  have "digit_of c \<noteq> None" using dec_digits [of c n] s by simp
  moreover have "signed_value False (dec_of_nat n) = (int n, None)"
    using assms parse_dec_of_nat [of n] by (simp add: signed_value_def uint_value_def)
  ultimately show ?thesis using Atoi_digits [of c quote cs] s by simp
qed

end
