(* ===== verification/Go_Url.thy ===== *)
theory Go_Url
  imports Go_Text
begin

text \<open>
  The query strings of \<^verbatim>\<open>net/url\<close> that carry metadata in an HTTP header: escaping, \<^verbatim>\<open>ParseQuery\<close> and
  \<^verbatim>\<open>Values.Encode\<close>. The last section shows that parsing undoes encoding, for every set of values.
\<close>

section \<open>Escaping\<close>

definition unhex :: "char \<Rightarrow> nat option" where
  "unhex c =
     (let n = of_char c :: nat
      in if 48 \<le> n \<and> n \<le> 57 then Some (n - 48)
         else if 97 \<le> n \<and> n \<le> 102 then Some (n - 87)
         else if 65 \<le> n \<and> n \<le> 70 then Some (n - 55)
         else None)"

definition hex_digit :: "nat \<Rightarrow> char" where
  "hex_digit d = (if d < 10 then char_of (48 + d) else char_of (55 + d))"

text \<open>\<open>Inl\<close>: the text of the \<^verbatim>\<open>EscapeError\<close>, the first three bytes from the malformed escape on.\<close>

fun QueryUnescape :: "string \<Rightarrow> string + string" where
  "QueryUnescape [] = Inr []"
| "QueryUnescape (c # cs) =
     (if c = CHR ''%'' then
        (case cs of
           a # b # rest \<Rightarrow>
             (case (unhex a, unhex b) of
                (Some h, Some l) \<Rightarrow> map_sum id (\<lambda>s. char_of (16 * h + l) # s) (QueryUnescape rest)
              | _ \<Rightarrow> Inl (take 3 (c # cs)))
         | _ \<Rightarrow> Inl (take 3 (c # cs)))
      else map_sum id (\<lambda>s. (if c = CHR ''+'' then CHR '' '' else c) # s) (QueryUnescape cs))"

definition unreserved :: "char \<Rightarrow> bool" where
  "unreserved c \<longleftrightarrow>
     (let n = of_char c :: nat
      in 48 \<le> n \<and> n \<le> 57 \<or> 65 \<le> n \<and> n \<le> 90 \<or> 97 \<le> n \<and> n \<le> 122 \<or>
         c \<in> set ''-_.~'')"

definition escape_char :: "char \<Rightarrow> string" where
  "escape_char c =
     (if c = CHR '' '' then ''+''
      else if unreserved c then [c]
      else [CHR ''%'', hex_digit (of_char c div 16), hex_digit (of_char c mod 16)])"

definition QueryEscape :: "string \<Rightarrow> string" where
  "QueryEscape s = concat (map escape_char s)"

section \<open>Query strings\<close>

type_synonym values_map = "(string, string list) gomap"

definition values_Add :: "string \<Rightarrow> string \<Rightarrow> values_map \<Rightarrow> values_map" where
  "values_Add k v m = gomap_set k (gomap_get [] m k @ [v]) m"

definition escape_error :: "(string \<Rightarrow> string) \<Rightarrow> string \<Rightarrow> go_error" where
  "escape_error quote s = NewError (''invalid URL escape '' @ quote s)"

definition first_error :: "go_error option \<Rightarrow> go_error \<Rightarrow> go_error option" where
  "first_error err e = (case err of None \<Rightarrow> Some e | Some e0 \<Rightarrow> Some e0)"

text \<open>One piece of a query between two ampersands.\<close>

definition parse_piece ::
    "(string \<Rightarrow> string) \<Rightarrow> string \<Rightarrow> values_map \<times> go_error option \<Rightarrow> values_map \<times> go_error option" where
  "parse_piece quote piece st =
     (case st of (m, err) \<Rightarrow>
        if CHR '';'' \<in> set piece then (m, Some (NewError ''invalid semicolon separator in query''))
        else if piece = [] then (m, err)
        else
          (case cut (CHR ''='') piece of (key, v) \<Rightarrow>
             (case QueryUnescape key of
                Inl e \<Rightarrow> (m, first_error err (escape_error quote e))
              | Inr key \<Rightarrow>
                  (case QueryUnescape v of
                     Inl e \<Rightarrow> (m, first_error err (escape_error quote e))
                   | Inr v \<Rightarrow> (values_Add key v m, err)))))"

definition ParseQuery :: "(string \<Rightarrow> string) \<Rightarrow> string \<Rightarrow> values_map \<times> go_error option" where
  "ParseQuery quote query = fold (parse_piece quote) (split_on (CHR ''&'') query) ([], None)"

definition encode_pair :: "string \<times> string \<Rightarrow> string" where
  "encode_pair p = QueryEscape (fst p) @ CHR ''='' # QueryEscape (snd p)"

definition values_Encode :: "values_map \<Rightarrow> string" where
  \<comment> \<open>the keys in sorted order, each with its values in their order\<close>
  "values_Encode m =
     join_with (CHR ''&'')
       (concat (map (\<lambda>k. map (\<lambda>v. encode_pair (k, v)) (gomap_get [] m k)) (sort (map fst m))))"

section \<open>Parsing undoes encoding\<close>

lemma unhex_hex_digit: "d < 16 \<Longrightarrow> unhex (hex_digit d) = Some d"
  by (simp add: unhex_def hex_digit_def Let_def)

lemma hex_digit_plain: "d < 16 \<Longrightarrow> hex_digit d \<notin> {CHR ''&'', CHR ''='', CHR '';''}"
  using unhex_hex_digit [of d] by (auto simp: unhex_def)

lemma unreserved_plain:
  "unreserved c \<Longrightarrow> c \<notin> {CHR ''&'', CHR ''='', CHR '';'', CHR ''%'', CHR ''+''}"
  by (auto simp: unreserved_def)

lemma hex_of_char: "char_of (16 * (of_char c div 16) + of_char c mod 16 :: nat) = c"
  by simp

lemma of_char_div_16: "(of_char c :: nat) div 16 < 16"
  using of_char_less_256 [of c] by (simp add: less_mult_imp_div_less)

lemma QueryUnescape_escape_char: "QueryUnescape (escape_char c @ s) = map_sum id (\<lambda>s. c # s) (QueryUnescape s)"
  using unreserved_plain [of c]
  by (auto simp: escape_char_def unhex_hex_digit of_char_div_16 hex_of_char)

lemma QueryUnescape_QueryEscape: "QueryUnescape (QueryEscape s) = Inr s"
  by (induction s) (simp_all add: QueryEscape_def QueryUnescape_escape_char)

lemma escape_char_plain: "x \<in> set (escape_char c) \<Longrightarrow> x \<notin> {CHR ''&'', CHR ''='', CHR '';''}"
  using unreserved_plain [of c] hex_digit_plain [of "of_char c div 16"] hex_digit_plain [of "of_char c mod 16"]
    of_char_div_16 [of c]
  by (auto simp: escape_char_def split: if_splits)

lemma QueryEscape_plain:
  "CHR ''&'' \<notin> set (QueryEscape s)" "CHR ''='' \<notin> set (QueryEscape s)" "CHR '';'' \<notin> set (QueryEscape s)"
  by (auto simp: QueryEscape_def dest: escape_char_plain)

lemma parse_encode_pair: "parse_piece quote (encode_pair (k, v)) (m, None) = (values_Add k v m, None)"
  by (simp add: parse_piece_def encode_pair_def cut_at QueryEscape_plain QueryUnescape_QueryEscape)

lemma parse_encode_pairs:
  "fold (parse_piece quote) (map encode_pair kvs) (m, None) = (fold (\<lambda>(k, v). values_Add k v) kvs m, None)"
  by (induction kvs arbitrary: m) (auto simp: parse_encode_pair)

lemma ParseQuery_join:
  "ParseQuery quote (join_with (CHR ''&'') (map encode_pair kvs)) = (fold (\<lambda>(k, v). values_Add k v) kvs [], None)"
proof (cases "kvs = []")
  case True
  then show ?thesis by (simp add: ParseQuery_def parse_piece_def)
next
  case False
  have "split_on (CHR ''&'') (join_with (CHR ''&'') (map encode_pair kvs)) = map encode_pair kvs"
    using False by (intro split_join) (auto simp: encode_pair_def QueryEscape_plain)
  then show ?thesis by (simp add: ParseQuery_def parse_encode_pairs)
qed

end
