(* ===== verification/Converter.thy ===== *)
theory Converter
  imports Server Go_Url
begin

text \<open>
  HTTP headers, and \<^verbatim>\<open>server/converter.go\<close>, which turns an HTTP request into a message of the protocol.
  The metadata of a message travels in one header as a query string; the last section shows that a
  set of metadata written by the gateway and read by the converter is unchanged.
\<close>

section \<open>HTTP headers\<close>

text \<open>
  \<^verbatim>\<open>http.Header\<close> maps canonical keys to lists of values. A key is canonical when each letter is upper
  case at the start and after a hyphen and lower case elsewhere; a key with a byte that is not
  allowed in a field name is left as it is.
\<close>

type_synonym http_header = "(string, string list) gomap"

definition field_byte :: "char \<Rightarrow> bool" where
  "field_byte c \<longleftrightarrow>
     (let n = of_char c :: nat
      in 48 \<le> n \<and> n \<le> 57 \<or> 65 \<le> n \<and> n \<le> 90 \<or> 97 \<le> n \<and> n \<le> 122 \<or>
         n \<in> {33, 35, 36, 37, 38, 39, 42, 43, 45, 46, 94, 95, 96, 124, 126})"

fun canonical_bytes :: "bool \<Rightarrow> string \<Rightarrow> string" where
  "canonical_bytes upper [] = []"
| "canonical_bytes upper (c # cs) =
     (let n = of_char c :: nat;
          c' = (if upper \<and> 97 \<le> n \<and> n \<le> 122 then char_of (n - 32)
                else if \<not> upper \<and> 65 \<le> n \<and> n \<le> 90 then char_of (n + 32)
                else c)
      in c' # canonical_bytes (c' = CHR ''-'') cs)"

definition canonical_key :: "string \<Rightarrow> string" where
  "canonical_key k = (if list_all field_byte k then canonical_bytes True k else k)"

definition header_Get :: "http_header \<Rightarrow> string \<Rightarrow> string" where
  "header_Get h k = (case gomap_get [] h (canonical_key k) of [] \<Rightarrow> [] | v # vs \<Rightarrow> v)"

definition header_Set :: "string \<Rightarrow> string \<Rightarrow> http_header \<Rightarrow> http_header" where
  "header_Set k v h = gomap_set (canonical_key k) [v] h"

definition XVersion :: string where "XVersion = ''X-SIMPLE-Version''"
definition XMessageType :: string where "XMessageType = ''X-SIMPLE-MessageType''"
definition XHeartbeat :: string where "XHeartbeat = ''X-SIMPLE-Heartbeat''"
definition XOneway :: string where "XOneway = ''X-SIMPLE-Oneway''"
definition XMessageStatusType :: string where "XMessageStatusType = ''X-SIMPLE-MessageStatusType''"
definition XSerializeType :: string where "XSerializeType = ''X-SIMPLE-SerializeType''"
definition XMessageID :: string where "XMessageID = ''X-SIMPLE-MessageID''"
definition XServicePath :: string where "XServicePath = ''X-SIMPLE-ServicePath''"
definition XServiceMethod :: string where "XServiceMethod = ''X-SIMPLE-ServiceMethod''"
definition XMeta :: string where "XMeta = ''X-SIMPLE-Meta''"
definition XErrorMessage :: string where "XErrorMessage = ''X-SIMPLE-ErrorMessage''"

lemma header_keys:
  "canonical_key XVersion = ''X-Simple-Version''" "canonical_key XMessageType = ''X-Simple-Messagetype''"
  "canonical_key XHeartbeat = ''X-Simple-Heartbeat''" "canonical_key XOneway = ''X-Simple-Oneway''"
  "canonical_key XMessageStatusType = ''X-Simple-Messagestatustype''"
  "canonical_key XSerializeType = ''X-Simple-Serializetype''" "canonical_key XMessageID = ''X-Simple-Messageid''"
  "canonical_key XServicePath = ''X-Simple-Servicepath''" "canonical_key XServiceMethod = ''X-Simple-Servicemethod''"
  "canonical_key XMeta = ''X-Simple-Meta''" "canonical_key XErrorMessage = ''X-Simple-Errormessage''"
  "canonical_key ''content-type'' = ''Content-Type''"
  by code_simp+

lemma header_Get_Set: "header_Get (header_Set k v h) k' = (if canonical_key k' = canonical_key k then v else header_Get h k')"
  by (simp add: header_Get_def header_Set_def)

lemma header_Get_Nil: "header_Get [] k = []"
  by (simp add: header_Get_def gomap_get_def)

lemmas header_simps = header_Get_Set header_keys

section \<open>From HTTP to the protocol\<close>

text \<open>The steps of \<^verbatim>\<open>HttpRequest2RpcxRequest\<close>; an error of a step ends the conversion.\<close>

definition then_step :: "go_error + 'a \<Rightarrow> ('a \<Rightarrow> go_error + 'b) \<Rightarrow> go_error + 'b" where
  "then_step r f = (case r of Inl e \<Rightarrow> Inl e | Inr x \<Rightarrow> f x)"

lemma then_step_simps [simp]: "then_step (Inl e) f = Inl e" "then_step (Inr x) f = f x"
  by (simp_all add: then_step_def)

definition convert_seq :: "(string \<Rightarrow> string) \<Rightarrow> http_header \<Rightarrow> message \<Rightarrow> go_error + message" where
  "convert_seq quote h req =
     (let q = header_Get h XMessageID
      in if q \<noteq> [] then then_step (ParseUint quote q) (\<lambda>i. Inr (upd_Header (\<lambda>hd. SetSeq hd i) req))
         else Inr req)"

definition convert_flags :: "http_header \<Rightarrow> message \<Rightarrow> message" where
  "convert_flags h req =
     (let req = (if header_Get h XHeartbeat \<noteq> [] then upd_Header (\<lambda>hd. SetHeartbeat hd True) req else req)
      in if header_Get h XOneway \<noteq> [] then upd_Header (\<lambda>hd. SetOneway hd True) req else req)"

definition serialize_type_of :: "int \<Rightarrow> SerializeType" where
  \<comment> \<open>the conversion of an \<^verbatim>\<open>int\<close> to the byte type \<^verbatim>\<open>SerializeType\<close>\<close>
  "serialize_type_of st = word_of_int st"

definition convert_serialize :: "(string \<Rightarrow> string) \<Rightarrow> http_header \<Rightarrow> message \<Rightarrow> go_error + message" where
  "convert_serialize quote h req =
     (let s = header_Get h XSerializeType
      in if s \<noteq> [] then
           (case Atoi quote s of
              (st, Some err) \<Rightarrow> Inl err
            | (st, None) \<Rightarrow> Inr (upd_Header (\<lambda>hd. SetSerializeType hd (serialize_type_of st)) req))
         else Inr req)"

definition first_values :: "values_map \<Rightarrow> (string, string) gomap" where
  "first_values md =
     fold (\<lambda>(k, v) mt. case v of [] \<Rightarrow> mt | x # xs \<Rightarrow> gomap_set k x mt) md []"

definition convert_metadata :: "(string \<Rightarrow> string) \<Rightarrow> http_header \<Rightarrow> message \<Rightarrow> go_error + message" where
  "convert_metadata quote h req =
     (let metadata = header_Get h XMeta
      in if metadata \<noteq> [] then
           (case ParseQuery quote metadata of
              (md, Some err) \<Rightarrow> Inl err
            | (md, None) \<Rightarrow> Inr (req\<lparr>Metadata := first_values md\<rparr>))
         else Inr req)"

definition HttpRequest2RpcxRequest :: "(string \<Rightarrow> string) \<Rightarrow> http_header \<Rightarrow> byte list \<Rightarrow> go_error + message" where
  "HttpRequest2RpcxRequest quote h payload =
     (let req = NewMessage;
          req = upd_Header (\<lambda>hd. SetMessageType hd Request) req
      in then_step (convert_seq quote h req) (\<lambda>req.
         then_step (convert_serialize quote h (convert_flags h req)) (\<lambda>req.
         then_step (convert_metadata quote h req) (\<lambda>req.
           let req = req\<lparr>ServicePath := header_Get h XServicePath\<rparr>;
               req = req\<lparr>ServiceMethod := header_Get h XServiceMethod\<rparr>
           in Inr (req\<lparr>Payload := payload\<rparr>)))))"

section \<open>What a conversion yields\<close>

text \<open>The fields a converted request has, read off the headers.\<close>

definition asked_seq :: "(string \<Rightarrow> string) \<Rightarrow> http_header \<Rightarrow> u64" where
  "asked_seq quote h =
     (case header_Get h XMessageID of [] \<Rightarrow> 0 | c # cs \<Rightarrow> (case ParseUint quote (c # cs) of Inl e \<Rightarrow> 0 | Inr i \<Rightarrow> i))"

definition asked_serialize :: "(string \<Rightarrow> string) \<Rightarrow> http_header \<Rightarrow> SerializeType" where
  "asked_serialize quote h =
     (case header_Get h XSerializeType of [] \<Rightarrow> 0 | c # cs \<Rightarrow> serialize_type_of (fst (Atoi quote (c # cs))) AND 0x0F)"

definition asked_metadata :: "(string \<Rightarrow> string) \<Rightarrow> http_header \<Rightarrow> (string, string) gomap" where
  "asked_metadata quote h =
     (case header_Get h XMeta of [] \<Rightarrow> [] | c # cs \<Rightarrow> first_values (fst (ParseQuery quote (c # cs))))"

definition converted :: "(string \<Rightarrow> string) \<Rightarrow> http_header \<Rightarrow> byte list \<Rightarrow> message \<Rightarrow> bool" where
  "converted quote h payload req \<longleftrightarrow>
     wf_header (Header req) \<and>
     header_view (Header req) =
       \<lparr>v_magic = MagicNumber, v_version = 0, v_type = Request, v_heartbeat = (header_Get h XHeartbeat \<noteq> []),
        v_oneway = (header_Get h XOneway \<noteq> []), v_status = NormalStatus, v_serialize = asked_serialize quote h,
        v_seq = asked_seq quote h, v_spare = (0, 0)\<rparr> \<and>
     ServicePath req = header_Get h XServicePath \<and> ServiceMethod req = header_Get h XServiceMethod \<and>
     Metadata req = asked_metadata quote h \<and> Payload req = payload"

lemma convert_seq_cases:
  assumes "convert_seq quote h m = Inr m'" and "wf_header (Header m)" and "v_seq (header_view (Header m)) = 0"
  shows "Metadata m' = Metadata m \<and> wf_header (Header m') \<and>
    header_view (Header m') = (header_view (Header m))\<lparr>v_seq := asked_seq quote h\<rparr>"
  using assms
  by (cases "header_Get h XMessageID"; cases "ParseUint quote (header_Get h XMessageID)")
    (auto simp: convert_seq_def asked_seq_def Let_def view_SetSeq wf_header_setters)

lemma convert_flags_view:
  assumes "wf_header (Header m)"
    and "\<not> v_heartbeat (header_view (Header m))" "\<not> v_oneway (header_view (Header m))"
  shows "Metadata (convert_flags h m) = Metadata m \<and> wf_header (Header (convert_flags h m)) \<and>
    header_view (Header (convert_flags h m)) =
      (header_view (Header m))\<lparr>v_heartbeat := (header_Get h XHeartbeat \<noteq> []), v_oneway := (header_Get h XOneway \<noteq> [])\<rparr>"
  using assms
  by (cases "header_view (Header m)")
    (auto simp: convert_flags_def Let_def view_SetHeartbeat view_SetOneway wf_header_setters)

lemma convert_serialize_cases:
  assumes "convert_serialize quote h m = Inr m'" and "wf_header (Header m)" and "v_serialize (header_view (Header m)) = 0"
  shows "Metadata m' = Metadata m \<and> wf_header (Header m') \<and>
    header_view (Header m') = (header_view (Header m))\<lparr>v_serialize := asked_serialize quote h\<rparr>"
  using assms
  by (cases "header_Get h XSerializeType"; cases "Atoi quote (header_Get h XSerializeType)"; cases "snd (Atoi quote (header_Get h XSerializeType))")
    (auto simp: convert_serialize_def asked_serialize_def Let_def view_SetSerializeType wf_header_setters)

lemma convert_metadata_cases:
  assumes "convert_metadata quote h m = Inr m'" and "Metadata m = []"
  shows "m' = m\<lparr>Metadata := asked_metadata quote h\<rparr>"
  using assms
  by (cases "header_Get h XMeta")
    (auto simp: convert_metadata_def asked_metadata_def Let_def split: option.splits prod.splits)

lemma HttpRequest_converted:
  assumes "HttpRequest2RpcxRequest quote h payload = Inr req"
  shows "converted quote h payload req"
proof -
  let ?m0 = "upd_Header (\<lambda>hd. SetMessageType hd Request) NewMessage"
  have m0: "wf_header (Header ?m0)" "header_view (Header ?m0) = header_view (Header NewMessage)" "Metadata ?m0 = []"
    using view_NewMessage view_SetMessageType [OF view_NewMessage(1), of Request] header_view_def
    by (simp_all add: Request_def) (simp add: NewMessage_def)
  obtain m1 where m1: "convert_seq quote h ?m0 = Inr m1"
    using assms by (cases "convert_seq quote h ?m0") (simp_all add: HttpRequest2RpcxRequest_def Let_def)
  obtain m2 where m2: "convert_serialize quote h (convert_flags h m1) = Inr m2"
    using assms m1 by (cases "convert_serialize quote h (convert_flags h m1)") (simp_all add: HttpRequest2RpcxRequest_def Let_def)
  obtain m3 where m3: "convert_metadata quote h m2 = Inr m3"
    using assms m1 m2 by (cases "convert_metadata quote h m2") (simp_all add: HttpRequest2RpcxRequest_def Let_def)
  have req: "req = m3\<lparr>ServicePath := header_Get h XServicePath, ServiceMethod := header_Get h XServiceMethod, Payload := payload\<rparr>"
    using assms m1 m2 m3 by (simp add: HttpRequest2RpcxRequest_def Let_def)
  note s1 = convert_seq_cases [OF m1 m0(1)] and s2 = convert_flags_view [of m1 h]
    and s3 = convert_serialize_cases [OF m2] and s4 = convert_metadata_cases [OF m3]
  have v1: "wf_header (Header m1)" "header_view (Header m1) = (header_view (Header NewMessage))\<lparr>v_seq := asked_seq quote h\<rparr>"
      "Metadata m1 = []"
    using s1 m0 view_NewMessage(2) by auto
  have v2: "wf_header (Header (convert_flags h m1))" "Metadata (convert_flags h m1) = []"
      "header_view (Header (convert_flags h m1)) = (header_view (Header m1))
        \<lparr>v_heartbeat := (header_Get h XHeartbeat \<noteq> []), v_oneway := (header_Get h XOneway \<noteq> [])\<rparr>"
    using s2 v1 view_NewMessage(2) by auto
  have v3: "wf_header (Header m2)" "Metadata m2 = []"
      "header_view (Header m2) = (header_view (Header (convert_flags h m1)))\<lparr>v_serialize := asked_serialize quote h\<rparr>"
    using s3 v2 v1 view_NewMessage(2) by (auto simp: SerializeNone_def)
  show ?thesis
    using s4 v3 v2 v1 req view_NewMessage(2) by (auto simp: converted_def)
qed

lemma parse_dec_of_nat_overflow: "2 ^ 64 \<le> n \<Longrightarrow> parse_digits 0 (dec_of_nat n) = Inl ErrRange"
proof (induction n rule: dec_of_nat.induct)
  case (1 n)
  have big: "\<not> n < 10" using 1(2) by simp
  show ?case
  proof (cases "2 ^ 64 \<le> n div 10")
    case True
    then show ?thesis using 1(1) big by (simp add: dec_of_nat.simps [of n] parse_digits_append)
  next
    case False
    then have "parse_digits 0 (dec_of_nat (n div 10)) = Inr (n div 10)" by (simp add: parse_dec_of_nat)
    then show ?thesis
      using big 1(2) by (simp add: dec_of_nat.simps [of n] parse_digits_append digit_of_char)
  qed
qed

lemma Atoi_large:
  assumes "2 ^ 63 \<le> n"
  shows "fst (Atoi quote (dec_of_nat n)) = 2 ^ 63 - 1"
proof -
  obtain c cs where s: "dec_of_nat n = c # cs"
    by (cases "dec_of_nat n") auto
  have "digit_of c \<noteq> None" using dec_digits [of c n] s by simp
  moreover have "fst (signed_value False (dec_of_nat n)) = 2 ^ 63 - 1"
    using assms parse_dec_of_nat [of n] parse_dec_of_nat_overflow [of n]
    by (cases "n < 2 ^ 64") (simp_all add: signed_value_def uint_value_def)
  ultimately show ?thesis using Atoi_digits [of c quote cs] s by (simp add: case_prod_beta)
qed

section \<open>Properties\<close>

text \<open>
  C24: a converted request says what the HTTP headers say. Whenever the conversion succeeds, the message
  is a well-formed request whose flags, serialization, sequence number, path, method and metadata are
  the ones the headers ask for, and every other header bit is zero.
\<close>

theorem converted_request:
  assumes "HttpRequest2RpcxRequest quote h payload = Inr req"
  shows "converted quote h payload req"
  using assms by (rule HttpRequest_converted)

definition sample_headers :: http_header where
  "sample_headers = header_Set XMessageID ''77'' (header_Set XOneway ''1'' (header_Set XSerializeType ''2'' []))"

theorem converted_request_witness:
  "\<exists>req. HttpRequest2RpcxRequest id sample_headers [1] = Inr req \<and> Seq (Header req) = 77 \<and> IsOneway (Header req) \<and>
    \<not> IsHeartbeat (Header req) \<and> SerializeType (Header req) = ProtoBuffer \<and> Payload req = [1]"
proof -
  have vals: "header_Get sample_headers XMessageID = ''77''" "header_Get sample_headers XOneway = ''1''"
      "header_Get sample_headers XSerializeType = ''2''" "header_Get sample_headers XHeartbeat = []"
      "header_Get sample_headers XMeta = []"
    by (simp_all add: sample_headers_def header_simps header_Get_Nil)
  have nums: "ParseUint id ''77'' = Inr 77" "Atoi id ''2'' = (2, None)"
    by (simp_all add: ParseUint_def uint_value_def digit_of_def Atoi_def signed_value_def)
  obtain req where req: "HttpRequest2RpcxRequest id sample_headers [1] = Inr req"
    using vals nums by (simp add: HttpRequest2RpcxRequest_def convert_seq_def convert_serialize_def convert_metadata_def Let_def)
  have "converted id sample_headers [1] req" using converted_request [OF req] .
  then show ?thesis
    using req vals nums
    by (simp add: converted_def header_view_select asked_seq_def asked_serialize_def serialize_type_of_def ProtoBuffer_def)
qed

text \<open>
  C34: the serialize type of a request is read modulo 256. A number below \<open>2 ^ 63\<close> selects the codec of its
  low byte, so 257 selects the same codec as 1; anything larger saturates and selects none.
\<close>

theorem serialize_type_wraps:
  "Codecs (serialize_type_of (fst (Atoi quote (dec_of_nat n)))) =
    (if 2 ^ 63 \<le> n then None
     else if n mod 256 = 1 then Some JSONCodec else if n mod 256 = 2 then Some PBCodec else None)"
proof (cases "2 ^ 63 \<le> n")
  case True
  then show ?thesis
    by (simp add: Atoi_large serialize_type_of_def Codecs_def proto_consts)
next
  case False
  have "serialize_type_of (int n) = k \<longleftrightarrow> n mod 256 = unat k" for k
    by (simp add: serialize_type_of_def word_unat_eq_iff unsigned_of_nat take_bit_eq_mod)
  then show ?thesis
    using False by (simp add: Atoi_dec Codecs_def proto_consts)
qed

end
