(* ===== verification/Gateway.thy ===== *)
theory Gateway
  imports Converter
begin

text \<open>
  The HTTP gateway of \<^verbatim>\<open>server/gateway.go\<close>: how connections are told apart, the routes, and the handler
  that runs a method of the server for an HTTP request. The name conversion of \<^verbatim>\<open>strcase\<close>, the
  unmarshalling of JSON and the multiplexer are parameters. The handler is shown to give the answer that
  a specification written from the request and the registered services demands.
\<close>

section \<open>Telling the protocols apart\<close>

definition rpcxPrefixByteMatcher :: "reader \<Rightarrow> bool" where
  \<comment> \<open>one byte is asked for; \<open>n = 1\<close> exactly if there is one\<close>
  "rpcxPrefixByteMatcher r =
     (case rd_bytes r of [] \<Rightarrow> False | b # bs \<Rightarrow> b = MagicNumber)"

datatype http_sink = RpcLoop | HttpGateway

text \<open>
  \<^verbatim>\<open>startGateway\<close>: \<^term>\<open>None\<close> when the listener is used as it is, otherwise the matchers in the order they
  are registered with the multiplexer, each with what becomes of its connections. \<open>http1\<close> is the
  library's matcher of HTTP requests.
\<close>

definition startGateway ::
    "(reader \<Rightarrow> bool) \<Rightarrow> bool \<Rightarrow> string \<Rightarrow> ((reader \<Rightarrow> bool) \<times> http_sink) list option" where
  "startGateway http1 DisableHTTPGateway network =
     (if network \<noteq> ''tcp'' \<and> network \<noteq> ''tcp4'' \<and> network \<noteq> ''tcp6'' then None
      else
        let m = [(rpcxPrefixByteMatcher, RpcLoop)]
        in Some (if \<not> DisableHTTPGateway then m @ [(http1, HttpGateway)] else m))"

definition gateway_routes :: "(string \<times> string) list" where
  "gateway_routes = [(''GET'', ''/*servicePath''), (''POST'', ''/*servicePath'')]"

text \<open>
  \<^verbatim>\<open>startHTTP1APIGateway\<close> serves the routes until it fails, and logs the end. The error a closed
  \<^verbatim>\<open>http.Server\<close> returns is a value of its own, although its text is that of \<^const>\<open>ErrServerClosed\<close>.
\<close>

datatype gateway_end = GatewayClosed | GatewayFailed go_error

definition startHTTP1APIGateway :: "go_error \<Rightarrow> gateway_end" where
  "startHTTP1APIGateway err =
     (if errors_Is err ErrServerClosed \<or> errors_Is err ErrListenerClosed \<or> errors_Is err CmuxErrServerClosed
      then GatewayClosed else GatewayFailed err)"

definition HttpErrServerClosed :: go_error where
  "HttpErrServerClosed = NewError ''http: Server closed''"

lemma closed_gateway_looks_failed:
  "startHTTP1APIGateway HttpErrServerClosed = GatewayFailed HttpErrServerClosed"
  "err_string HttpErrServerClosed = err_string ErrServerClosed"
  by (simp_all add: startHTTP1APIGateway_def HttpErrServerClosed_def)

section \<open>Requests and responses\<close>

record 'v http_lib =
  hl_ToCamel :: "string \<Rightarrow> string"
  hl_Quote :: "string \<Rightarrow> string"
  hl_Unmarshal :: "'v \<Rightarrow> byte list \<Rightarrow> go_error option \<times> 'v option"
    \<comment> \<open>\<^verbatim>\<open>json.Unmarshal(body, &argv)\<close>: it writes into the object, or, for the text null, sets \<^verbatim>\<open>argv\<close> to nil\<close>

record http_request =
  rq_Path :: string
  rq_Header :: http_header
  rq_Body :: "go_error + byte list" \<comment> \<open>what reading the body gives\<close>

record http_response =
  rw_Header :: http_header
  rw_status :: "nat option"
  rw_body :: "byte list"

definition WriteHeader :: "nat \<Rightarrow> http_response \<Rightarrow> http_response" where
  "WriteHeader code w = (case rw_status w of None \<Rightarrow> w\<lparr>rw_status := Some code\<rparr> | Some c \<Rightarrow> w)"

definition http_Write :: "byte list \<Rightarrow> http_response \<Rightarrow> http_response" where
  "http_Write bs w = (let w = WriteHeader 200 w in w\<lparr>rw_body := rw_body w @ bs\<rparr>)"

definition wset :: "string \<Rightarrow> string \<Rightarrow> http_response \<Rightarrow> http_response" where
  \<comment> \<open>\<^verbatim>\<open>wh.Set(k, v)\<close>\<close>
  "wset k v w = w\<lparr>rw_Header := header_Set k v (rw_Header w)\<rparr>"

definition writeErrHeader :: "nat \<Rightarrow> go_error \<Rightarrow> http_response \<Rightarrow> http_response" where
  "writeErrHeader code err w =
     (let w = wset XMessageStatusType ''Error'' w;
          w = wset XErrorMessage (err_string err) w
      in WriteHeader code w)"

definition new_response :: http_response where
  "new_response = \<lparr>rw_Header = [], rw_status = None, rw_body = []\<rparr>"

section \<open>The handler\<close>

text \<open>
  What the path and the headers ask for: service, method, serialize type, the error that is left when
  all checks have run (a later one replaces an earlier one), and both header sets.
\<close>

definition gateway_target ::
    "'v http_lib \<Rightarrow> string \<Rightarrow> string \<Rightarrow> http_header \<Rightarrow> http_response
     \<Rightarrow> (string \<times> string \<times> string \<times> go_error option) \<times> http_header \<times> http_response" where
  "gateway_target hl path1 path2 h w =
     (let servicePath = hl_ToCamel hl path1;
          serviceMethod = hl_ToCamel hl path2;
          (err, h, w) = (if servicePath = [] then (Some (NewError ''empty servicepath''), h, w)
             else (None, header_Set XServicePath servicePath h, wset XServicePath servicePath w));
          (err, h, w) = (if serviceMethod = [] then (Some (NewError ''empty servicemethod''), h, w)
             else (err, header_Set XServiceMethod serviceMethod h, wset XServiceMethod serviceMethod w));
          serializeType = header_Get h XSerializeType;
          (err, w) = (if serializeType = [] then (Some (NewError ''empty serialize type''), w)
             else (err, wset XSerializeType serializeType w));
          w = wset XVersion (header_Get h XVersion) w;
          w = wset XMessageID (header_Get h XMessageID) w;
          w = wset ''content-type'' ''application/json'' w
      in ((servicePath, serviceMethod, serializeType, err), h, w))"

text \<open>Encoding and putting back a value of interface type, which may be nil.\<close>

definition encode_iface :: "'v golib \<Rightarrow> codec \<Rightarrow> 'v option \<Rightarrow> go_error + byte list" where
  "encode_iface lib c x =
     (case x of
        Some v \<Rightarrow> codec_Encode lib c v
      | None \<Rightarrow>
          (case c of
             JSONCodec \<Rightarrow> Inr (StringToSliceByte ''null'')
           | PBCodec \<Rightarrow> Inl (NewError (''<nil> is not a proto.Marshaler or pb.Message''))))"

definition put_iface :: "'v golib \<Rightarrow> rtype \<Rightarrow> 'v option \<Rightarrow> 'v typePools \<Rightarrow> 'v typePools outcome" where
  "put_iface lib t x p = (case x of None \<Rightarrow> Return p | Some v \<Rightarrow> pool_Put lib t v p)"

text \<open>
  From the body to the message: an early answer with its status code, or the argument, the codec and
  the message. The result of \<^verbatim>\<open>Atoi\<close> is used whether it failed or not, and the codec may be nil.
\<close>

definition gateway_message ::
    "'v golib \<Rightarrow> 'v http_lib \<Rightarrow> 'v \<Rightarrow> string \<Rightarrow> http_header \<Rightarrow> go_error + byte list
     \<Rightarrow> (nat \<times> go_error + 'v option \<times> codec \<times> message) outcome" where
  "gateway_message lib hl argv serializeType h body =
     (case body of
        Inl err \<Rightarrow> Return (Inl (403, err))
      | Inr bs \<Rightarrow>
     (case hl_Unmarshal hl argv bs of
        (Some err, _) \<Rightarrow> Return (Inl (403, err))
      | (None, argv) \<Rightarrow>
     (case Codecs (serialize_type_of (fst (Atoi (hl_Quote hl) serializeType))) of
        None \<Rightarrow> Panic
      | Some codec \<Rightarrow>
     (case encode_iface lib codec argv of
        Inl err \<Rightarrow> Return (Inl (403, err))
      | Inr payload \<Rightarrow>
     (case HttpRequest2RpcxRequest (hl_Quote hl) h payload of
        Inl err \<Rightarrow> Return (Inl (403, err))
      | Inr reqMsg \<Rightarrow> Return (Inr (argv, codec, reqMsg)))))))"

definition metadata_header :: "(string, string) gomap \<Rightarrow> string" where
  "metadata_header md = values_Encode (fold (\<lambda>(k, v) meta. values_Add k v meta) md [])"

text \<open>From the response message to the HTTP response.\<close>

definition gateway_reply ::
    "'v golib \<Rightarrow> nat option \<Rightarrow> rtype \<Rightarrow> codec \<Rightarrow> message \<Rightarrow> http_response \<Rightarrow> ('v, 'w) registry
     \<Rightarrow> http_response outcome \<times> ('v, 'w) registry" where
  "gateway_reply lib pick replyType codec resMsg w svr =
     (case pool_Get lib replyType pick (reflectTypePools svr) of
        Panic \<Rightarrow> (Panic, svr)
      | Return (replyv, pools) \<Rightarrow>
          (let svr = upd_pools pools svr;
               (err, replyv) = codec_Decode lib codec (Payload resMsg) replyv;
               answer = (case err of Some e \<Rightarrow> Inl e | None \<Rightarrow> json_Marshal lib replyv)
           in case pool_Put lib replyType replyv (reflectTypePools svr) of
                Panic \<Rightarrow> (Panic, svr)
              | Return pools \<Rightarrow>
                  (case answer of
                     Inl e \<Rightarrow> (Return (writeErrHeader 500 e w), upd_pools pools svr)
                   | Inr body \<Rightarrow>
                       (Return (http_Write body (wset XMeta (metadata_header (Metadata resMsg)) w)),
                        upd_pools pools svr))))"

record gateway_picks =
  gp_arg :: "nat option"
  gp_handle :: "nat option \<times> nat option"
  gp_reply :: "nat option"

definition gateway_run ::
    "'v golib \<Rightarrow> gateway_picks \<Rightarrow> 'v methodType \<Rightarrow> 'v option \<times> codec \<times> message \<Rightarrow> http_response
     \<Rightarrow> ('v, 'w) registry \<Rightarrow> http_response outcome \<times> ('v, 'w) registry" where
  "gateway_run lib picks mtype prepared w svr =
     (case prepared of (argv, codec, reqMsg) \<Rightarrow>
     (case handleRequest lib (gp_handle picks) svr reqMsg of
        (Panic, svr) \<Rightarrow> (Panic, svr)
      | (Return (resMsg, Some err), svr) \<Rightarrow> (Return (writeErrHeader 500 err w), svr)
      | (Return (resMsg, None), svr) \<Rightarrow>
     (case put_iface lib (ArgType mtype) argv (reflectTypePools svr) of
        Panic \<Rightarrow> (Panic, svr)
      | Return pools \<Rightarrow>
          gateway_reply lib (gp_reply picks) (ReplyType mtype) codec resMsg w (upd_pools pools svr))))"

definition gateway_serve ::
    "'v golib \<Rightarrow> 'v http_lib \<Rightarrow> gateway_picks \<Rightarrow> string \<times> string \<times> string \<Rightarrow> http_header \<Rightarrow> go_error + byte list
     \<Rightarrow> http_response \<Rightarrow> ('v, 'w) registry \<Rightarrow> http_response outcome \<times> ('v, 'w) registry" where
  "gateway_serve lib hl picks target h body w svr =
     (case target of (servicePath, serviceMethod, serializeType) \<Rightarrow>
     (case getService svr servicePath of
        Inl err \<Rightarrow> (Return (writeErrHeader 403 err w), svr)
      | Inr svc \<Rightarrow>
     (case map_of (methodMap svc) serviceMethod of
        None \<Rightarrow> (Return (writeErrHeader 403 (NewError (''can't find method '' @ serviceMethod)) w), svr)
      | Some mtype \<Rightarrow>
     (case pool_Get lib (ArgType mtype) (gp_arg picks) (reflectTypePools svr) of
        Panic \<Rightarrow> (Panic, svr)
      | Return (argv, pools) \<Rightarrow>
     (let svr = upd_pools pools svr
      in case gateway_message lib hl argv serializeType h body of
        Panic \<Rightarrow> (Panic, svr)
      | Return (Inl (code, err)) \<Rightarrow> (Return (writeErrHeader code err w), svr)
      | Return (Inr prepared) \<Rightarrow> gateway_run lib picks mtype prepared w svr)))))"

definition handleGatewayRequest ::
    "'v golib \<Rightarrow> 'v http_lib \<Rightarrow> gateway_picks \<Rightarrow> http_request \<Rightarrow> ('v, 'w) registry
     \<Rightarrow> http_response outcome \<times> ('v, 'w) registry" where
  "handleGatewayRequest lib hl picks r svr =
     (let w = new_response
      in if rq_Path r = ''/health'' then (Return (WriteHeader 200 w), svr)
      else
        let paths = split_on (CHR ''/'') (rq_Path r)
        in if length paths > 3
           then (Return (writeErrHeader 403 (NewError ''path must be consist of service and method name'') w), svr)
           else if length paths < 3 then (Panic, svr) \<comment> \<open>\<^verbatim>\<open>paths[2]\<close> is out of range\<close>
           else
             (case gateway_target hl (paths ! 1) (paths ! 2) (rq_Header r) w of
                ((servicePath, serviceMethod, serializeType, err), h, w) \<Rightarrow>
                  (case err of
                     Some e \<Rightarrow> (Return (writeErrHeader 403 e w), svr)
                   | None \<Rightarrow> gateway_serve lib hl picks (servicePath, serviceMethod, serializeType) h (rq_Body r) w svr)))"


text \<open>The handler of the health check is registered nowhere; the general handler answers \<^verbatim>\<open>/health\<close> itself.\<close>

definition handleGatewayHealthCheck :: "http_response \<Rightarrow> http_response" where
  "handleGatewayHealthCheck w = WriteHeader 200 w"

section \<open>The specification\<close>

text \<open>
  What a request is answered with when every object is simply allocated: a sign of life, a body, a
  refusal with its status code, or an aborted connection. First the reference in which the parts of the
  handler that touch no pool are kept as they are; the specification written from the request alone
  follows.
\<close>

datatype http_answer = Healthy | Answer "byte list" | Refuse nat go_error | Abort

definition reply_spec :: "'v golib \<Rightarrow> 'v methodType \<Rightarrow> codec \<Rightarrow> rpc_outcome \<Rightarrow> http_answer" where
  "reply_spec lib mt c out =
     (case out of
        NoAnswer \<Rightarrow> Abort
      | Failed e \<Rightarrow> Refuse 500 e
      | Reply bs \<Rightarrow>
          (case codec_Decode lib c bs (pool_GetRaw lib (ReplyType mt)) of
             (Some e, v) \<Rightarrow> Refuse 500 e
           | (None, v) \<Rightarrow> (case json_Marshal lib v of Inl e \<Rightarrow> Refuse 500 e | Inr body \<Rightarrow> Answer body)))"

definition method_spec ::
    "'v golib \<Rightarrow> 'v http_lib \<Rightarrow> (string, 'v service) gomap \<Rightarrow> 'v methodType \<Rightarrow> string \<Rightarrow> http_header
     \<Rightarrow> go_error + byte list \<Rightarrow> http_answer" where
  "method_spec lib hl sm mt serializeType h body =
     (case gateway_message lib hl (pool_GetRaw lib (ArgType mt)) serializeType h body of
        Panic \<Rightarrow> Abort
      | Return (Inl (code, e)) \<Rightarrow> Refuse code e
      | Return (Inr (argv, c, req)) \<Rightarrow> reply_spec lib mt c (handle_spec lib sm req))"

definition gateway_spec ::
    "'v golib \<Rightarrow> 'v http_lib \<Rightarrow> (string, 'v service) gomap \<Rightarrow> string \<times> string \<times> string \<Rightarrow> http_header
     \<Rightarrow> go_error + byte list \<Rightarrow> http_answer" where
  "gateway_spec lib hl sm target h body =
     (case target of (servicePath, serviceMethod, serializeType) \<Rightarrow>
        (case map_of sm servicePath of
           None \<Rightarrow> Refuse 403 (NewError (''can't find service '' @ servicePath))
         | Some svc \<Rightarrow>
             (case map_of (methodMap svc) serviceMethod of
                None \<Rightarrow> Refuse 403 (NewError (''can't find method '' @ serviceMethod))
              | Some mt \<Rightarrow> method_spec lib hl sm mt serializeType h body)))"

fun render_http :: "http_response \<Rightarrow> http_answer \<Rightarrow> http_response outcome" where
  "render_http w Healthy = Return (WriteHeader 200 w)"
| "render_http w (Answer body) = Return (http_Write body (wset XMeta [] w))"
| "render_http w (Refuse code e) = Return (writeErrHeader code e w)"
| "render_http w Abort = Panic"

text \<open>Unmarshalling a body leaves an object at its type.\<close>

definition unmarshal_kept :: "'v golib \<Rightarrow> 'v http_lib \<Rightarrow> bool" where
  "unmarshal_kept lib hl \<longleftrightarrow>
     (\<forall>t v bs e v'. has_type lib t v \<longrightarrow> hl_Unmarshal hl v bs = (e, Some v') \<longrightarrow> has_type lib t v')"

section \<open>Refinement\<close>

lemma gateway_message_typed:
  assumes "gateway_message lib hl v s h body = Return (Inr (Some v', c, req))"
    and "unmarshal_kept lib hl" "pooled_type lib t v"
  shows "pooled_type lib t v'"
  using assms unfolding gateway_message_def unmarshal_kept_def pooled_type_def
  by (auto split: sum.splits prod.splits option.splits)

lemma put_iface_known:
  assumes "pools_inv lib p" "t \<in> known_types p" "\<And>v. x = Some v \<Longrightarrow> pooled_type lib t v"
  shows "\<exists>p'. put_iface lib t x p = Return p' \<and> pools_inv lib p' \<and> known_types p' = known_types p"
  using assms type_pools.put_known [of lib p t] by (cases x) (auto simp: put_iface_def)

lemma gateway_reply_refines:
  assumes sv: "serving up lib reg" and known: "t \<in> known_types (reflectTypePools reg)"
    and meta: "Metadata msg = []" and spec: "ReplyType mt = t"
  shows "\<exists>reg'. gateway_reply lib pick t c msg w reg = (render_http w (reply_spec lib mt c (Reply (Payload msg))), reg') \<and>
    serving up lib reg' \<and> serviceMap reg' = serviceMap reg"
proof -
  note tk = serving_typed [OF sv] and inv = serving_pools [OF sv]
  obtain p1 where p1: "pool_Get lib t pick (reflectTypePools reg) = Return (pool_New lib t, p1)"
      "pools_inv lib p1" "known_types p1 = known_types (reflectTypePools reg)"
    using type_pools.get_known [OF inv known] by blast
  obtain e v where d: "codec_Decode lib c (Payload msg) (pool_New lib t) = (e, v)" by fastforce
  have v: "pooled_type lib t v" using decode_typed [OF tk pool_New_typed [OF tk] d] .
  obtain p2 where p2: "pool_Put lib t v p1 = Return p2" "pools_inv lib p2" "known_types p2 = known_types p1"
    using type_pools.put_known [OF p1(2) _ v] known p1(3) by metis
  have "serving up lib (upd_pools p2 reg)"
    using serving_upd_pools [OF sv p2(2)] p1(3) p2(3) by simp
  moreover have "gateway_reply lib pick t c msg w reg =
      (render_http w (reply_spec lib mt c (Reply (Payload msg))), upd_pools p2 reg)"
    using p1(1) p2(1) d meta spec
    by (cases e; cases "json_Marshal lib v")
      (simp_all add: gateway_reply_def reply_spec_def GetRaw_New metadata_header_def values_Encode_def)
  ultimately show ?thesis by simp
qed

lemma gateway_run_refines:
  assumes sv: "serving up lib reg"
    and svc: "map_of (serviceMap reg) s = Some svc" and mt: "map_of (methodMap svc) n = Some mt"
    and argv: "\<And>v. argv = Some v \<Longrightarrow> pooled_type lib (ArgType mt) v"
  shows "\<exists>reg'. gateway_run lib picks mt (argv, c, req) w reg =
      (render_http w (reply_spec lib mt c (handle_spec lib (serviceMap reg) req)), reg') \<and>
    serving up lib reg' \<and> serviceMap reg' = serviceMap reg"
proof -
  obtain reg1 where h: "handleRequest lib (gp_handle picks) reg req =
      (render req (handle_spec lib (serviceMap reg) req), reg1)"
      and sv1: "serving up lib reg1" and sm: "serviceMap reg1 = serviceMap reg"
    using handleRequest_spec [OF sv] by blast
  show ?thesis
  proof (cases "handle_spec lib (serviceMap reg) req")
    case (Reply bs)
    note known = serving_known [OF sv1 svc [folded sm] mt]
    obtain p where p: "put_iface lib (ArgType mt) argv (reflectTypePools reg1) = Return p" "pools_inv lib p"
        "known_types p = known_types (reflectTypePools reg1)"
      using put_iface_known [OF serving_pools [OF sv1] known(1) argv] by blast
    have sv2: "serving up lib (upd_pools p reg1)" using serving_upd_pools [OF sv1 p(2,3)] .
    have "gateway_run lib picks mt (argv, c, req) w reg =
        gateway_reply lib (gp_reply picks) (ReplyType mt) c ((response_base req)\<lparr>Payload := bs\<rparr>) w (upd_pools p reg1)"
      using h Reply p(1) by (simp add: gateway_run_def)
    moreover have "ReplyType mt \<in> known_types (reflectTypePools (upd_pools p reg1))"
      using known(2) p(3) by simp
    ultimately show ?thesis
      using gateway_reply_refines [OF sv2, where t = "ReplyType mt" and mt = mt
          and msg = "(response_base req)\<lparr>Payload := bs\<rparr>"] Reply sm
      by (simp add: response_base_def)
  qed (use h sv1 sm in \<open>simp_all add: gateway_run_def reply_spec_def\<close>)
qed

lemma gateway_serve_refines:
  assumes sv: "serving up lib reg" and kept: "unmarshal_kept lib hl"
  shows "\<exists>reg'. gateway_serve lib hl picks target h body w reg =
      (render_http w (gateway_spec lib hl (serviceMap reg) target h body), reg') \<and>
    serving up lib reg' \<and> serviceMap reg' = serviceMap reg"
proof -
  obtain sp n st where target: "target = (sp, n, st)" by (cases target) auto
  show ?thesis
  proof (cases "map_of (serviceMap reg) sp")
    case None
    then show ?thesis using sv target by (simp add: gateway_serve_def gateway_spec_def getService_None)
  next
    case svc: (Some svc)
    show ?thesis
    proof (cases "map_of (methodMap svc) n")
      case None
      then show ?thesis using sv svc target by (simp add: gateway_serve_def gateway_spec_def getService_Some)
    next
      case mt: (Some mt)
      obtain p where p: "pool_Get lib (ArgType mt) (gp_arg picks) (reflectTypePools reg) = Return (pool_New lib (ArgType mt), p)"
          "pools_inv lib p" "known_types p = known_types (reflectTypePools reg)"
        using type_pools.get_known [OF serving_pools [OF sv] serving_known(1) [OF sv svc mt]] by blast
      have sv1: "serving up lib (upd_pools p reg)" using serving_upd_pools [OF sv p(2,3)] .
      let ?m = "gateway_message lib hl (pool_New lib (ArgType mt)) st h body"
      have start: "gateway_serve lib hl picks target h body w reg =
          (case ?m of Panic \<Rightarrow> (Panic, upd_pools p reg)
           | Return (Inl (code, err)) \<Rightarrow> (Return (writeErrHeader code err w), upd_pools p reg)
           | Return (Inr prepared) \<Rightarrow> gateway_run lib picks mt prepared w (upd_pools p reg))"
        using svc mt p(1) target by (simp add: gateway_serve_def getService_Some Let_def)
      have spec: "gateway_spec lib hl (serviceMap reg) target h body =
          (case ?m of Panic \<Rightarrow> Abort | Return (Inl (code, e)) \<Rightarrow> Refuse code e
           | Return (Inr (argv, c, req)) \<Rightarrow> reply_spec lib mt c (handle_spec lib (serviceMap reg) req))"
        using svc mt target by (simp add: gateway_spec_def method_spec_def GetRaw_New)
      consider "?m = Panic" | code e where "?m = Return (Inl (code, e))"
        | argv c req where "?m = Return (Inr (argv, c, req))"
        by (metis outcome.exhaust sum.exhaust prod_cases3 surj_pair)
      then show ?thesis
      proof cases
        case 3
        have "pooled_type lib (ArgType mt) v" if "argv = Some v" for v
          using gateway_message_typed [OF _ kept pool_New_typed [OF serving_typed [OF sv]]] 3 that by blast
        then show ?thesis
          using gateway_run_refines [OF sv1, of sp svc n mt argv] svc mt 3 start spec by fastforce
      qed (use sv1 start spec in simp_all)
    qed
  qed
qed

section \<open>The whole handler\<close>

definition target_spec :: "'v http_lib \<Rightarrow> http_request \<Rightarrow> ((string \<times> string \<times> string \<times> go_error option) \<times> http_header \<times> http_response) option" where
  \<comment> \<open>for a path of two parts\<close>
  "target_spec hl r =
     (case split_on (CHR ''/'') (rq_Path r) of
        [a, b, c] \<Rightarrow> Some (gateway_target hl b c (rq_Header r) new_response)
      | _ \<Rightarrow> None)"

definition http_spec ::
    "'v golib \<Rightarrow> 'v http_lib \<Rightarrow> (string, 'v service) gomap \<Rightarrow> http_request \<Rightarrow> http_response outcome" where
  "http_spec lib hl sm r =
     (if rq_Path r = ''/health'' then Return (WriteHeader 200 new_response)
      else case target_spec hl r of
        None \<Rightarrow>
          if length (split_on (CHR ''/'') (rq_Path r)) > 3
          then Return (writeErrHeader 403 (NewError ''path must be consist of service and method name'') new_response)
          else Panic
      | Some ((sp, n, st, Some e), h, w) \<Rightarrow> Return (writeErrHeader 403 e w)
      | Some ((sp, n, st, None), h, w) \<Rightarrow> render_http w (gateway_spec lib hl sm (sp, n, st) h (rq_Body r)))"

lemma three_parts:
  assumes "\<not> length ps > 3" "\<not> length ps < 3"
  obtains a b c where "ps = [a, b, c]"
proof -
  have "length ps = 3" using assms by simp
  then show ?thesis using that by (auto simp: length_Suc_conv numeral_3_eq_3)
qed

lemma handle_gateway_spec:
  assumes "serving up lib reg" "unmarshal_kept lib hl"
  shows "\<exists>reg'. handleGatewayRequest lib hl picks r reg = (http_spec lib hl (serviceMap reg) r, reg') \<and>
    serving up lib reg' \<and> serviceMap reg' = serviceMap reg"
proof -
  let ?ps = "split_on (CHR ''/'') (rq_Path r)"
  consider "rq_Path r = ''/health''" | "rq_Path r \<noteq> ''/health''" "length ?ps > 3" | "rq_Path r \<noteq> ''/health''" "length ?ps < 3"
    | "rq_Path r \<noteq> ''/health''" "\<not> length ?ps > 3" "\<not> length ?ps < 3" by blast
  then show ?thesis
  proof cases
    case 2
    then have "target_spec hl r = None" by (auto simp: target_spec_def split: list.split)
    then show ?thesis using 2 assms(1) by (simp add: handleGatewayRequest_def http_spec_def Let_def)
  next
    case 3
    then have "target_spec hl r = None" by (auto simp: target_spec_def split: list.split)
    then show ?thesis using 3 assms(1) by (simp add: handleGatewayRequest_def http_spec_def Let_def)
  next
    case 4
    obtain a b c where ps: "?ps = [a, b, c]" using three_parts [OF 4(2,3)] .
    obtain sp n st err h w where t: "gateway_target hl b c (rq_Header r) new_response = ((sp, n, st, err), h, w)"
      by (metis prod_cases4 surj_pair)
    show ?thesis
    proof (cases err)
      case None
      then show ?thesis
        using 4(1) ps t gateway_serve_refines [OF assms, of picks "(sp, n, st)" h "rq_Body r" w]
        by (simp add: handleGatewayRequest_def http_spec_def target_spec_def)
    next
      case (Some e)
      then show ?thesis
        using 4(1) ps t assms(1) by (simp add: handleGatewayRequest_def http_spec_def target_spec_def)
    qed
  qed (use assms(1) in \<open>simp add: handleGatewayRequest_def http_spec_def\<close>)
qed

section \<open>Metadata in a header\<close>

lemma values_Add_fresh:
  assumes "gomap_ok md" "fst ` set md \<inter> fst ` set acc = {}"
  shows "fold (\<lambda>(k, v) meta. values_Add k v meta) md acc = acc @ map (\<lambda>(k, v). (k, [v])) md"
  using assms
proof (induction md arbitrary: acc)
  case (Cons p md)
  obtain k v where p: "p = (k, v)" by fastforce
  have "k \<notin> fst ` set acc" using Cons.prems(2) p by auto
  then have "values_Add k v acc = acc @ [(k, [v])]"
    by (simp add: values_Add_def gomap_get_def gomap_set_fresh map_of_None_dom [THEN iffD2])
  then show ?case
    using Cons p by (auto simp: gomap_ok_def)
qed simp

text \<open>The metadata in the order of its keys.\<close>

definition sorted_pairs :: "(string, string) gomap \<Rightarrow> (string \<times> string) list" where
  "sorted_pairs md = map (\<lambda>k. (k, gomap_get [] md k)) (sort (map fst md))"

lemma sorted_pairs_ok: "gomap_ok md \<Longrightarrow> gomap_ok (sorted_pairs md)"
  by (simp add: gomap_ok_def sorted_pairs_def comp_def)

lemma map_of_sorted_pairs: "map_of (sorted_pairs md) = map_of md"
proof
  fix k
  have eq: "map_of (sorted_pairs md) k = (if k \<in> fst ` set md then Some (gomap_get [] md k) else None)"
    by (simp add: sorted_pairs_def map_of_map_restrict restrict_map_def)
  show "map_of (sorted_pairs md) k = map_of md k"
  proof (cases "map_of md k")
    case None
    then have "k \<notin> fst ` set md" by (simp add: map_of_eq_None_iff)
    then show ?thesis using None eq by simp
  next
    case (Some v)
    then have "k \<in> fst ` set md" by (metis map_of_eq_None_iff option.distinct(1))
    then show ?thesis using Some eq by (simp add: gomap_get_def)
  qed
qed

lemma singletons_get: "k \<in> fst ` set md \<Longrightarrow> gomap_get [] (map (\<lambda>(k, v). (k, [v])) md) k = [gomap_get [] md k]"
  by (induction md) (auto simp: gomap_get_def)

lemma metadata_header_pairs:
  assumes "gomap_ok md"
  shows "metadata_header md = join_with (CHR ''&'') (map encode_pair (sorted_pairs md))"
proof -
  let ?vs = "map (\<lambda>(k, v). (k, [v])) md" and ?ks = "sort (map fst md)"
  have "fold (\<lambda>(k, v) meta. values_Add k v meta) md [] = ?vs"
    using values_Add_fresh [OF assms, of "[]"] by simp
  moreover have keys: "map fst ?vs = map fst md" by (simp add: case_prod_beta comp_def)
  moreover have "concat (map (\<lambda>k. map (\<lambda>v. encode_pair (k, v)) (gomap_get [] ?vs k)) ?ks) =
      concat (map (\<lambda>k. [encode_pair (k, gomap_get [] md k)]) ?ks)"
    by (intro arg_cong [where f = concat] map_cong refl) (auto simp: singletons_get)
  ultimately show ?thesis
    unfolding metadata_header_def values_Encode_def sorted_pairs_def
    by (simp only: concat_map_singleton map_map comp_def)
qed

lemma first_values_fresh:
  assumes "gomap_ok md" "fst ` set md \<inter> fst ` set acc = {}"
  shows "fold (\<lambda>(k, v) mt. case v of [] \<Rightarrow> mt | x # xs \<Rightarrow> gomap_set k x mt) (map (\<lambda>(k, v). (k, [v])) md) acc = acc @ md"
  using assms
proof (induction md arbitrary: acc)
  case (Cons p md)
  then show ?case by (cases p) (auto simp: gomap_ok_def gomap_set_fresh)
qed simp

lemma ParseQuery_metadata:
  assumes "gomap_ok md"
  shows "ParseQuery quote (metadata_header md) = (map (\<lambda>(k, v). (k, [v])) (sorted_pairs md), None)"
    and "first_values (map (\<lambda>(k, v). (k, [v])) (sorted_pairs md)) = sorted_pairs md"
  using values_Add_fresh [OF sorted_pairs_ok [OF assms], of "[]"] first_values_fresh [OF sorted_pairs_ok [OF assms], of "[]"]
  by (simp_all add: metadata_header_pairs [OF assms] ParseQuery_join first_values_def)

section \<open>Facts the properties share\<close>

text \<open>
  The specification of the gateway, written from the request alone: no response is built, no header set
  and no message made. The value of a header field is looked up under its canonical name.
\<close>

definition request_header :: "http_request \<Rightarrow> string \<Rightarrow> string" where
  "request_header r k = (case map_of (rq_Header r) k of Some (v # vs) \<Rightarrow> v | _ \<Rightarrow> [])"

definition missing_field :: "'v http_lib \<Rightarrow> string \<Rightarrow> string \<Rightarrow> http_request \<Rightarrow> go_error option" where
  "missing_field hl a b r =
     (if request_header r ''X-Simple-Serializetype'' = [] then Some (NewError ''empty serialize type'')
      else if hl_ToCamel hl b = [] then Some (NewError ''empty servicemethod'')
      else if hl_ToCamel hl a = [] then Some (NewError ''empty servicepath'')
      else None)"

text \<open>A number that does not parse selects no codec, whatever value the failed conversion leaves.\<close>

definition codec_asked :: "'v http_lib \<Rightarrow> http_request \<Rightarrow> codec option" where
  "codec_asked hl r =
     (case Atoi (hl_Quote hl) (request_header r ''X-Simple-Serializetype'') of
        (k, Some e) \<Rightarrow> None
      | (k, None) \<Rightarrow> Codecs (word_of_int k))"

definition bad_header :: "'v http_lib \<Rightarrow> http_request \<Rightarrow> go_error option" where
  "bad_header hl r =
     (let seq = request_header r ''X-Simple-Messageid''; md = request_header r ''X-Simple-Meta''
      in case (if seq = [] then Inr 0 else ParseUint (hl_Quote hl) seq) of
           Inl e \<Rightarrow> Some e
         | Inr i \<Rightarrow> if md = [] then None else snd (ParseQuery (hl_Quote hl) md))"

definition call_outcome :: "'v golib \<Rightarrow> 'v http_lib \<Rightarrow> 'v methodType \<Rightarrow> http_request \<Rightarrow> http_answer" where
  "call_outcome lib hl mt r =
     (case rq_Body r of
        Inl e \<Rightarrow> Refuse 403 e
      | Inr bs \<Rightarrow>
     (case hl_Unmarshal hl (pool_GetRaw lib (ArgType mt)) bs of
        (Some e, arg) \<Rightarrow> Refuse 403 e
      | (None, arg) \<Rightarrow>
     (case codec_asked hl r of
        None \<Rightarrow> Abort
      | Some c \<Rightarrow>
     (case (case arg of Some v \<Rightarrow> codec_Encode lib c v
            | None \<Rightarrow> if c = JSONCodec then Inr (StringToSliceByte ''null'')
                else Inl (NewError ''<nil> is not a proto.Marshaler or pb.Message'')) of
        Inl e \<Rightarrow> Refuse 403 e
      | Inr payload \<Rightarrow>
     (case bad_header hl r of
        Some e \<Rightarrow> Refuse 403 e
      | None \<Rightarrow> reply_spec lib mt c (invoke_spec lib (request_header r ''X-Simple-Oneway'' \<noteq> []) mt c payload))))))"

definition gateway_outcome ::
    "'v golib \<Rightarrow> 'v http_lib \<Rightarrow> (string, 'v service) gomap \<Rightarrow> http_request \<Rightarrow> http_answer" where
  "gateway_outcome lib hl sm r =
     (if rq_Path r = ''/health'' then Healthy
      else case split_on (CHR ''/'') (rq_Path r) of
        [root, a, b] \<Rightarrow>
          (case missing_field hl a b r of
             Some e \<Rightarrow> Refuse 403 e
           | None \<Rightarrow>
          (case map_of sm (hl_ToCamel hl a) of
             None \<Rightarrow> Refuse 403 (NewError (''can't find service '' @ hl_ToCamel hl a))
           | Some svc \<Rightarrow>
          (case map_of (methodMap svc) (hl_ToCamel hl b) of
             None \<Rightarrow> Refuse 403 (NewError (''can't find method '' @ hl_ToCamel hl b))
           | Some mt \<Rightarrow> call_outcome lib hl mt r)))
      | parts \<Rightarrow>
          if length parts > 3 then Refuse 403 (NewError ''path must be consist of service and method name'')
          else Abort)"

text \<open>The fields every response to a path of two parts has, whether the call is made or refused.\<close>

definition response_fields :: "'v http_lib \<Rightarrow> http_request \<Rightarrow> string \<rightharpoonup> string list" where
  "response_fields hl r =
     (case split_on (CHR ''/'') (rq_Path r) of
        [root, a, b] \<Rightarrow>
          (if hl_ToCamel hl a = [] then Map.empty else [''X-Simple-Servicepath'' \<mapsto> [hl_ToCamel hl a]]) ++
          (if hl_ToCamel hl b = [] then Map.empty else [''X-Simple-Servicemethod'' \<mapsto> [hl_ToCamel hl b]]) ++
          (let st = request_header r ''X-Simple-Serializetype''
           in if st = [] then Map.empty else [''X-Simple-Serializetype'' \<mapsto> [st]]) ++
          [''X-Simple-Version'' \<mapsto> [request_header r ''X-Simple-Version''],
           ''X-Simple-Messageid'' \<mapsto> [request_header r ''X-Simple-Messageid''], ''Content-Type'' \<mapsto> [''application/json'']]
      | parts \<Rightarrow> Map.empty)"

text \<open>What a client sees of an answer: status, body and every header field.\<close>

definition answered_as :: "'v http_lib \<Rightarrow> http_request \<Rightarrow> http_response outcome \<Rightarrow> http_answer \<Rightarrow> bool" where
  "answered_as hl r out ans \<longleftrightarrow>
     (case ans of
        Abort \<Rightarrow> out = Panic
      | Healthy \<Rightarrow> out = Return \<lparr>rw_Header = [], rw_status = Some 200, rw_body = []\<rparr>
      | Answer body \<Rightarrow>
          (case out of Panic \<Rightarrow> False | Return w \<Rightarrow> rw_status w = Some 200 \<and> rw_body w = body \<and>
             map_of (rw_Header w) = (response_fields hl r)(''X-Simple-Meta'' \<mapsto> [[]]))
      | Refuse code e \<Rightarrow>
          (case out of Panic \<Rightarrow> False | Return w \<Rightarrow> rw_status w = Some code \<and> rw_body w = [] \<and>
             map_of (rw_Header w) = (response_fields hl r)
               (''X-Simple-Messagestatustype'' \<mapsto> [''Error''], ''X-Simple-Errormessage'' \<mapsto> [err_string e])))"

lemma request_header_Get:
  "header_Get (rq_Header r) XSerializeType = request_header r ''X-Simple-Serializetype''"
  "header_Get (rq_Header r) XMessageID = request_header r ''X-Simple-Messageid''"
  "header_Get (rq_Header r) XMeta = request_header r ''X-Simple-Meta''"
  "header_Get (rq_Header r) XOneway = request_header r ''X-Simple-Oneway''"
  "header_Get (rq_Header r) XVersion = request_header r ''X-Simple-Version''"
  by (auto simp: header_Get_def header_keys request_header_def gomap_get_def split: option.split list.split)

lemma target_result:
  "fst (gateway_target hl a b (rq_Header r) w) =
      (hl_ToCamel hl a, hl_ToCamel hl b, request_header r ''X-Simple-Serializetype'', missing_field hl a b r)"
  by (simp add: gateway_target_def Let_def header_simps missing_field_def request_header_Get [symmetric] split: if_split)

lemma target_request:
  "hl_ToCamel hl a \<noteq> [] \<Longrightarrow> header_Get (fst (snd (gateway_target hl a b h w))) XServicePath = hl_ToCamel hl a"
  "hl_ToCamel hl b \<noteq> [] \<Longrightarrow> header_Get (fst (snd (gateway_target hl a b h w))) XServiceMethod = hl_ToCamel hl b"
  "k \<in> {XSerializeType, XMessageID, XMeta, XOneway, XHeartbeat} \<Longrightarrow>
     header_Get (fst (snd (gateway_target hl a b h w))) k = header_Get h k"
  by (auto simp: gateway_target_def Let_def header_simps)

lemma target_response:
  "rw_status (snd (snd (gateway_target hl a b h w))) = rw_status w"
  "rw_body (snd (snd (gateway_target hl a b h w))) = rw_body w"
  by (simp_all add: gateway_target_def Let_def wset_def)

lemma map_of_header_Set: "map_of (header_Set k v h) = (map_of h)(canonical_key k \<mapsto> [v])"
  by (simp add: header_Set_def)

lemma target_fields:
  assumes "split_on (CHR ''/'') (rq_Path r) = [root, a, b]"
  shows "map_of (rw_Header (snd (snd (gateway_target hl a b (rq_Header r) new_response)))) = response_fields hl r"
  by (cases "hl_ToCamel hl a = []"; cases "hl_ToCamel hl b = []"; cases "request_header r ''X-Simple-Serializetype'' = []")
    (simp_all add: gateway_target_def Let_def wset_def map_of_header_Set header_simps new_response_def response_fields_def assms
       request_header_Get)

lemma Atoi_failed:
  assumes "Atoi quote s = (k, Some e)"
  shows "Codecs (serialize_type_of k) = None"
proof -
  have "k = 0 \<or> k = - (2 ^ 63) \<or> k = 2 ^ 63 - 1"
    using assms by (auto simp: Atoi_def signed_value_def Let_def split: list.splits sum.splits num_failure.splits if_splits)
  then show ?thesis by (auto simp: serialize_type_of_def Codecs_def proto_consts)
qed

lemma codec_asked_eq:
  "Codecs (serialize_type_of (fst (Atoi (hl_Quote hl) (request_header r ''X-Simple-Serializetype'')))) = codec_asked hl r"
  by (auto simp: codec_asked_def serialize_type_of_def [symmetric] split: prod.split option.split dest: Atoi_failed)

text \<open>The conversion into a message fails exactly for a bad header, and the message asks for the call.\<close>

lemma conversion_outcome:
  assumes keep: "\<And>k. k \<in> {XSerializeType, XMessageID, XMeta, XOneway, XHeartbeat} \<Longrightarrow> header_Get h k = header_Get (rq_Header r) k"
    and st: "request_header r ''X-Simple-Serializetype'' \<noteq> []" and c: "codec_asked hl r = Some c"
  shows "bad_header hl r = Some e \<Longrightarrow> HttpRequest2RpcxRequest (hl_Quote hl) h payload = Inl e"
    and "bad_header hl r = None \<Longrightarrow> \<exists>req. HttpRequest2RpcxRequest (hl_Quote hl) h payload = Inr req \<and>
      ServicePath req = header_Get h XServicePath \<and> ServiceMethod req = header_Get h XServiceMethod \<and> Payload req = payload \<and>
      Codecs (SerializeType (Header req)) = Some c \<and> IsOneway (Header req) = (request_header r ''X-Simple-Oneway'' \<noteq> [])"
proof -
  obtain k where k: "Atoi (hl_Quote hl) (request_header r ''X-Simple-Serializetype'') = (k, None)" "Codecs (serialize_type_of k) = Some c"
    using c by (auto simp: codec_asked_def serialize_type_of_def split: prod.splits option.splits)
  have hd: "header_Get h XMessageID = request_header r ''X-Simple-Messageid''" "header_Get h XMeta = request_header r ''X-Simple-Meta''"
      "header_Get h XSerializeType = request_header r ''X-Simple-Serializetype''" "header_Get h XOneway = request_header r ''X-Simple-Oneway''"
    using keep by (simp_all add: request_header_Get)
  show "HttpRequest2RpcxRequest (hl_Quote hl) h payload = Inl e" if "bad_header hl r = Some e"
    using that k(1) st
    by (auto simp: bad_header_def HttpRequest2RpcxRequest_def convert_seq_def convert_serialize_def convert_metadata_def hd Let_def
        split: sum.splits if_splits prod.splits)
  assume none: "bad_header hl r = None"
  obtain req where req: "HttpRequest2RpcxRequest (hl_Quote hl) h payload = Inr req"
    using none k(1) st
    by (cases "ParseQuery (hl_Quote hl) (request_header r ''X-Simple-Meta'')")
      (auto simp: bad_header_def HttpRequest2RpcxRequest_def convert_seq_def convert_serialize_def convert_metadata_def hd Let_def
        split: sum.splits if_splits prod.splits)
  have "SerializeType (Header req) = serialize_type_of k"
    using HttpRequest_converted [OF req] k st serialize_mask [OF k(2)]
    by (auto simp: converted_def header_view_select asked_serialize_def hd split: list.split)
  moreover have "IsOneway (Header req) = (request_header r ''X-Simple-Oneway'' \<noteq> [])"
    using HttpRequest_converted [OF req] by (auto simp: converted_def header_view_select hd)
  ultimately show "\<exists>req. HttpRequest2RpcxRequest (hl_Quote hl) h payload = Inr req \<and>
      ServicePath req = header_Get h XServicePath \<and> ServiceMethod req = header_Get h XServiceMethod \<and> Payload req = payload \<and>
      Codecs (SerializeType (Header req)) = Some c \<and> IsOneway (Header req) = (request_header r ''X-Simple-Oneway'' \<noteq> [])"
    using req HttpRequest_converted [OF req] k(2) by (auto simp: converted_def)
qed

lemma method_spec_outcome:
  assumes keep: "\<And>k. k \<in> {XSerializeType, XMessageID, XMeta, XOneway, XHeartbeat} \<Longrightarrow> header_Get h k = header_Get (rq_Header r) k"
    and st: "request_header r ''X-Simple-Serializetype'' \<noteq> []"
    and lookups: "map_of sm (header_Get h XServicePath) = Some svc" "map_of (methodMap svc) (header_Get h XServiceMethod) = Some mt"
  shows "method_spec lib hl sm mt (request_header r ''X-Simple-Serializetype'') h (rq_Body r) = call_outcome lib hl mt r"
proof (cases "rq_Body r")
  case (Inl e)
  then show ?thesis by (simp add: method_spec_def call_outcome_def gateway_message_def)
next
  case body: (Inr bs)
  obtain e arg where um: "hl_Unmarshal hl (pool_GetRaw lib (ArgType mt)) bs = (e, arg)" by fastforce
  show ?thesis
  proof (cases e)
    case (Some e')
    then show ?thesis using body um by (simp add: method_spec_def call_outcome_def gateway_message_def)
  next
    case e: None
    show ?thesis
    proof (cases "codec_asked hl r")
      case None
      then show ?thesis using body um e by (simp add: method_spec_def call_outcome_def gateway_message_def codec_asked_eq)
    next
      case c: (Some c)
      have enc: "encode_iface lib c arg = (case arg of Some v \<Rightarrow> codec_Encode lib c v
            | None \<Rightarrow> if c = JSONCodec then Inr (StringToSliceByte ''null'')
                else Inl (NewError ''<nil> is not a proto.Marshaler or pb.Message''))"
        by (cases arg; cases c) (simp_all add: encode_iface_def)
      show ?thesis
      proof (cases "encode_iface lib c arg")
        case (Inl e')
        then show ?thesis
          using body um e c
          by (simp add: method_spec_def call_outcome_def gateway_message_def codec_asked_eq enc [symmetric] del: encode_iface_def)
      next
        case (Inr pl)
        note conv = conversion_outcome [OF keep st c, where payload = pl]
        show ?thesis
        proof (cases "bad_header hl r")
          case (Some e')
          then show ?thesis
            using body um e c Inr conv(1)
            by (simp add: method_spec_def call_outcome_def gateway_message_def codec_asked_eq enc [symmetric])
        next
          case None
          then obtain req where "HttpRequest2RpcxRequest (hl_Quote hl) h pl = Inr req"
              "handle_spec lib sm req = invoke_spec lib (request_header r ''X-Simple-Oneway'' \<noteq> []) mt c pl"
            using conv(2) lookups by (auto simp: handle_spec_def)
          then show ?thesis
            using body um e c Inr None
            by (simp add: method_spec_def call_outcome_def gateway_message_def codec_asked_eq enc [symmetric])
        qed
      qed
    qed
  qed
qed

lemma answered_refused:
  assumes "rw_status w = None" "rw_body w = []" "map_of (rw_Header w) = response_fields hl r"
  shows "answered_as hl r (Return (writeErrHeader code e w)) (Refuse code e)"
  using assms
  by (simp add: answered_as_def writeErrHeader_def Let_def wset_def WriteHeader_def map_of_header_Set header_keys)

lemma answered_rendered:
  assumes "rw_status w = None" "rw_body w = []" "map_of (rw_Header w) = response_fields hl r" "ans \<noteq> Healthy"
  shows "answered_as hl r (render_http w ans) ans"
proof (cases ans)
  case (Answer body)
  then show ?thesis
    using assms
    by (simp add: answered_as_def http_Write_def wset_def WriteHeader_def map_of_header_Set header_keys)
next
  case (Refuse code e)
  then show ?thesis using answered_refused [OF assms(1-3)] by simp
qed (use assms(4) in \<open>simp_all add: answered_as_def\<close>)

lemma reply_not_healthy: "reply_spec lib mt c out \<noteq> Healthy"
  by (auto simp: reply_spec_def split: rpc_outcome.split option.split prod.split sum.split)

lemma call_not_healthy: "call_outcome lib hl mt r \<noteq> Healthy"
  by (auto simp: call_outcome_def reply_not_healthy split: option.split prod.split sum.split)

lemma http_spec_answered: "answered_as hl r (http_spec lib hl sm r) (gateway_outcome lib hl sm r)"
proof -
  let ?ps = "split_on (CHR ''/'') (rq_Path r)"
  have refuse: "answered_as hl r (Return (writeErrHeader code e new_response)) (Refuse code e)" if "\<not> (\<exists>x a b. ?ps = [x, a, b])" for code e
  proof (rule answered_refused)
    show "map_of (rw_Header new_response) = response_fields hl r"
      using that by (auto simp: new_response_def response_fields_def split: list.split)
  qed (simp_all add: new_response_def)
  consider "rq_Path r = ''/health''" | "rq_Path r \<noteq> ''/health''" "\<not> (\<exists>x a b. ?ps = [x, a, b])"
    | x a b where "rq_Path r \<noteq> ''/health''" "?ps = [x, a, b]" by blast
  then show ?thesis
  proof cases
    case 1
    then show ?thesis by (simp add: http_spec_def gateway_outcome_def answered_as_def WriteHeader_def new_response_def)
  next
    case 2
    have "target_spec hl r = None" using 2(2) by (auto simp: target_spec_def split: list.split)
    moreover have "gateway_outcome lib hl sm r =
        (if length ?ps > 3 then Refuse 403 (NewError ''path must be consist of service and method name'') else Abort)"
      using 2 unfolding gateway_outcome_def by (auto split: list.split)
    ultimately show ?thesis using refuse [OF 2(2)] 2(1) by (simp add: http_spec_def answered_as_def)
  next
    case 3
    let ?sp = "hl_ToCamel hl a" and ?n = "hl_ToCamel hl b" and ?st = "request_header r ''X-Simple-Serializetype''"
    define t where "t = gateway_target hl a b (rq_Header r) new_response"
    obtain h w where t: "t = ((?sp, ?n, ?st, missing_field hl a b r), h, w)"
      using target_result [of hl a b r new_response] unfolding t_def by (metis prod.collapse)
    have w: "rw_status w = None" "rw_body w = []" "map_of (rw_Header w) = response_fields hl r"
      using target_response [of hl a b "rq_Header r" new_response] target_fields [OF 3(2), of hl] t
      by (simp_all add: t_def [symmetric]) (simp_all add: new_response_def)
    have spec: "http_spec lib hl sm r = (case missing_field hl a b r of
        Some e \<Rightarrow> Return (writeErrHeader 403 e w)
      | None \<Rightarrow> render_http w (gateway_spec lib hl sm (?sp, ?n, ?st) h (rq_Body r)))"
      using 3 t by (simp add: http_spec_def target_spec_def t_def split: option.split)
    show ?thesis
    proof (cases "missing_field hl a b r")
      case (Some e)
      then show ?thesis using spec 3 answered_refused [OF w] by (simp add: gateway_outcome_def)
    next
      case None
      then have ne: "?st \<noteq> []" "?n \<noteq> []" "?sp \<noteq> []" by (auto simp: missing_field_def split: if_splits)
      have h: "header_Get h XServicePath = ?sp" "header_Get h XServiceMethod = ?n"
          "\<And>k. k \<in> {XSerializeType, XMessageID, XMeta, XOneway, XHeartbeat} \<Longrightarrow> header_Get h k = header_Get (rq_Header r) k"
        using target_request [where hl = hl and a = a and b = b and h = "rq_Header r" and w = new_response] ne t
        by (simp_all add: t_def [symmetric])
      have "gateway_spec lib hl sm (?sp, ?n, ?st) h (rq_Body r) = gateway_outcome lib hl sm r"
        using 3 None method_spec_outcome [OF h(3) ne(1), where sm = sm and lib = lib and hl = hl] h(1,2)
        by (auto simp: gateway_spec_def gateway_outcome_def split: option.split)
      moreover have "gateway_outcome lib hl sm r \<noteq> Healthy"
        using 3 None by (auto simp: gateway_outcome_def call_not_healthy split: option.split)
      ultimately show ?thesis using spec None answered_rendered [OF w] by simp
    qed
  qed
qed

lemma handle_gateway_answered:
  assumes "serving up lib reg" "unmarshal_kept lib hl"
  shows "\<exists>out reg'. handleGatewayRequest lib hl picks r reg = (out, reg') \<and>
    answered_as hl r out (gateway_outcome lib hl (serviceMap reg) r) \<and> serving up lib reg' \<and> serviceMap reg' = serviceMap reg"
  using handle_gateway_spec [OF assms, of picks r]
    http_spec_answered [where hl = hl and r = r and lib = lib and sm = "serviceMap reg"] by metis

lemma gateway_answer:
  assumes "serving up lib reg" "unmarshal_kept lib hl"
  shows "answered_as hl r (fst (handleGatewayRequest lib hl picks r reg)) (gateway_outcome lib hl (serviceMap reg) r)"
  using handle_gateway_answered [OF assms, of picks r] by auto

text \<open>The answer to a request names what it is refused for; a failed call has named a registered method.\<close>

lemma reply_codes: "reply_spec lib mt c out = Refuse code e \<Longrightarrow> code = 500"
  by (auto simp: reply_spec_def split: rpc_outcome.splits option.splits prod.splits sum.splits)

lemma call_codes: "call_outcome lib hl mt r = Refuse code e \<Longrightarrow> code = 403 \<or> code = 500"
  by (auto simp: call_outcome_def split: option.splits prod.splits sum.splits dest: reply_codes)

lemma outcome_codes: "gateway_outcome lib hl sm r = Refuse code e \<Longrightarrow> code = 403 \<or> code = 500"
  by (auto simp: gateway_outcome_def split: if_splits list.splits option.splits dest: call_codes)

lemma response_fields_no_error:
  "response_fields hl r ''X-Simple-Messagestatustype'' = None" "response_fields hl r ''X-Simple-Errormessage'' = None"
  "response_fields hl r ''X-Simple-Meta'' = None"
  by (auto simp: response_fields_def map_add_def Let_def split: list.split)

lemma join_with_nonempty: "s \<in> set ss \<Longrightarrow> s \<noteq> [] \<Longrightarrow> join_with c ss \<noteq> []"
  by (induction c ss rule: join_with.induct) auto

lemma metadata_header_Nil: "gomap_ok md \<Longrightarrow> metadata_header md = [] \<longleftrightarrow> md = []"
proof
  assume ok: "gomap_ok md" and nil: "metadata_header md = []"
  show "md = []"
  proof (rule ccontr)
    assume "md \<noteq> []"
    moreover have "length (sorted_pairs md) = length md" by (simp add: sorted_pairs_def)
    ultimately have "sorted_pairs md \<noteq> []" by (metis length_0_conv)
    then obtain p where "encode_pair p \<in> set (map encode_pair (sorted_pairs md))" by (cases "sorted_pairs md") auto
    then show False
      using join_with_nonempty [of "encode_pair p" _ "CHR ''&''"] nil
      by (auto simp: metadata_header_pairs [OF ok] encode_pair_def)
  qed
qed (simp add: metadata_header_def values_Encode_def)

text \<open>
  A request that can be answered: its path names a method \<open>mt\<close> of a registered service, its headers
  select codec \<open>c\<close> and are well formed, and its body is the JSON of an argument \<open>v\<close> that the codec
  encodes as \<open>pl\<close>.
\<close>

definition gateway_asks ::
    "'v golib \<Rightarrow> 'v http_lib \<Rightarrow> (string, 'v service) gomap \<Rightarrow> http_request \<Rightarrow> 'v methodType \<Rightarrow> codec \<Rightarrow> 'v \<Rightarrow> byte list \<Rightarrow> bool" where
  "gateway_asks lib hl sm r mt c v pl \<longleftrightarrow>
     (\<exists>a b svc bs.
        rq_Path r = CHR ''/'' # a @ CHR ''/'' # b \<and> CHR ''/'' \<notin> set a \<and> CHR ''/'' \<notin> set b \<and>
        hl_ToCamel hl a \<noteq> [] \<and> hl_ToCamel hl b \<noteq> [] \<and>
        map_of sm (hl_ToCamel hl a) = Some svc \<and> map_of (methodMap svc) (hl_ToCamel hl b) = Some mt \<and>
        codec_asked hl r = Some c \<and> bad_header hl r = None \<and>
        rq_Body r = Inr bs \<and> hl_Unmarshal hl (pool_GetRaw lib (ArgType mt)) bs = (None, Some v) \<and>
        codec_Encode lib c v = Inr pl)"

lemma codec_asked_nonempty: "codec_asked hl r = Some c \<Longrightarrow> request_header r ''X-Simple-Serializetype'' \<noteq> []"
  by (auto simp: codec_asked_def Atoi_def)

lemma gateway_asks_outcome:
  assumes "gateway_asks lib hl sm r mt c v pl"
  shows "gateway_outcome lib hl sm r =
    reply_spec lib mt c (invoke_spec lib (request_header r ''X-Simple-Oneway'' \<noteq> []) mt c pl)"
proof -
  obtain a b svc bs where
    path: "rq_Path r = CHR ''/'' # a @ CHR ''/'' # b" "CHR ''/'' \<notin> set a" "CHR ''/'' \<notin> set b"
    and names: "hl_ToCamel hl a \<noteq> []" "hl_ToCamel hl b \<noteq> []"
    and lookups: "map_of sm (hl_ToCamel hl a) = Some svc" "map_of (methodMap svc) (hl_ToCamel hl b) = Some mt"
    and hdr: "codec_asked hl r = Some c" "bad_header hl r = None"
    and body: "rq_Body r = Inr bs" "hl_Unmarshal hl (pool_GetRaw lib (ArgType mt)) bs = (None, Some v)" "codec_Encode lib c v = Inr pl"
    using assms unfolding gateway_asks_def by blast
  have parts: "split_on (CHR ''/'') (rq_Path r) = [[], a, b]"
    using path by (simp add: split_on_at split_on_none)
  have "rq_Path r \<noteq> ''/health''"
    using arg_cong [OF parts, of length] by (auto split: if_splits)
  then show ?thesis
    using parts names lookups hdr body codec_asked_nonempty [OF hdr(1)]
    by (simp add: gateway_outcome_def missing_field_def call_outcome_def)
qed

section \<open>A request for the examples\<close>

definition demo_http :: "nat http_lib" where
  "demo_http =
     \<lparr>hl_ToCamel = (\<lambda>s. case s of [] \<Rightarrow> [] | c # cs \<Rightarrow> char_of (of_char c - 32 :: nat) # cs), hl_Quote = id,
      hl_Unmarshal = (\<lambda>v bs. case bs of [] \<Rightarrow> (Some EOF, Some v) | b # _ \<Rightarrow> (None, Some (unat b)))\<rparr>"

definition demo_http_request :: "string \<Rightarrow> http_request" where
  "demo_http_request oneway =
     \<lparr>rq_Path = ''/arith/double'',
      rq_Header = (if oneway = [] then [] else [(''X-Simple-Oneway'', [oneway])]) @ [(''X-Simple-Serializetype'', [''1''])],
      rq_Body = Inr [21]\<rparr>"

lemma demo_unmarshal_kept: "unmarshal_kept nat_lib demo_http"
  by (simp add: unmarshal_kept_def nat_lib_has_type)

lemma demo_http_headers:
  "request_header (demo_http_request oneway) ''X-Simple-Serializetype'' = ''1''"
  "request_header (demo_http_request oneway) ''X-Simple-Messageid'' = []"
  "request_header (demo_http_request oneway) ''X-Simple-Version'' = []"
  "request_header (demo_http_request oneway) ''X-Simple-Meta'' = []"
  "request_header (demo_http_request oneway) ''X-Simple-Oneway'' = oneway"
  by (simp_all add: demo_http_request_def request_header_def)

lemma demo_http_path: "split_on (CHR ''/'') (rq_Path (demo_http_request oneway)) = [[], ''arith'', ''double'']"
  by (simp add: demo_http_request_def)

lemma demo_ToCamel:
  "hl_ToCamel demo_http ''arith'' = ''Arith''" "hl_ToCamel demo_http ''double'' = ''Double''"
  "hl_ToCamel demo_http ''halve'' = ''Halve''"
  by (simp_all add: demo_http_def char_of_def bit_iff_odd)

lemma demo_asks:
  "gateway_asks nat_lib demo_http (serviceMap (demo_registry f)) (demo_http_request oneway) (demo_method f) JSONCodec 21 [21]"
proof -
  have "rq_Path (demo_http_request oneway) = CHR ''/'' # ''arith'' @ CHR ''/'' # ''double''"
    by (simp add: demo_http_request_def)
  moreover have "Atoi (hl_Quote demo_http) ''1'' = (1, None)"
    by (simp add: Atoi_def signed_value_def uint_value_def digit_of_def)
  then have "codec_asked demo_http (demo_http_request oneway) = Some JSONCodec" "bad_header demo_http (demo_http_request oneway) = None"
    by (simp_all add: codec_asked_def bad_header_def demo_http_headers Codecs_def proto_consts)
  moreover have "rq_Body (demo_http_request oneway) = Inr [21]" "hl_Unmarshal demo_http z [21] = (None, Some 21)" for z
    by (simp_all add: demo_http_request_def demo_http_def)
  ultimately show ?thesis
    unfolding gateway_asks_def
    by (intro exI [of _ "''arith''"] exI [of _ "''double''"]) (simp add: demo_ToCamel demo_lookups demo_decode)
qed

lemma nat_lib_json:
  "json_Marshal nat_lib n = Inr [word_of_nat n]" "JSONCodec_Decode nat_lib [] z = (Some EOF, z)"
  "JSONCodec_Decode nat_lib [b] z = (None, unat b)" "JSONCodec_Encode nat_lib n = Inr [word_of_nat n]"
  by (simp_all add: nat_lib_def JSONCodec_Decode_def JSONCodec_Encode_def)

lemma demo_outcome:
  "gateway_outcome nat_lib demo_http (serviceMap (demo_registry demo_double)) (demo_http_request []) = Answer [42]"
  using gateway_asks_outcome [OF demo_asks [where f = demo_double and oneway = "[]"]]
  by (simp add: demo_http_headers demo_lookups nat_lib_json reply_spec_def invoke_spec_def service_call_def demo_double_def demo_decode)

section \<open>The multiplexer\<close>

text \<open>
  The multiplexer \<^verbatim>\<open>cmux\<close> is not part of the program. Its documented behaviour: matchers are tried in the
  order in which they were registered, and the first that accepts a connection gets it.
\<close>

definition first_match :: "(((reader \<Rightarrow> bool) \<times> http_sink) list \<Rightarrow> reader \<Rightarrow> http_sink option) \<Rightarrow> bool" where
  "first_match dispatch \<longleftrightarrow>
     (\<forall>r. dispatch [] r = None) \<and>
     (\<forall>p s ms r. dispatch ((p, s) # ms) r = (if p r then Some s else dispatch ms r))"

definition demo_dispatch :: "((reader \<Rightarrow> bool) \<times> http_sink) list \<Rightarrow> reader \<Rightarrow> http_sink option" where
  "demo_dispatch ms r = map_option snd (find (\<lambda>m. fst m r) ms)"

lemma demo_first_match: "first_match demo_dispatch"
  by (simp add: first_match_def demo_dispatch_def)

definition demo_bad_request :: http_request where
  "demo_bad_request =
     \<lparr>rq_Path = ''/arith/halve'', rq_Header = [(''X-Simple-Serializetype'', [''1''])], rq_Body = Inr [21]\<rparr>"

lemma demo_refusal:
  "gateway_outcome nat_lib demo_http (serviceMap (demo_registry demo_double)) demo_bad_request =
    Refuse 403 (NewError ''can't find method Halve'')"
  by (simp add: gateway_outcome_def demo_bad_request_def missing_field_def request_header_def demo_ToCamel demo_lookups)

lemma demo_refusal_returns:
  "\<exists>w. fst (handleGatewayRequest nat_lib demo_http picks demo_bad_request (demo_registry demo_double)) = Return w"
  using gateway_answer [OF demo_serving [where up = "\<lambda>_. False" and f = demo_double] demo_unmarshal_kept,
      where r = demo_bad_request and picks = picks]
  by (auto simp: demo_refusal answered_as_def split: outcome.splits)

section \<open>Properties\<close>

text \<open>
  C5: the gateway implements its specification. The answer to a request is determined by the request and
  the registered services alone: the health check; a refusal with status 403 and the error of the first
  obstacle (a missing field, an unknown service or method, an unreadable body, bad JSON, an argument the
  codec rejects, a bad header); an aborted connection where no codec is selected; otherwise what the method
  called on the argument leaves in the reply. Status, body and every header field of the response are
  those of that answer, whichever pooled objects are picked, and whether it answers, refuses or panics it
  leaves the server able to serve.
\<close>

theorem gateway_refines:
  assumes "serving up lib reg" and "unmarshal_kept lib hl"
  shows "\<exists>out reg'. handleGatewayRequest lib hl picks r reg = (out, reg') \<and>
    answered_as hl r out (gateway_outcome lib hl (serviceMap reg) r) \<and> serving up lib reg' \<and> serviceMap reg' = serviceMap reg"
  using assms by (rule handle_gateway_answered)

theorem gateway_refines_witness:
  "\<exists>w reg'. handleGatewayRequest nat_lib demo_http \<lparr>gp_arg = Some 1, gp_handle = (None, Some 2), gp_reply = None\<rparr>
      (demo_http_request []) (demo_registry demo_double) = (Return w, reg') \<and>
    rw_status w = Some 200 \<and> rw_body w = [42] \<and> map_of (rw_Header w) ''Content-Type'' = Some [''application/json'']"
proof -
  obtain out reg' where run: "handleGatewayRequest nat_lib demo_http \<lparr>gp_arg = Some 1, gp_handle = (None, Some 2), gp_reply = None\<rparr>
      (demo_http_request []) (demo_registry demo_double) = (out, reg')"
      and ans: "answered_as demo_http (demo_http_request []) out (Answer [42])"
    using gateway_refines [OF demo_serving [where up = "\<lambda>_. False" and f = demo_double] demo_unmarshal_kept] demo_outcome by metis
  show ?thesis
    using run ans by (cases out) (simp_all add: answered_as_def response_fields_def demo_http_request_def Let_def)
qed

text \<open>
  C21: every response of the gateway says whether the call succeeded, and a refusal says why. A response
  with status 200 carries no error headers, and is given exactly to a health check and to a call that was
  answered. Every other response has status 403 or 500, an empty body, the status header set to Error, and
  in the error header the text of the very error the request was refused with.
\<close>

theorem gateway_reports_errors:
  assumes "serving up lib reg" and "unmarshal_kept lib hl"
    and "fst (handleGatewayRequest lib hl picks r reg) = Return w"
  shows "(rw_status w = Some 200 \<and> map_of (rw_Header w) ''X-Simple-Messagestatustype'' = None \<and>
      map_of (rw_Header w) ''X-Simple-Errormessage'' = None \<and>
      (gateway_outcome lib hl (serviceMap reg) r = Healthy \<or> gateway_outcome lib hl (serviceMap reg) r = Answer (rw_body w))) \<or>
    (\<exists>code e. gateway_outcome lib hl (serviceMap reg) r = Refuse code e \<and> code \<in> {403, 500} \<and>
      rw_status w = Some code \<and> rw_body w = [] \<and>
      map_of (rw_Header w) ''X-Simple-Messagestatustype'' = Some [''Error''] \<and>
      map_of (rw_Header w) ''X-Simple-Errormessage'' = Some [err_string e])"
proof -
  have ans: "answered_as hl r (Return w) (gateway_outcome lib hl (serviceMap reg) r)"
    using gateway_answer [OF assms(1,2), of r picks] assms(3) by simp
  show ?thesis
  proof (cases "gateway_outcome lib hl (serviceMap reg) r")
    case (Refuse code e)
    then show ?thesis using ans outcome_codes [OF Refuse] by (auto simp: answered_as_def)
  qed (use ans response_fields_no_error in \<open>auto simp: answered_as_def\<close>)
qed

theorem gateway_reports_errors_witness:
  "\<exists>w. fst (handleGatewayRequest nat_lib demo_http \<lparr>gp_arg = None, gp_handle = (None, None), gp_reply = None\<rparr>
      demo_bad_request (demo_registry demo_double)) = Return w \<and> rw_status w = Some 403 \<and> rw_body w = [] \<and>
    map_of (rw_Header w) ''X-Simple-Errormessage'' = Some [''can't find method Halve'']"
proof -
  obtain w where "fst (handleGatewayRequest nat_lib demo_http \<lparr>gp_arg = None, gp_handle = (None, None), gp_reply = None\<rparr>
      demo_bad_request (demo_registry demo_double)) = Return w"
    using demo_refusal_returns by blast
  from this gateway_reports_errors [OF demo_serving [where up = "\<lambda>_. False" and f = demo_double] demo_unmarshal_kept this]
  show ?thesis by (auto simp: demo_refusal)
qed

text \<open>
  C10: a method can be called over HTTP like over the protocol. A request that names a registered method,
  selects a codec and carries the JSON of an argument is answered with status 200 and the JSON of what
  the method leaves in the reply, if the codec carries argument and reply. The headers repeat what was
  asked for, and the metadata header is there and empty, the response to a successful call having no
  metadata.
\<close>

theorem gateway_calls_service:
  assumes "serving up lib reg" and "unmarshal_kept lib hl"
    and "gateway_asks lib hl (serviceMap reg) r mt c v pl" and "header_Get (rq_Header r) XOneway = []"
    and "codec_Decode lib c pl (pool_GetRaw lib (ArgType mt)) = (None, v)"
    and "service_call mt v (pool_GetRaw lib (ReplyType mt)) = (None, v', rep)"
    and "carries lib c rep (pool_GetRaw lib (ReplyType mt)) out" and "json_Marshal lib rep = Inr body"
  shows "\<exists>w. fst (handleGatewayRequest lib hl picks r reg) = Return w \<and> rw_status w = Some 200 \<and> rw_body w = body \<and>
    map_of (rw_Header w) = (response_fields hl r)(''X-Simple-Meta'' \<mapsto> [[]])"
proof -
  have "gateway_outcome lib hl (serviceMap reg) r = Answer body"
    using gateway_asks_outcome [OF assms(3)] assms(4-)
    by (auto simp: invoke_spec_def reply_spec_def carries_def request_header_Get)
  then show ?thesis
    using gateway_answer [OF assms(1,2), of r picks] by (auto simp: answered_as_def split: outcome.splits)
qed

theorem gateway_calls_service_witness:
  "\<exists>w. fst (handleGatewayRequest nat_lib demo_http \<lparr>gp_arg = None, gp_handle = (None, Some 0), gp_reply = Some 7\<rparr>
      (demo_http_request []) (demo_registry demo_double)) = Return w \<and> rw_status w = Some 200 \<and> rw_body w = [42] \<and>
    map_of (rw_Header w) ''X-Simple-Meta'' = Some [[]] \<and> map_of (rw_Header w) ''X-Simple-Servicepath'' = Some [''Arith'']"
proof -
  have "service_call (demo_method demo_double) 21 (pool_GetRaw nat_lib (ReplyType (demo_method demo_double))) = (None, 21, 42)"
    by (simp add: service_call_def demo_lookups demo_double_def)
  moreover have "header_Get (rq_Header (demo_http_request [])) XOneway = []"
    by (simp add: request_header_Get demo_http_headers)
  ultimately obtain w where "fst (handleGatewayRequest nat_lib demo_http \<lparr>gp_arg = None, gp_handle = (None, Some 0), gp_reply = Some 7\<rparr>
      (demo_http_request []) (demo_registry demo_double)) = Return w" "rw_status w = Some 200" "rw_body w = [42]"
      "map_of (rw_Header w) = (response_fields demo_http (demo_http_request []))(''X-Simple-Meta'' \<mapsto> [[]])"
    using gateway_calls_service [OF demo_serving [where up = "\<lambda>_. False"] demo_unmarshal_kept
      demo_asks [where f = demo_double and oneway = "[]"], where body = "[42]" and out = "[42]"]
    by (auto simp: demo_lookups nat_lib_json carries_def)
  then show ?thesis by (simp add: response_fields_def Let_def demo_http_path demo_ToCamel)
qed

text \<open>
  A one-way call over HTTP fails although the method ran. The handler leaves the payload of the
  response empty, the gateway decodes it all the same, and a codec that rejects the empty payload turns
  the finished call into status 500.
\<close>

theorem gateway_oneway_fails:
  assumes "serving up lib reg" and "unmarshal_kept lib hl"
    and "gateway_asks lib hl (serviceMap reg) r mt c v pl" and "header_Get (rq_Header r) XOneway \<noteq> []"
    and "codec_Decode lib c pl (pool_GetRaw lib (ArgType mt)) = (None, v)"
    and "service_call mt v (pool_GetRaw lib (ReplyType mt)) = (None, v', rep)"
    and "codec_Decode lib c [] (pool_GetRaw lib (ReplyType mt)) = (Some e, z)"
  shows "\<exists>w. fst (handleGatewayRequest lib hl picks r reg) = Return w \<and> rw_status w = Some 500 \<and>
    header_Get (rw_Header w) XErrorMessage = err_string e"
proof -
  have "gateway_outcome lib hl (serviceMap reg) r = Refuse 500 e"
    using gateway_asks_outcome [OF assms(3)] assms(4-)
    by (auto simp: invoke_spec_def reply_spec_def request_header_Get split: sum.splits)
  then show ?thesis
    using gateway_answer [OF assms(1,2), of r picks]
    by (auto simp: answered_as_def header_Get_def header_keys gomap_get_def split: outcome.splits)
qed

theorem gateway_oneway_fails_witness:
  "\<exists>w. fst (handleGatewayRequest nat_lib demo_http \<lparr>gp_arg = None, gp_handle = (None, None), gp_reply = None\<rparr>
      (demo_http_request ''1'') (demo_registry demo_double)) = Return w \<and> rw_status w = Some 500 \<and>
    header_Get (rw_Header w) XErrorMessage = ''EOF''"
proof -
  have "service_call (demo_method demo_double) 21 (pool_GetRaw nat_lib (ReplyType (demo_method demo_double))) = (None, 21, 42)"
    by (simp add: service_call_def demo_lookups demo_double_def)
  then show ?thesis
    using gateway_oneway_fails [OF demo_serving [where up = "\<lambda>_. False"] demo_unmarshal_kept
        demo_asks [where f = demo_double and oneway = "''1''"] _ _ _, where e = EOF and z = "pool_GetRaw nat_lib (demo_types ! 3)"]
    by (simp add: demo_http_headers demo_lookups nat_lib_json request_header_Get)
qed

text \<open>
  C16: metadata survives its way through an HTTP header. What the gateway writes into the metadata header
  for any map, the converter reads back as that map.
\<close>

theorem metadata_header_roundtrip:
  assumes "gomap_ok md" and "Metadata req = []"
  shows "\<exists>md'. convert_metadata quote (header_Set XMeta (metadata_header md) h) req = Inr (req\<lparr>Metadata := md'\<rparr>) \<and>
    map_of md' = map_of md"
proof (cases "md = []")
  case True
  then have "convert_metadata quote (header_Set XMeta (metadata_header md) h) req = Inr req"
    using metadata_header_Nil [OF assms(1)] by (simp add: convert_metadata_def header_simps)
  moreover have "req = req\<lparr>Metadata := []\<rparr>" using assms(2) by simp
  ultimately show ?thesis using True by auto
next
  case False
  then have "convert_metadata quote (header_Set XMeta (metadata_header md) h) req = Inr (req\<lparr>Metadata := sorted_pairs md\<rparr>)"
    using metadata_header_Nil [OF assms(1)] ParseQuery_metadata [OF assms(1)]
    by (simp add: convert_metadata_def header_simps)
  then show ?thesis using map_of_sorted_pairs by blast
qed

theorem metadata_header_roundtrip_witness:
  "\<exists>md'. convert_metadata id (header_Set XMeta (metadata_header [(''k&1'', ''a b''), (''a'', [])]) []) NewMessage =
      Inr (NewMessage\<lparr>Metadata := md'\<rparr>) \<and> map_of md' ''k&1'' = Some ''a b''"
  using metadata_header_roundtrip [of "[(''k&1'', ''a b''), (''a'', [])]" NewMessage id "[]"]
  by (auto simp: gomap_ok_def NewMessage_def)

text \<open>
  C28: the two protocols share a port without mixing. \<open>dispatch\<close> is the multiplexer, which gives a connection
  to the first of its matchers that accepts it. Where the gateway is started at all, a connection on
  which a message of this protocol arrives goes to the request loop, a connection that goes there starts
  with the magic number, and HTTP is served exactly on the other connections the library recognises,
  unless the gateway is disabled.
\<close>

theorem protocols_separated:
  assumes "first_match dispatch" and "startGateway http1 disabled network = Some ms"
    and "CheckMagicNumber (Header m)" and "wf_header (Header m)"
  shows "dispatch ms \<lparr>rd_bytes = Encode m @ rest, rd_err = e\<rparr> = Some RpcLoop \<and>
    (dispatch ms r = Some RpcLoop \<longleftrightarrow> (\<exists>bs. rd_bytes r = MagicNumber # bs)) \<and>
    (dispatch ms r = Some HttpGateway \<longleftrightarrow> \<not> disabled \<and> http1 r \<and> \<not> rpcxPrefixByteMatcher r)"
proof -
  have ms: "ms = (rpcxPrefixByteMatcher, RpcLoop) # (if disabled then [] else [(http1, HttpGateway)])"
    using assms(2) by (auto simp: startGateway_def Let_def split: if_splits)
  have rpc: "rpcxPrefixByteMatcher q \<longleftrightarrow> (\<exists>bs. rd_bytes q = MagicNumber # bs)" for q
    by (auto simp: rpcxPrefixByteMatcher_def split: list.split)
  have "Header m = MagicNumber # tl (Header m)"
    using assms(3,4) by (cases "Header m") (auto simp: CheckMagicNumber_def wf_header_def)
  then have "rd_bytes \<lparr>rd_bytes = Encode m @ rest, rd_err = e\<rparr> = MagicNumber # tl (Header m) @ field (frame_body m) @ rest"
    using Encode_frame [OF assms(4)] by (simp add: frame_def)
  then show ?thesis using rpc assms(1) by (auto simp: ms first_match_def)
qed

theorem protocols_separated_witness:
  "demo_dispatch [(rpcxPrefixByteMatcher, RpcLoop), (\<lambda>r. True, HttpGateway)] \<lparr>rd_bytes = Encode NewMessage @ [1], rd_err = EOF\<rparr> = Some RpcLoop"
  using protocols_separated [of demo_dispatch "\<lambda>r. True" False "''tcp''" "[(rpcxPrefixByteMatcher, RpcLoop), (\<lambda>r. True, HttpGateway)]" NewMessage]
  by (simp add: demo_first_match startGateway_def CheckMagicNumber_def NewMessage_def wf_header_def)

text \<open>
  A path with a single part other than the health check makes the handler index beyond the parts and
  panic, so the client sees an aborted connection instead of a refusal.
\<close>

lemma gateway_short_path_aborts:
  assumes "length (split_on (CHR ''/'') (rq_Path r)) < 3" and "rq_Path r \<noteq> ''/health''"
  shows "handleGatewayRequest lib hl picks r reg = (Panic, reg)"
  using assms by (simp add: handleGatewayRequest_def)

end
