(* ===== verification/Lifecycle.thy ===== *)
theory Lifecycle
  imports Server
begin

text \<open>
  The life of a server, \<^verbatim>\<open>server/server.go\<close> with \<^verbatim>\<open>server/listener.go\<close>: the accept loop, the goroutine of
  every connection, the goroutines that handle requests, and \<^verbatim>\<open>Close\<close>. They interleave at the points
  where they touch shared state; a step relation describes every schedule.
\<close>

section \<open>State\<close>

text \<open>
  The accept loop: waiting for a connection; holding one that is not in the table yet; having entered one
  in the table whose goroutine is not started yet; waiting for the channel \<^verbatim>\<open>doneChan\<close>; finished with an
  error. A connection's goroutine: before its first check of the shutdown flag; in its loop; in its
  deferred function; waiting there for \<^verbatim>\<open>doneChan\<close>; in \<^verbatim>\<open>closeConn\<close> between the critical section, which
  takes the connection out of the table, and \<^verbatim>\<open>conn.Close\<close>; finished.
\<close>

datatype accept_pc = Accepting | Holding conn | Inserted conn | AcceptWaits | ServeReturned go_error

datatype conn_pc = ConnStart | ConnLoop | ConnLeaving | ConnWaits | ConnClosing | ConnGone

record lifecycle =
  ln_closed :: bool
  actionConnMap :: "(conn, unit) gomap"
  doneChan_closed :: bool
  inShutdown :: int
  gateway_open :: bool \<comment> \<open>\<^verbatim>\<open>gatewayHTTPServer\<close> is set and not closed\<close>
  msgNum :: u32 \<comment> \<open>\<^verbatim>\<open>handlerMsgNum\<close>\<close>
  accept_at :: accept_pc
  conn_at :: "conn \<Rightarrow> conn_pc option"
  conn_closed_by :: "conn \<Rightarrow> bool" \<comment> \<open>\<^verbatim>\<open>conn.Close\<close> was called\<close>
  nconns :: nat
  handlers :: "bool list" \<comment> \<open>the handler goroutines: whether they have incremented the counter\<close>

definition new_lifecycle :: "bool \<Rightarrow> lifecycle" where
  \<comment> \<open>when \<^verbatim>\<open>serveListener\<close> enters its loop\<close>
  "new_lifecycle gateway =
     \<lparr>ln_closed = False, actionConnMap = [], doneChan_closed = False, inShutdown = 0, gateway_open = gateway,
      msgNum = 0, accept_at = Accepting, conn_at = (\<lambda>_. None), conn_closed_by = (\<lambda>_. False), nconns = 0,
      handlers = []\<rparr>"

section \<open>Serving a listener\<close>

definition makeListener :: "(string \<Rightarrow> go_error option) \<Rightarrow> string \<Rightarrow> string \<Rightarrow> go_error option outcome" where
  \<comment> \<open>\<^verbatim>\<open>makeListenerMap[network](address)\<close>; the table has one entry, and a missing one is a nil function\<close>
  "makeListener listen network address =
     (if network = ''tcp'' then Return (listen address) else Panic)"

text \<open>
  \<^verbatim>\<open>Serve\<close>: \<open>served\<close> is the error the accept loop ends with. The deferred \<^verbatim>\<open>UnregisterAll\<close> runs when it has,
  not when there is no listener.
\<close>

definition Serve ::
    "(string \<Rightarrow> go_error option) \<Rightarrow> go_error \<Rightarrow> string \<Rightarrow> string \<Rightarrow> ('v, 'w) registry \<Rightarrow> 'w \<Rightarrow> go_error option outcome \<times> 'w" where
  "Serve listen served network address reg w =
     (case makeListener listen network address of
        Panic \<Rightarrow> (Panic, w)
      | Return (Some err) \<Rightarrow> (Return (Some err), w)
      | Return None \<Rightarrow> (case UnregisterAll reg w of (_, w) \<Rightarrow> (Return (Some served), w)))"

definition lc_isShutdown :: "lifecycle \<Rightarrow> bool" where
  "lc_isShutdown s \<longleftrightarrow> inShutdown s = 1"

definition accept_failed :: "go_error \<Rightarrow> lifecycle \<Rightarrow> lifecycle" where
  "accept_failed err s =
     (if lc_isShutdown s then s\<lparr>accept_at := AcceptWaits\<rparr>
      else if errors_Is err ErrListenerClosed then s\<lparr>accept_at := ServeReturned ErrServerClosed\<rparr>
      else s\<lparr>accept_at := ServeReturned err\<rparr>)"

definition accept_conn :: "lifecycle \<Rightarrow> lifecycle" where
  "accept_conn s = s\<lparr>accept_at := Holding (nconns s), nconns := nconns s + 1\<rparr>"

definition insert_conn :: "conn \<Rightarrow> lifecycle \<Rightarrow> lifecycle" where
  \<comment> \<open>the critical section that enters the connection in the table\<close>
  "insert_conn c s = s\<lparr>actionConnMap := gomap_set c () (actionConnMap s), accept_at := Inserted c\<rparr>"

definition start_conn :: "conn \<Rightarrow> lifecycle \<Rightarrow> lifecycle" where
  \<comment> \<open>\<^verbatim>\<open>go svr.serveConn(conn)\<close>, and the next round of the loop\<close>
  "start_conn c s = s\<lparr>conn_at := (conn_at s)(c \<mapsto> ConnStart), accept_at := Accepting\<rparr>"

text \<open>
  \<^verbatim>\<open>closeConn\<close> in two steps: the deletion from the table under the mutex, and, after the mutex was
  released, closing the connection, which is the last thing its goroutine does.
\<close>

definition closeConn_delete :: "conn \<Rightarrow> lifecycle \<Rightarrow> lifecycle" where
  "closeConn_delete c s = s\<lparr>actionConnMap := gomap_del c (actionConnMap s), conn_at := (conn_at s)(c \<mapsto> ConnClosing)\<rparr>"

definition closeConn_close :: "conn \<Rightarrow> lifecycle \<Rightarrow> lifecycle" where
  "closeConn_close c s = s\<lparr>conn_closed_by := (conn_closed_by s)(c := True), conn_at := (conn_at s)(c \<mapsto> ConnGone)\<rparr>"

text \<open>\<^verbatim>\<open>serveConn\<close>: the entry check, one round of the loop that hands out a request, leaving the loop, and the deferred function.\<close>

definition conn_enter :: "conn \<Rightarrow> lifecycle \<Rightarrow> lifecycle" where
  "conn_enter c s =
     (if lc_isShutdown s then closeConn_delete c s
      else s\<lparr>conn_at := (conn_at s)(c \<mapsto> ConnLoop)\<rparr>)"

definition conn_request :: "conn \<Rightarrow> lifecycle \<Rightarrow> lifecycle" where
  "conn_request c s =
     (if lc_isShutdown s then s\<lparr>conn_at := (conn_at s)(c \<mapsto> ConnLeaving)\<rparr>
      else s\<lparr>handlers := handlers s @ [False]\<rparr>)"

definition conn_leave :: "conn \<Rightarrow> lifecycle \<Rightarrow> lifecycle" where
  "conn_leave c s = s\<lparr>conn_at := (conn_at s)(c \<mapsto> ConnLeaving)\<rparr>"

definition conn_deferred :: "conn \<Rightarrow> lifecycle \<Rightarrow> lifecycle" where
  "conn_deferred c s =
     (if lc_isShutdown s then s\<lparr>conn_at := (conn_at s)(c \<mapsto> ConnWaits)\<rparr>
      else closeConn_delete c s)"

definition conn_finish :: "conn \<Rightarrow> lifecycle \<Rightarrow> lifecycle" where
  \<comment> \<open>after the wait for \<^verbatim>\<open>doneChan\<close>\<close>
  "conn_finish c s = closeConn_delete c s"

text \<open>The counter of a handler goroutine, incremented on entry and decremented by a deferred call.\<close>

definition handler_enter :: "nat \<Rightarrow> lifecycle \<Rightarrow> lifecycle" where
  "handler_enter i s = s\<lparr>handlers := (handlers s)[i := True], msgNum := msgNum s + 1\<rparr>"

definition handler_leave :: "nat \<Rightarrow> lifecycle \<Rightarrow> lifecycle" where
  "handler_leave i s = s\<lparr>handlers := take i (handlers s) @ drop (Suc i) (handlers s), msgNum := msgNum s - 1\<rparr>"

section \<open>Closing\<close>

fun close_conns :: "conn list \<Rightarrow> lifecycle \<Rightarrow> lifecycle" where
  "close_conns [] s = s"
| "close_conns (c # cs) s =
     close_conns cs (s\<lparr>conn_closed_by := (conn_closed_by s)(c := True), actionConnMap := gomap_del c (actionConnMap s)\<rparr>)"

definition close_chan :: "lifecycle \<Rightarrow> lifecycle outcome" where
  \<comment> \<open>\<^verbatim>\<open>close(svr.doneChan)\<close> panics on a closed channel\<close>
  "close_chan s = (if doneChan_closed s then Panic else Return (s\<lparr>doneChan_closed := True\<rparr>))"

definition closeDoneChanLocked :: "lifecycle \<Rightarrow> lifecycle outcome" where
  "closeDoneChanLocked s = (if doneChan_closed s then Return s else close_chan s)"

definition server_Close :: "lifecycle \<Rightarrow> lifecycle outcome" where
  "server_Close s =
     (let s = s\<lparr>ln_closed := True\<rparr>;
          s = close_conns (map fst (actionConnMap s)) s;
          s = s\<lparr>gateway_open := False\<rparr>
      in closeDoneChanLocked s)"

section \<open>The step relation\<close>

text \<open>
  \<open>AcceptConn\<close> may also return a connection from a listener that is being closed, as it was accepted
  before. Data that was buffered keeps a loop running after its connection was closed. \<^verbatim>\<open>Close\<close> holds the
  mutex throughout, so no other step that touches the table falls into it; the steps that could fall into
  it concern the accept loop or a single connection and commute with it.
\<close>

inductive lc_step :: "lifecycle \<Rightarrow> lifecycle \<Rightarrow> bool" where
  AcceptConn: "accept_at s = Accepting \<Longrightarrow> lc_step s (accept_conn s)"
| AcceptError: "accept_at s = Accepting \<Longrightarrow> lc_step s (accept_failed err s)"
| AcceptDone: "\<lbrakk>accept_at s = AcceptWaits; doneChan_closed s\<rbrakk> \<Longrightarrow> lc_step s (s\<lparr>accept_at := ServeReturned ErrServerClosed\<rparr>)"
| InsertConn: "accept_at s = Holding c \<Longrightarrow> lc_step s (insert_conn c s)"
| StartConn: "accept_at s = Inserted c \<Longrightarrow> lc_step s (start_conn c s)"
| Enter: "conn_at s c = Some ConnStart \<Longrightarrow> lc_step s (conn_enter c s)"
| HandOut: "conn_at s c = Some ConnLoop \<Longrightarrow> lc_step s (conn_request c s)"
| Leave: "conn_at s c = Some ConnLoop \<Longrightarrow> lc_step s (conn_leave c s)"
| Deferred: "conn_at s c = Some ConnLeaving \<Longrightarrow> lc_step s (conn_deferred c s)"
| Finish: "\<lbrakk>conn_at s c = Some ConnWaits; doneChan_closed s\<rbrakk> \<Longrightarrow> lc_step s (conn_finish c s)"
| CloseConn: "conn_at s c = Some ConnClosing \<Longrightarrow> lc_step s (closeConn_close c s)"
| HandlerEnter: "\<lbrakk>i < length (handlers s); \<not> handlers s ! i\<rbrakk> \<Longrightarrow> lc_step s (handler_enter i s)"
| HandlerLeave: "\<lbrakk>i < length (handlers s); handlers s ! i\<rbrakk> \<Longrightarrow> lc_step s (handler_leave i s)"
| CloseServer: "server_Close s = Return s' \<Longrightarrow> lc_step s s'"

inductive_cases lc_stepE: "lc_step s s'"

abbreviation lc_run :: "lifecycle \<Rightarrow> lifecycle \<Rightarrow> bool" where
  "lc_run \<equiv> lc_step\<^sup>*\<^sup>*"

section \<open>What closing does\<close>

lemma close_conns_eq:
  "close_conns cs s = s\<lparr>conn_closed_by := (\<lambda>c. conn_closed_by s c \<or> c \<in> set cs),
     actionConnMap := fold gomap_del cs (actionConnMap s)\<rparr>"
  by (induction cs arbitrary: s) (auto simp: fun_eq_iff intro!: lifecycle.equality)

lemma fold_gomap_del: "map_of (fold gomap_del cs m) k = (if k \<in> set cs then None else map_of m k)"
  by (induction cs arbitrary: m) auto

lemma fold_gomap_del_all: "fold gomap_del (map fst m) m = []"
proof -
  have "map_of (fold gomap_del (map fst m) m) k = None" for k
    by (auto simp: fold_gomap_del map_of_eq_None_iff)
  then show ?thesis by (metis map_of_eq_empty_iff ext)
qed

lemma server_Close_eq:
  "server_Close s = Return (s\<lparr>ln_closed := True, conn_closed_by := (\<lambda>c. conn_closed_by s c \<or> c \<in> fst ` set (actionConnMap s)),
     actionConnMap := [], gateway_open := False, doneChan_closed := True\<rparr>)"
  by (auto simp: server_Close_def closeDoneChanLocked_def close_chan_def Let_def close_conns_eq fold_gomap_del_all
      intro!: lifecycle.equality)

section \<open>Invariant\<close>

definition flag_inv :: "lifecycle \<Rightarrow> bool" where
  "flag_inv s \<longleftrightarrow> inShutdown s = 0 \<and> accept_at s \<noteq> AcceptWaits \<and> (\<forall>c. conn_at s c \<noteq> Some ConnWaits)"

text \<open>Before it is closed by its own goroutine a connection is in the table unless \<^verbatim>\<open>Close\<close> has closed it.\<close>

definition conn_ok :: "lifecycle \<Rightarrow> conn \<Rightarrow> bool" where
  "conn_ok s c \<longleftrightarrow>
     (case conn_at s c of
        None \<Rightarrow>
          (c < nconns s \<longleftrightarrow> accept_at s = Holding c \<or> accept_at s = Inserted c) \<and>
          (if accept_at s = Inserted c then map_of (actionConnMap s) c = None \<longleftrightarrow> conn_closed_by s c
           else map_of (actionConnMap s) c = None \<and> \<not> conn_closed_by s c)
      | Some pc \<Rightarrow>
          c < nconns s \<and> accept_at s \<noteq> Holding c \<and> accept_at s \<noteq> Inserted c \<and>
          (map_of (actionConnMap s) c = None \<longleftrightarrow> conn_closed_by s c \<or> pc = ConnClosing \<or> pc = ConnGone) \<and>
          (pc = ConnGone \<longrightarrow> conn_closed_by s c))"

definition conn_inv :: "lifecycle \<Rightarrow> bool" where
  "conn_inv s \<longleftrightarrow> (\<forall>c. conn_ok s c)"

definition counter_inv :: "lifecycle \<Rightarrow> bool" where
  "counter_inv s \<longleftrightarrow> msgNum s = word_of_nat (length (filter id (handlers s)))"

lemmas lc_ops = accept_conn_def accept_failed_def insert_conn_def start_conn_def conn_enter_def conn_request_def conn_leave_def
  conn_deferred_def conn_finish_def closeConn_delete_def closeConn_close_def handler_enter_def handler_leave_def lc_isShutdown_def

lemma flag_inv_step: "lc_step s s' \<Longrightarrow> flag_inv s \<Longrightarrow> flag_inv s'"
  by (erule lc_stepE) (auto simp: flag_inv_def lc_ops server_Close_eq split: if_splits)


lemma conn_inv_step:
  assumes step: "lc_step s s'" and "flag_inv s" and inv: "conn_inv s"
  shows "conn_inv s'"
  unfolding conn_inv_def
proof
  fix k
  have up: "\<not> lc_isShutdown s" using assms(2) by (simp add: flag_inv_def lc_isShutdown_def)
  have ok: "conn_ok s c" for c using inv by (simp add: conn_inv_def)
  from step show "conn_ok s' k"
  proof (cases rule: lc_step.cases)
    case AcceptConn
    then show ?thesis
      using ok [of k] ok [of "nconns s"] by (auto simp: conn_ok_def accept_conn_def split: option.splits)
  next
    case (AcceptError err)
    then show ?thesis
      using ok [of k] up by (auto simp: conn_ok_def accept_failed_def split: option.splits)
  next
    case (InsertConn c)
    then show ?thesis
      using ok [of k] ok [of c] by (cases "k = c") (auto simp: conn_ok_def insert_conn_def split: option.splits)
  next
    case (StartConn c)
    then show ?thesis
      using ok [of k] ok [of c] by (cases "k = c") (auto simp: conn_ok_def start_conn_def split: option.splits)
  next
    case (Enter c)
    then show ?thesis
      using ok [of k] up by (cases "k = c") (auto simp: conn_ok_def conn_enter_def split: option.splits)
  next
    case (HandOut c)
    then show ?thesis using ok [of k] up by (simp add: conn_ok_def conn_request_def split: option.splits)
  next
    case (Leave c)
    then show ?thesis
      using ok [of k] by (cases "k = c") (auto simp: conn_ok_def conn_leave_def split: option.splits)
  next
    case (Deferred c)
    then show ?thesis
      using ok [of k] up
      by (cases "k = c") (auto simp: conn_ok_def conn_deferred_def closeConn_delete_def split: option.splits)
  next
    case (CloseConn c)
    then show ?thesis
      using ok [of k] by (cases "k = c") (auto simp: conn_ok_def closeConn_close_def split: option.splits)
  next
    case (Finish c)
    then show ?thesis using assms(2) by (simp add: flag_inv_def)
  next
    case CloseServer
    have "k \<in> fst ` set (actionConnMap s) \<longleftrightarrow> map_of (actionConnMap s) k \<noteq> None"
      by (simp add: map_of_eq_None_iff)
    then show ?thesis
      using CloseServer ok [of k]
      by (cases "conn_at s k"; cases "map_of (actionConnMap s) k")
        (simp_all add: conn_ok_def server_Close_eq eq_commute [of _ s'] split: if_splits)
  next
    case (AcceptDone)
    then show ?thesis using assms(2) by (simp add: flag_inv_def)
  qed (use ok [of k] in \<open>simp_all add: conn_ok_def handler_enter_def handler_leave_def split: option.splits\<close>)
qed

lemma count_enter:
  "i < length bs \<Longrightarrow> \<not> bs ! i \<Longrightarrow> length (filter id (bs[i := True])) = Suc (length (filter id bs))"
  by (induction bs arbitrary: i) (auto split: nat.splits simp: nth_Cons')

lemma count_leave:
  "i < length bs \<Longrightarrow> bs ! i \<Longrightarrow> length (filter id bs) = Suc (length (filter id (take i bs @ drop (Suc i) bs)))"
proof -
  assume i: "i < length bs" "bs ! i"
  have "filter id bs = filter id (take i bs @ bs ! i # drop (Suc i) bs)"
    using id_take_nth_drop [OF i(1)] by simp
  then show ?thesis using i(2) by simp
qed

lemma counter_inv_step:
  assumes "lc_step s s'" and "counter_inv s"
  shows "counter_inv s'"
  using assms(1)
proof (cases rule: lc_step.cases)
  case (HandlerEnter i)
  then show ?thesis using assms(2) by (simp add: counter_inv_def handler_enter_def count_enter)
next
  case (HandlerLeave i)
  then show ?thesis using assms(2) count_leave [of i "handlers s"] by (simp add: counter_inv_def handler_leave_def)
next
  case CloseServer
  then show ?thesis using assms(2) by (auto simp: counter_inv_def server_Close_eq)
qed (use assms(2) in \<open>auto simp: counter_inv_def lc_ops\<close>)

definition lc_inv :: "lifecycle \<Rightarrow> bool" where
  "lc_inv s \<longleftrightarrow> flag_inv s \<and> conn_inv s \<and> counter_inv s"

interpretation lc: step_invariant lc_step lc_inv
  by unfold_locales (auto simp: lc_inv_def intro: flag_inv_step conn_inv_step counter_inv_step)

lemma lc_inv_new: "lc_inv (new_lifecycle g)"
  by (simp add: lc_inv_def flag_inv_def conn_inv_def conn_ok_def counter_inv_def new_lifecycle_def)

lemma lc_reach: "lc_run (new_lifecycle g) s \<Longrightarrow> lc_inv s"
  using lc.run_inv lc_inv_new by blast

lemma lc_up: "lc_inv s \<Longrightarrow> \<not> lc_isShutdown s"
  by (simp add: lc_inv_def flag_inv_def lc_isShutdown_def)

section \<open>Every connection can finish\<close>

lemma conn_finishes_from:
  assumes "lc_inv s" "conn_at s c = Some pc"
  shows "\<exists>s'. lc_run s s' \<and> conn_at s' c = Some ConnGone \<and> conn_closed_by s' c"
proof -
  have closing: "\<exists>s'. lc_run s s' \<and> conn_at s' c = Some ConnGone \<and> conn_closed_by s' c"
    if "conn_at s c = Some ConnClosing" for s
    using lc_step.CloseConn [OF that] by (intro exI [of _ "closeConn_close c s"]) (auto simp: closeConn_close_def)
  have deferred: "\<exists>s'. lc_run s s' \<and> conn_at s' c = Some ConnGone \<and> conn_closed_by s' c"
    if "lc_inv s" "conn_at s c = Some ConnLeaving" for s
  proof -
    have "conn_at (conn_deferred c s) c = Some ConnClosing"
      using lc_up [OF that(1)] by (simp add: conn_deferred_def closeConn_delete_def)
    from closing [OF this] show ?thesis
      using lc_step.Deferred [OF that(2)] by (meson converse_rtranclp_into_rtranclp)
  qed
  have loop: "\<exists>s'. lc_run s s' \<and> conn_at s' c = Some ConnGone \<and> conn_closed_by s' c"
    if inv: "lc_inv s" and at: "conn_at s c = Some ConnLoop" for s
  proof -
    have step: "lc_step s (conn_leave c s)" using at by (rule lc_step.Leave)
    have "conn_at (conn_leave c s) c = Some ConnLeaving" by (simp add: conn_leave_def)
    from deferred [OF lc.step_inv [OF inv step] this] show ?thesis
      using step by (meson converse_rtranclp_into_rtranclp)
  qed
  show ?thesis
  proof (cases pc)
    case ConnStart
    have step: "lc_step s (conn_enter c s)" using assms(2) ConnStart by (simp add: lc_step.Enter)
    have "conn_at (conn_enter c s) c = Some ConnLoop" using lc_up [OF assms(1)] by (simp add: conn_enter_def)
    from loop [OF lc.step_inv [OF assms(1) step] this] show ?thesis
      using step by (meson converse_rtranclp_into_rtranclp)
  next
    case ConnGone
    then have "conn_closed_by s c" using assms by (auto simp: lc_inv_def conn_inv_def conn_ok_def dest: spec [of _ c])
    then show ?thesis using assms(2) ConnGone by blast
  next
    case ConnWaits
    then show ?thesis using assms by (simp add: lc_inv_def flag_inv_def)
  qed (use loop deferred closing assms in auto)
qed

section \<open>A connection accepted while the server is closed\<close>

text \<open>
  The listener has returned a connection, the user closes the server, the accept loop goes on: it
  registers the connection and starts its goroutine, which finds the shutdown flag unset.
\<close>

definition late_conn :: lifecycle where
  "late_conn =
     \<lparr>ln_closed = True, actionConnMap = [(0, ())], doneChan_closed = True, inShutdown = 0, gateway_open = False,
      msgNum = 1, accept_at = Accepting, conn_at = (\<lambda>_. None)(0 \<mapsto> ConnLoop), conn_closed_by = (\<lambda>_. False), nconns = 1,
      handlers = [True]\<rparr>"

lemma late_conn_run: "lc_run (new_lifecycle g) late_conn"
proof -
  let ?s0 = "new_lifecycle g"
  let ?s1 = "accept_conn ?s0"
  let ?s2 = "?s1\<lparr>ln_closed := True, gateway_open := False, doneChan_closed := True\<rparr>"
  let ?s3i = "insert_conn 0 ?s2"
  let ?s3 = "start_conn 0 ?s3i"
  let ?s4 = "conn_enter 0 ?s3"
  let ?s5 = "conn_request 0 ?s4"
  let ?s6 = "handler_enter 0 ?s5"
  have "lc_step ?s0 ?s1" by (rule lc_step.AcceptConn) (simp add: new_lifecycle_def)
  moreover have "lc_step ?s1 ?s2"
    by (rule lc_step.CloseServer) (simp add: server_Close_eq new_lifecycle_def accept_conn_def)
  moreover have "lc_step ?s2 ?s3i" by (rule lc_step.InsertConn) (simp add: accept_conn_def new_lifecycle_def)
  moreover have "lc_step ?s3i ?s3" by (rule lc_step.StartConn) (simp add: insert_conn_def)
  moreover have "lc_step ?s3 ?s4" by (rule lc_step.Enter) (simp add: start_conn_def)
  moreover have "lc_step ?s4 ?s5"
    by (rule lc_step.HandOut) (simp add: lc_ops new_lifecycle_def)
  moreover have "lc_step ?s5 ?s6"
    by (rule lc_step.HandlerEnter) (simp_all add: lc_ops new_lifecycle_def)
  moreover have "?s6 = late_conn"
    by (simp add: late_conn_def lc_ops new_lifecycle_def)
  ultimately show ?thesis by (metis (no_types, lifting) rtranclp.rtrancl_into_rtrancl rtranclp.rtrancl_refl)
qed

section \<open>Properties\<close>

text \<open>
  C8: the table of active connections is exact. In every schedule a connection whose goroutine was started
  is in the table exactly as long as nobody has closed it and its goroutine has not reached the end of
  \<^verbatim>\<open>closeConn\<close>'s critical section; a goroutine that is gone has closed its connection; and the counter of
  running handlers is the number of handlers between their entry and their exit.
\<close>

theorem connections_tracked:
  assumes "lc_run (new_lifecycle g) s" and "conn_at s c = Some pc"
  shows "(map_of (actionConnMap s) c = Some () \<longleftrightarrow> \<not> conn_closed_by s c \<and> pc \<noteq> ConnClosing \<and> pc \<noteq> ConnGone) \<and>
    (pc = ConnGone \<longrightarrow> conn_closed_by s c) \<and> msgNum s = word_of_nat (length (filter id (handlers s)))"
proof -
  have "conn_ok s c" and "counter_inv s"
    using lc_reach [OF assms(1)] by (simp_all add: lc_inv_def conn_inv_def)
  then show ?thesis using assms(2) by (auto simp: conn_ok_def counter_inv_def)
qed

theorem connections_tracked_witness: "map_of (actionConnMap late_conn) 0 = Some ()"
  using connections_tracked [OF late_conn_run, of 0 ConnLoop] by (simp add: late_conn_def)

text \<open>
  C18: closing a server closes its listener, its gateway and every connection in its table, and can be
  repeated: \<^verbatim>\<open>Close\<close> never panics, and a second call changes nothing. A connection that was started to be
  served, or only entered in the table, is closed by \<^verbatim>\<open>Close\<close> or was closed before, with one exception, a
  connection that its own goroutine has taken out of the table but not closed yet: the next step of that
  goroutine closes it.
\<close>

theorem close_closes_everything:
  assumes "lc_run (new_lifecycle g) s"
  shows "\<exists>s'. server_Close s = Return s' \<and> ln_closed s' \<and> actionConnMap s' = [] \<and> doneChan_closed s' \<and> \<not> gateway_open s' \<and>
    (\<forall>c. conn_at s c \<noteq> None \<or> accept_at s = Inserted c \<longrightarrow>
       conn_closed_by s' c \<or>
       conn_at s' c = Some ConnClosing \<and> lc_step s' (closeConn_close c s') \<and> conn_closed_by (closeConn_close c s') c) \<and>
    server_Close s' = Return s'"
proof -
  have ok: "conn_ok s c" for c using lc_reach [OF assms] by (simp add: lc_inv_def conn_inv_def)
  have "conn_closed_by s c \<or> c \<in> fst ` set (actionConnMap s) \<or> conn_at s c = Some ConnClosing"
    if "conn_at s c \<noteq> None \<or> accept_at s = Inserted c" for c
    using ok [of c] that by (auto simp: conn_ok_def map_of_eq_None_iff split: option.splits)
  moreover have step: "lc_step t (closeConn_close c t)" "conn_closed_by (closeConn_close c t) c" if "conn_at t c = Some ConnClosing" for c t
    using lc_step.CloseConn [OF that] by (simp_all add: closeConn_close_def)
  obtain s' where s': "server_Close s = Return s'" "conn_at s' = conn_at s"
      "conn_closed_by s' = (\<lambda>c. conn_closed_by s c \<or> c \<in> fst ` set (actionConnMap s))"
      "ln_closed s'" "actionConnMap s' = []" "doneChan_closed s'" "\<not> gateway_open s'" "server_Close s' = Return s'"
    by (simp add: server_Close_eq)
  ultimately have "conn_closed_by s' c \<or>
       conn_at s' c = Some ConnClosing \<and> lc_step s' (closeConn_close c s') \<and> conn_closed_by (closeConn_close c s') c"
    if "conn_at s c \<noteq> None \<or> accept_at s = Inserted c" for c
    using that step [of s' c] by auto
  then show ?thesis using s' by blast
qed

theorem close_closes_everything_witness:
  "\<exists>s'. server_Close late_conn = Return s' \<and> conn_closed_by s' 0"
proof -
  obtain s' where s': "server_Close late_conn = Return s'"
      "conn_at late_conn 0 \<noteq> None \<longrightarrow> conn_closed_by s' 0 \<or> conn_at s' 0 = Some ConnClosing"
    using close_closes_everything [OF late_conn_run] by blast
  have "conn_at s' 0 = Some ConnLoop" using s'(1) by (auto simp: server_Close_eq late_conn_def)
  then show ?thesis using s' by (simp add: late_conn_def)
qed

text \<open>
  C29: nobody waits for a shutdown. The flag \<^verbatim>\<open>inShutdown\<close> is read but never written, so in every schedule
  neither the accept loop nor a connection waits for \<^verbatim>\<open>doneChan\<close>, and every connection that is being
  served can still finish and be closed.
\<close>

theorem connection_can_finish:
  assumes "lc_run (new_lifecycle g) s" and "conn_at s c = Some pc"
  shows "pc \<noteq> ConnWaits \<and> accept_at s \<noteq> AcceptWaits \<and> \<not> lc_isShutdown s \<and>
    (\<exists>s'. lc_run s s' \<and> conn_at s' c = Some ConnGone \<and> conn_closed_by s' c)"
  using lc_reach [OF assms(1)] conn_finishes_from [OF lc_reach [OF assms(1)] assms(2)] lc_up assms(2)
  by (auto simp: lc_inv_def flag_inv_def)

theorem connection_can_finish_witness:
  "\<exists>s'. lc_run late_conn s' \<and> conn_at s' 0 = Some ConnGone"
  using connection_can_finish [OF late_conn_run, of 0 ConnLoop] by (auto simp: late_conn_def)

text \<open>
  A closed server can go on serving. A connection the listener returned before \<^verbatim>\<open>Close\<close> but that was
  not yet in the table is missed by \<^verbatim>\<open>Close\<close>; as the shutdown flag stays unset it is registered, served,
  and its requests are handled.
\<close>

theorem close_misses_connection:
  "\<exists>s. lc_run (new_lifecycle g) s \<and> doneChan_closed s \<and> ln_closed s \<and> conn_at s 0 = Some ConnLoop \<and>
    \<not> conn_closed_by s 0 \<and> msgNum s = 1"
  using late_conn_run by (intro exI [of _ late_conn]) (simp add: late_conn_def)

text \<open>
  When accepting fails, the server reports that it was closed only if the multiplexer says so; any
  other error is passed on, also after \<^verbatim>\<open>Close\<close>.
\<close>

lemma accept_error_reported:
  assumes "lc_run (new_lifecycle g) s"
  shows "accept_at (accept_failed err s) = ServeReturned (if errors_Is err ErrListenerClosed then ErrServerClosed else err)"
  using lc_up [OF lc_reach [OF assms]] by (simp add: accept_failed_def)

end
