(* ===== verification/Consul_Plugin.thy ===== *)
theory Consul_Plugin
  imports Lifecycle XClient Go_Text
begin

text \<open>
  The plugin that announces a server's services in Consul, \<^verbatim>\<open>server_plugin/consul.go\<close>. The agent's client
  library is a parameter. The last sections connect it with the server, which registers and
  unregisters through it, and with the client, which finds the server's address by it.
\<close>

section \<open>Host and port\<close>

text \<open>\<^verbatim>\<open>net.SplitHostPort\<close>: the port starts after the last colon, the host may be in brackets.\<close>

fun split_last :: "'a \<Rightarrow> 'a list \<Rightarrow> ('a list \<times> 'a list) option" where
  "split_last c [] = None"
| "split_last c (x # xs) =
     (case split_last c xs of
        Some (a, b) \<Rightarrow> Some (x # a, b)
      | None \<Rightarrow> if x = c then Some ([], xs) else None)"

definition addr_error :: "string \<Rightarrow> string \<Rightarrow> go_error" where
  \<comment> \<open>the text of a \<^verbatim>\<open>net.AddrError\<close>\<close>
  "addr_error addr why = NewError (if addr = [] then why else ''address '' @ addr @ '': '' @ why)"

definition SplitHostPort :: "string \<Rightarrow> go_error + string \<times> string" where
  "SplitHostPort hostport =
     (let missingPort = Inl (addr_error hostport ''missing port in address'');
          tooManyColons = Inl (addr_error hostport ''too many colons in address'');
          finish = (\<lambda>host port open_in close_in.
            if CHR ''['' \<in> set open_in then Inl (addr_error hostport ''unexpected '[' in address'')
            else if CHR '']'' \<in> set close_in then Inl (addr_error hostport ''unexpected ']' in address'')
            else Inr (host, port))
      in case split_last (CHR '':'') hostport of
           None \<Rightarrow> missingPort
         | Some (before, port) \<Rightarrow>
             if hd hostport = CHR ''['' then
               (let inner = takeWhile (\<lambda>c. c \<noteq> CHR '']'') (tl hostport);
                    rest = dropWhile (\<lambda>c. c \<noteq> CHR '']'') (tl hostport)
                in case rest of
                     [] \<Rightarrow> Inl (addr_error hostport ''missing ']' in address'')
                   | _ # tail \<Rightarrow>
                       if tail = [] then missingPort
                       else if tail = CHR '':'' # port then finish inner port (tl hostport) tail
                       else if hd tail = CHR '':'' then tooManyColons
                       else missingPort)
             else if CHR '':'' \<in> set before then tooManyColons
             else finish before port hostport hostport)"

section \<open>The plugin\<close>

text \<open>Durations are in nanoseconds; the library is given their text.\<close>

record ConsulPlugin =
  cp_ConsulAddr :: string
  cp_ServiceAddr :: string
  cp_ServiceName :: string
  cp_HeartbeatAddr :: string
  cp_HeartbeatInternal :: int
  cp_MaxWaitForHeartbeat :: int

definition WithConsulAddr :: "string \<Rightarrow> ConsulPlugin \<Rightarrow> ConsulPlugin" where
  "WithConsulAddr addr c = c\<lparr>cp_ConsulAddr := addr\<rparr>"

definition WithServiceAddr :: "string \<Rightarrow> ConsulPlugin \<Rightarrow> ConsulPlugin" where
  "WithServiceAddr addr c = c\<lparr>cp_ServiceAddr := addr\<rparr>"

definition WithHeartbeat :: "string \<Rightarrow> int \<Rightarrow> int \<Rightarrow> ConsulPlugin \<Rightarrow> ConsulPlugin" where
  "WithHeartbeat heartbeatAddr interval maxWait c =
     c\<lparr>cp_HeartbeatAddr := heartbeatAddr, cp_HeartbeatInternal := interval, cp_MaxWaitForHeartbeat := maxWait\<rparr>"

definition NewConsulPlugin :: "(ConsulPlugin \<Rightarrow> ConsulPlugin) list \<Rightarrow> ConsulPlugin" where
  "NewConsulPlugin opts =
     fold (\<lambda>opt c. opt c) opts
       \<lparr>cp_ConsulAddr = [], cp_ServiceAddr = [], cp_ServiceName = [], cp_HeartbeatAddr = [],
        cp_HeartbeatInternal = 0, cp_MaxWaitForHeartbeat = 0\<rparr>"

record service_check =
  ck_HTTP :: string
  ck_TCPUseTLS :: bool
  ck_TLSSkipVerify :: bool
  ck_Interval :: int
  ck_DeregisterAfter :: int

record agent_registration =
  ar_Name :: string
  ar_ID :: string
  ar_Address :: string
  ar_Port :: int
  ar_Check :: service_check

record 'w agent_api =
  ag_NewClient :: "string \<Rightarrow> go_error option"
  ag_ServiceRegister :: "string \<Rightarrow> agent_registration \<Rightarrow> 'w \<Rightarrow> go_error option \<times> 'w"
  ag_ServiceDeregister :: "string \<Rightarrow> string \<Rightarrow> 'w \<Rightarrow> go_error option \<times> 'w"

definition registration_of :: "ConsulPlugin \<Rightarrow> string \<Rightarrow> string \<Rightarrow> int \<Rightarrow> agent_registration" where
  "registration_of c name svrHost svrPort =
     \<lparr>ar_Name = name, ar_ID = name @ ''-'' @ svrHost @ '':'' @ dec_of_int svrPort, ar_Address = svrHost, ar_Port = svrPort,
      ar_Check = \<lparr>ck_HTTP = ''http://'' @ cp_HeartbeatAddr c @ ''/health'', ck_TCPUseTLS = False, ck_TLSSkipVerify = True,
        ck_Interval = cp_HeartbeatInternal c, ck_DeregisterAfter = cp_MaxWaitForHeartbeat c\<rparr>\<rparr>"

definition CP_Register ::
    "(string \<Rightarrow> string) \<Rightarrow> 'w agent_api \<Rightarrow> string \<Rightarrow> ConsulPlugin \<times> 'w \<Rightarrow> go_error option \<times> ConsulPlugin \<times> 'w" where
  "CP_Register quote api name cw =
     (let (c, w) = cw; c = c\<lparr>cp_ServiceName := name\<rparr>
      in case ag_NewClient api (cp_ConsulAddr c) of
           Some err \<Rightarrow> (Some err, c, w)
         | None \<Rightarrow>
        (case SplitHostPort (cp_ServiceAddr c) of
           Inl err \<Rightarrow> (Some err, c, w)
         | Inr (svrHost, port) \<Rightarrow>
        (case Atoi quote port of
           (svrPort, Some err) \<Rightarrow> (Some err, c, w)
         | (svrPort, None) \<Rightarrow>
             (case ag_ServiceRegister api (cp_ConsulAddr c) (registration_of c name svrHost svrPort) w of
                (err, w) \<Rightarrow> (err, c, w)))))"

definition CP_UnRegister :: "'w agent_api \<Rightarrow> string \<Rightarrow> ConsulPlugin \<times> 'w \<Rightarrow> go_error option \<times> ConsulPlugin \<times> 'w" where
  "CP_UnRegister api name cw =
     (let (c, w) = cw
      in case ag_NewClient api (cp_ConsulAddr c) of
           Some err \<Rightarrow> (Some err, c, w)
         | None \<Rightarrow> (case ag_ServiceDeregister api (cp_ConsulAddr c) (cp_ServiceName c) w of (err, w) \<Rightarrow> (err, c, w)))"

definition CP_Start :: "ConsulPlugin \<Rightarrow> go_error option" where "CP_Start c = None"
definition CP_Stop :: "ConsulPlugin \<Rightarrow> go_error option" where "CP_Stop c = None"

text \<open>The plugin as the container of a server sees it: it implements the registration interface.\<close>

definition consul_as_plugin :: "(string \<Rightarrow> string) \<Rightarrow> 'w agent_api \<Rightarrow> ('a, ConsulPlugin \<times> 'w) plugin" where
  "consul_as_plugin quote api =
     \<lparr>pl_id = 0, pl_Register = Some (CP_Register quote api), pl_UnRegister = Some (CP_UnRegister api),
      pl_HandleConnAccept = None, pl_HandleConnClose = None, pl_PreCall = None\<rparr>"

section \<open>Addresses\<close>

lemma split_last_none: "c \<notin> set xs \<Longrightarrow> split_last c xs = None"
  by (induction xs) auto

lemma split_last_at: "c \<notin> set ys \<Longrightarrow> split_last c (xs @ c # ys) = Some (xs, ys)"
  by (induction xs) (auto simp: split_last_none)

lemma digits_plain:
  assumes "c \<in> {CHR '':'', CHR ''['', CHR '']'', CHR ''@''}"
  shows "c \<notin> set (dec_of_nat n)"
proof
  assume "c \<in> set (dec_of_nat n)"
  then have "digit_of c \<noteq> None" by (rule dec_digits)
  then show False using assms by (auto simp: digit_of_def)
qed

definition plain_host :: "string \<Rightarrow> bool" where
  \<comment> \<open>a host name or an IPv4 address\<close>
  "plain_host h \<longleftrightarrow> list_all (\<lambda>c. c \<notin> {CHR '':'', CHR ''['', CHR '']'', CHR ''@''}) h"

lemma SplitHostPort_plain:
  assumes "plain_host h"
  shows "SplitHostPort (h @ CHR '':'' # dec_of_nat n) = Inr (h, dec_of_nat n)"
proof -
  have h: "CHR '':'' \<notin> set h" "CHR ''['' \<notin> set h" "CHR '']'' \<notin> set h"
    using assms by (auto simp: plain_host_def list_all_iff)
  have n: "CHR '':'' \<notin> set (dec_of_nat n)" "CHR ''['' \<notin> set (dec_of_nat n)" "CHR '']'' \<notin> set (dec_of_nat n)"
    using digits_plain by blast+
  have "hd (h @ CHR '':'' # dec_of_nat n) \<noteq> CHR ''[''"
    using h(2) by (cases h) auto
  then show ?thesis
    using h n by (simp add: SplitHostPort_def split_last_at Let_def)
qed

lemma dec_of_int_nat: "dec_of_int (int n) = dec_of_nat n"
  by (simp add: dec_of_int_def)

lemma Register_plain:
  assumes "cp_ServiceAddr c = h @ CHR '':'' # dec_of_nat n" "plain_host h" "n < 2 ^ 63" "ag_NewClient api (cp_ConsulAddr c) = None"
  shows "CP_Register quote api name (c, w) =
    (case ag_ServiceRegister api (cp_ConsulAddr c) (registration_of c name h (int n)) w of
       (err, w') \<Rightarrow> (err, c\<lparr>cp_ServiceName := name\<rparr>, w'))"
  using assms by (simp add: CP_Register_def SplitHostPort_plain Atoi_dec registration_of_def)

lemma Register_plain_ok:
  assumes "CP_Register quote api name (c, w) = (None, c', w')"
    and "cp_ServiceAddr c = h @ CHR '':'' # dec_of_nat n" "plain_host h" "n < 2 ^ 63"
  shows "ag_ServiceRegister api (cp_ConsulAddr c) (registration_of c name h (int n)) w = (None, w') \<and> c' = c\<lparr>cp_ServiceName := name\<rparr>"
proof -
  have "ag_NewClient api (cp_ConsulAddr c) = None"
    using assms(1) by (auto simp: CP_Register_def Let_def split: option.splits)
  then show ?thesis
    using assms(1) Register_plain [OF assms(2-4), of api quote name w] by (auto split: prod.splits)
qed

section \<open>The agent\<close>

text \<open>
  The documented behaviour of an agent, on the services it knows by their ids: registering adds or
  replaces one, deregistering an id touches no other.
\<close>

definition agent_documented :: "'w agent_api \<Rightarrow> ('w \<Rightarrow> string \<Rightarrow> agent_registration option) \<Rightarrow> bool" where
  "agent_documented api view \<longleftrightarrow>
     (\<forall>a r w w'. ag_ServiceRegister api a r w = (None, w') \<longrightarrow> view w' = (view w)(ar_ID r \<mapsto> r)) \<and>
     (\<forall>a i w e w' j. ag_ServiceDeregister api a i w = (e, w') \<longrightarrow> j \<noteq> i \<longrightarrow> view w' j = view w j)"

lemma UnRegister_keeps:
  assumes "agent_documented api view" "CP_UnRegister api s (c, w) = (e, c', w')" "cp_ServiceName c \<noteq> j"
  shows "c' = c \<and> view w' j = view w j"
  using assms unfolding agent_documented_def
  by (auto simp: CP_UnRegister_def split: option.splits prod.splits)

lemma unregister_all_keeps:
  assumes "agent_documented api view" and P: "plugins P = [consul_as_plugin quote api]"
  shows "unregister_all_loop P ss errs (c, w) = (errs', c', w') \<Longrightarrow> cp_ServiceName c \<noteq> j \<Longrightarrow> c' = c \<and> view w' j = view w j"
proof (induction ss arbitrary: errs w)
  case (Cons s ss)
  obtain e c1 w1 where u: "CP_UnRegister api s (c, w) = (e, c1, w1)" using prod_cases3 by blast
  have keep: "c1 = c" "view w1 j = view w j" using UnRegister_keeps [OF assms(1) u Cons.prems(2)] by auto
  obtain errs1 where "unregister_all_loop P ss errs1 (c, w1) = (errs', c', w')"
    using Cons.prems(1) u keep(1) P
    by (auto simp: DoUnRegister_def consul_as_plugin_def split: option.splits)
  then show ?case using Cons.IH Cons.prems(2) keep(2) by auto
qed simp

lemma RegisterName_consul:
  assumes "RegisterName up name inst reg (c, w) = (None, reg', c', w')" "plugins (Plugins reg) = [consul_as_plugin quote api]"
  shows "CP_Register quote api name (c, w) = (None, c', w') \<and> Plugins reg' = Plugins reg"
proof -
  obtain sname err reg1 where r: "register up name inst reg = ((sname, err), reg1)" by (metis surj_pair)
  then have P: "Plugins reg1 = Plugins reg"
    by (auto simp: register_def Let_def split: prod.splits if_splits)
  show ?thesis
    using assms r P
    by (auto simp: RegisterName_def DoRegister_def consul_as_plugin_def errors_result_def split: option.splits prod.splits)
qed

section \<open>Queries\<close>

text \<open>
  What a client's discovery asks an agent whose state is \<open>w\<close>. The documented behaviour of a query for a name
  that needs no escaping in a filter: it returns the address and port of exactly the services
  registered under that name, by their ids.
\<close>

definition plain_name :: "string \<Rightarrow> bool" where
  "plain_name name \<longleftrightarrow> list_all (\<lambda>c. c \<notin> {CHR 0x22, CHR 0x5C}) name"

definition queries_documented :: "('w \<Rightarrow> consul_api) \<Rightarrow> ('w \<Rightarrow> string \<Rightarrow> agent_registration option) \<Rightarrow> bool" where
  "queries_documented capi view \<longleftrightarrow>
     (\<forall>w addr name svcs. plain_name name \<longrightarrow>
        api_ServicesWithFilter (capi w) addr (''Service == \"'' @ name @ ''\"'') = Inr svcs \<longrightarrow>
        set svcs = {(i, \<lparr>as_Address = ar_Address r, as_Port = ar_Port r\<rparr>) | i r. view w i = Some r \<and> ar_Name r = name})"

lemma pairs_loop_eq: "pairs_loop svcs ps = ps @ map (pair_of \<circ> snd) svcs"
  by (induction svcs ps rule: pairs_loop.induct) auto

lemma findServiceAddress_documented:
  assumes "queries_documented capi view" "plain_name name" "findServiceAddress (capi w) addr name = Inr pairs"
  shows "set pairs = {pair_of \<lparr>as_Address = ar_Address r, as_Port = ar_Port r\<rparr> | i r. view w i = Some r \<and> ar_Name r = name}"
proof -
  obtain svcs where q: "api_ServicesWithFilter (capi w) addr (''Service == \"'' @ name @ ''\"'') = Inr svcs"
      and pairs: "pairs = map (pair_of \<circ> snd) svcs"
    using assms(3) by (auto simp: findServiceAddress_def pairs_loop_eq split: option.splits sum.splits)
  have "set svcs = {(i, \<lparr>as_Address = ar_Address r, as_Port = ar_Port r\<rparr>) | i r. view w i = Some r \<and> ar_Name r = name}"
    using assms(1,2) q unfolding queries_documented_def by blast
  then show ?thesis unfolding pairs set_map by (auto simp: image_iff) (metis snd_conv)+
qed

lemma plain_split:
  assumes "plain_host h"
  shows "splitNetworkAndAddress (h @ CHR '':'' # dec_of_nat n) = (''tcp'', h @ CHR '':'' # dec_of_nat n)"
proof -
  have "CHR ''@'' \<notin> set (h @ CHR '':'' # dec_of_nat n)"
    using assms digits_plain by (auto simp: plain_host_def list_all_iff)
  then show ?thesis by (simp add: splitNetworkAndAddress_def splitN2_none)
qed

section \<open>An agent for the examples\<close>

definition demo_agent :: "(string \<Rightarrow> agent_registration option) agent_api" where
  "demo_agent =
     \<lparr>ag_NewClient = (\<lambda>_. None), ag_ServiceRegister = (\<lambda>a r m. (None, m(ar_ID r \<mapsto> r))),
      ag_ServiceDeregister = (\<lambda>a i m. (None, m(i := None)))\<rparr>"

definition demo_plugin :: ConsulPlugin where
  "demo_plugin = NewConsulPlugin [WithConsulAddr ''c:8500'', WithServiceAddr (''h:'' @ dec_of_nat 80), WithHeartbeat ''h:81'' 5 9]"

lemma demo_agent_documented: "agent_documented demo_agent id"
  by (auto simp: agent_documented_def demo_agent_def)

lemma demo_plugin_fields: "cp_ServiceAddr demo_plugin = ''h'' @ CHR '':'' # dec_of_nat 80" "plain_host ''h''"
  by (simp_all add: demo_plugin_def NewConsulPlugin_def WithConsulAddr_def WithServiceAddr_def WithHeartbeat_def plain_host_def)

text \<open>An agent that answers queries as well, its state the list of its services by their ids.\<close>

definition list_agent :: "(string, agent_registration) gomap agent_api" where
  "list_agent =
     \<lparr>ag_NewClient = (\<lambda>_. None), ag_ServiceRegister = (\<lambda>a r m. (None, gomap_set (ar_ID r) r m)),
      ag_ServiceDeregister = (\<lambda>a i m. (None, gomap_del i m))\<rparr>"

definition list_queries :: "(string, agent_registration) gomap \<Rightarrow> consul_api" where
  "list_queries m =
     \<lparr>api_NewClient = (\<lambda>_. None),
      api_ServicesWithFilter = (\<lambda>a f. Inr (map (\<lambda>(i, r). (i, \<lparr>as_Address = ar_Address r, as_Port = ar_Port r\<rparr>))
        (filter (\<lambda>(i, r). ''Service == \"'' @ ar_Name r @ ''\"'' = f) (AList.clearjunk m))))\<rparr>"

definition stranger :: agent_registration where
  "stranger = (registration_of demo_plugin ''Other'' ''x'' 7)\<lparr>ar_ID := ''x''\<rparr>"

lemma list_agent_documented: "agent_documented list_agent map_of"
  by (auto simp: agent_documented_def list_agent_def)

lemma list_queries_documented: "queries_documented list_queries map_of"
proof -
  have "(i, r) \<in> set (AList.clearjunk m) \<longleftrightarrow> map_of m i = Some r" for i r and m :: "(string, agent_registration) gomap"
    by (metis AList.distinct_clearjunk AList.map_of_clearjunk map_of_eq_Some_iff)
  then show ?thesis by (auto simp: queries_documented_def list_queries_def image_iff)
qed

lemma ipv6_example:
  "findServiceAddress (list_queries (snd (snd (CP_Register id list_agent ''Arith'' (demo_plugin\<lparr>cp_ServiceAddr := ''[::1]:80''\<rparr>, [])))))
      [] ''Arith'' = Inr [\<lparr>Key = ''::1:80'', Value = []\<rparr>]"
proof -
  have "SplitHostPort ''[::1]:80'' = Inr (''::1'', ''80'')" by (simp add: SplitHostPort_def Let_def)
  moreover have "Atoi id ''80'' = (80, None)" by (simp add: Atoi_def signed_value_def uint_value_def digit_of_def)
  moreover have "dec_of_int 80 = ''80''" by code_simp
  ultimately show ?thesis
    by (simp add: findServiceAddress_def list_queries_def CP_Register_def list_agent_def registration_of_def pair_of_def
        pairs_loop_eq Let_def)
qed

section \<open>Properties\<close>

text \<open>
  C20: clients dial the address the server was given. After the plugin has registered a service, whoever
  looks the service up with the discovery gets an address that is dialled over tcp at exactly the
  plugin's service address, and every other address the lookup gives is that of a service registered
  under the same name. The service address is a host without colons or brackets, a colon and a port in
  plain decimal; for an IPv6 address the statement is false, as shown below.
\<close>

theorem announced_address_is_dialled:
  assumes "agent_documented api view" and "queries_documented capi view" and "plain_name name"
    and "cp_ServiceAddr c = h @ CHR '':'' # dec_of_nat n" and "plain_host h" and "n < 2 ^ 63"
    and "CP_Register quote api name (c, w) = (None, c', w')"
    and "findServiceAddress (capi w') (cp_ConsulAddr c) name = Inr pairs"
  shows "(\<exists>p \<in> set pairs. splitNetworkAndAddress (Key p) = (''tcp'', cp_ServiceAddr c) \<and>
      (\<forall>env v. generateClient env (Key p) v = env_Connect env ''tcp'' (cp_ServiceAddr c) v)) \<and>
    (\<forall>p \<in> set pairs. \<exists>i r. view w' i = Some r \<and> ar_Name r = name \<and> Key p = ar_Address r @ '':'' @ dec_of_int (ar_Port r))"
proof -
  let ?r = "registration_of c name h (int n)"
  let ?p = "pair_of \<lparr>as_Address = ar_Address ?r, as_Port = ar_Port ?r\<rparr>"
  have "ag_ServiceRegister api (cp_ConsulAddr c) ?r w = (None, w')"
    using Register_plain_ok [OF assms(7,4-6)] by blast
  then have "view w' (ar_ID ?r) = Some ?r" using assms(1) by (auto simp: agent_documented_def)
  moreover have "ar_Name ?r = name" by (simp add: registration_of_def)
  moreover note pairs = findServiceAddress_documented [OF assms(2,3,8)]
  ultimately have "?p \<in> set pairs" by blast
  moreover have "Key ?p = cp_ServiceAddr c"
    using assms(4) by (simp add: registration_of_def pair_of_def dec_of_int_nat)
  then have "splitNetworkAndAddress (Key ?p) = (''tcp'', cp_ServiceAddr c)"
    using assms(4) plain_split [OF assms(5)] by simp
  moreover have "\<forall>p \<in> set pairs. \<exists>i r. view w' i = Some r \<and> ar_Name r = name \<and> Key p = ar_Address r @ '':'' @ dec_of_int (ar_Port r)"
    unfolding pairs by (clarsimp simp: pair_of_def) blast
  ultimately show ?thesis by (auto simp: generateClient_def)
qed

theorem announced_address_is_dialled_witness:
  "\<exists>w' pairs. snd (snd (CP_Register id list_agent ''Arith'' (demo_plugin, [(''x'', stranger)]))) = w' \<and>
    findServiceAddress (list_queries w') (cp_ConsulAddr demo_plugin) ''Arith'' = Inr pairs \<and>
    (\<exists>p \<in> set pairs. splitNetworkAndAddress (Key p) = (''tcp'', cp_ServiceAddr demo_plugin))"
proof -
  obtain c' w' where r: "CP_Register id list_agent ''Arith'' (demo_plugin, [(''x'', stranger)]) = (None, c', w')"
    using Register_plain [OF demo_plugin_fields(1,2), of list_agent id "''Arith''" "[(''x'', stranger)]"] by (simp add: list_agent_def)
  obtain pairs where f: "findServiceAddress (list_queries w') (cp_ConsulAddr demo_plugin) ''Arith'' = Inr pairs"
    by (simp add: findServiceAddress_def list_queries_def)
  have "plain_name ''Arith''" by (simp add: plain_name_def)
  from announced_address_is_dialled [OF list_agent_documented list_queries_documented this demo_plugin_fields(1,2) _ r f]
  show ?thesis using r f by (intro exI [of _ w'] exI [of _ pairs]) auto
qed

text \<open>
  An IPv6 address is announced without the brackets that it needs before a port, and the client puts none
  back: what it dials is no address.
\<close>

theorem ipv6_address_is_not_dialled:
  "findServiceAddress (list_queries (snd (snd (CP_Register id list_agent ''Arith'' (demo_plugin\<lparr>cp_ServiceAddr := ''[::1]:80''\<rparr>, [])))))
      [] ''Arith'' = Inr [\<lparr>Key = ''::1:80'', Value = []\<rparr>] \<and>
    splitNetworkAndAddress ''::1:80'' = (''tcp'', ''::1:80'') \<and>
    SplitHostPort ''::1:80'' = Inl (NewError ''address ::1:80: too many colons in address'')"
  by (simp add: ipv6_example splitNetworkAndAddress_def SplitHostPort_def addr_error_def)

text \<open>
  C33: a server that has stopped serving stays in Consul. The plugin registers a service under an id made of
  its name and address but deregisters the name, so when \<^verbatim>\<open>Serve\<close> ends and has unregistered everything,
  the agent still has the entry.
\<close>

theorem service_stays_in_consul:
  assumes "agent_documented api view" and "cp_ServiceAddr c = h @ CHR '':'' # dec_of_nat n"
    and "plain_host h" and "n < 2 ^ 63" and "plugins (Plugins reg) = [consul_as_plugin quote api]"
    and "RegisterName up name inst reg (c, w) = (None, reg1, c1, w1)"
    and "Serve listen served network address reg1 (c1, w1) = (res, c2, w2)"
  shows "view w2 (name @ ''-'' @ cp_ServiceAddr c) = Some (registration_of c name h (int n))"
proof -
  let ?r = "registration_of c name h (int n)"
  have reg: "CP_Register quote api name (c, w) = (None, c1, w1)" "plugins (Plugins reg1) = [consul_as_plugin quote api]"
    using RegisterName_consul [OF assms(6,5)] assms(5) by auto
  have "ag_ServiceRegister api (cp_ConsulAddr c) ?r w = (None, w1)" and name: "cp_ServiceName c1 = name"
    using Register_plain_ok [OF reg(1) assms(2-4)] by auto
  then have start: "view w1 (ar_ID ?r) = Some ?r" using assms(1) by (auto simp: agent_documented_def)
  have id: "ar_ID ?r = name @ ''-'' @ cp_ServiceAddr c" using assms(2) by (simp add: registration_of_def dec_of_int_nat)
  have "cp_ServiceName c1 \<noteq> ar_ID ?r" using name id by simp
  then have "view w' (ar_ID ?r) = view w1 (ar_ID ?r)" if "unregister_all_loop (Plugins reg1) ss [] (c1, w1) = (errs, c', w')" for ss errs c' w'
    using unregister_all_keeps [OF assms(1) reg(2) that] by blast
  then have "view w2 (ar_ID ?r) = view w1 (ar_ID ?r)"
    using assms(7) by (auto simp: Serve_def UnregisterAll_def split: outcome.splits option.splits prod.splits)
  then show ?thesis using start id by simp
qed

text \<open>A server with one service and the plugin.\<close>

definition demo_inst :: "nat instance_" where
  "demo_inst = \<lparr>inst_type_name = ''Arith'', inst_methods = [mt_method (demo_method demo_double)]\<rparr>"

definition demo_consul_registry :: "(nat, ConsulPlugin \<times> (string \<Rightarrow> agent_registration option)) registry" where
  "demo_consul_registry = \<lparr>serviceMap = [], Plugins = \<lparr>plugins = [consul_as_plugin id demo_agent]\<rparr>, reflectTypePools = []\<rparr>"

lemma demo_valid: "checkValidMethod up (mt_method (demo_method f))"
  by (simp add: checkValidMethod_def demo_method_def demo_types_def Implements_def typeOfContext_def is_Pointer_def
      typeOfError_def)

theorem service_stays_in_consul_witness:
  "\<exists>reg1 c1 w1. RegisterName (\<lambda>_. False) ''Arith'' demo_inst demo_consul_registry (demo_plugin, Map.empty) = (None, reg1, c1, w1) \<and>
    snd (snd (Serve (\<lambda>_. None) ErrListenerClosed ''tcp'' '':80'' reg1 (c1, w1))) (''Arith-'' @ cp_ServiceAddr demo_plugin) \<noteq> None"
proof -
  obtain reg1 sname where r: "register (\<lambda>_. False) ''Arith'' demo_inst demo_consul_registry = ((sname, None), reg1)"
    by (simp add: register_def demo_inst_def suitableRPCMethods_def demo_valid Let_def)
  have P: "Plugins reg1 = \<lparr>plugins = [consul_as_plugin id demo_agent]\<rparr>"
    using r by (auto simp: register_def demo_consul_registry_def Let_def split: prod.splits if_splits)
  obtain c1 w1 where a: "RegisterName (\<lambda>_. False) ''Arith'' demo_inst demo_consul_registry (demo_plugin, Map.empty) = (None, reg1, c1, w1)"
    using r P Register_plain [OF demo_plugin_fields(1,2), of demo_agent id "''Arith''" Map.empty]
    by (simp add: RegisterName_def DoRegister_def consul_as_plugin_def errors_result_def demo_agent_def)
  obtain res c2 w2 where b: "Serve (\<lambda>_. None) ErrListenerClosed ''tcp'' '':80'' reg1 (c1, w1) = (res, c2, w2)"
    using prod_cases3 by blast
  have "plugins (Plugins demo_consul_registry) = [consul_as_plugin id demo_agent]" by (simp add: demo_consul_registry_def)
  from service_stays_in_consul [OF demo_agent_documented demo_plugin_fields(1,2) _ this a b]
  have "w2 (''Arith-'' @ cp_ServiceAddr demo_plugin) \<noteq> None" by simp
  then show ?thesis using a b by (intro exI [of _ reg1] exI [of _ c1] exI [of _ w1]) simp
qed

end
