(* ===== verification/Logging.thy ===== *)
theory Logging
  imports Go_Text "HOL-Library.Sublist"
begin

text \<open>
  The logger, \<^verbatim>\<open>log/default_logger.go\<close> and \<^verbatim>\<open>log/logger.go\<close>: the levels, the table of output functions
  that \<^verbatim>\<open>NewDefaultLogger\<close> fills, the twelve methods, and the package-level functions behind the
  interface \<^verbatim>\<open>Logger\<close>. The rendering of arbitrary values by \<^verbatim>\<open>fmt\<close> and the time and place that a
  \<^verbatim>\<open>log.Logger\<close> puts before a message are arguments.
\<close>

section \<open>Levels\<close>

datatype Level = LvPanic | LvFatal | LvError | LvWarn | LvInfo | LvDebug

fun level_index :: "Level \<Rightarrow> nat" where
  "level_index LvPanic = 0"
| "level_index LvFatal = 1"
| "level_index LvError = 2"
| "level_index LvWarn = 3"
| "level_index LvInfo = 4"
| "level_index LvDebug = 5"

definition LvMax :: nat where
  "LvMax = 6"

lemma level_index_inject [simp]: "level_index a = level_index b \<longleftrightarrow> a = b"
  by (cases a; cases b) simp_all

lemma level_index_less [simp]: "level_index a < LvMax"
  by (cases a) (simp_all add: LvMax_def)

instantiation Level :: linorder
begin

definition less_eq_Level :: "Level \<Rightarrow> Level \<Rightarrow> bool" where
  "a \<le> b \<longleftrightarrow> level_index a \<le> level_index b"

definition less_Level :: "Level \<Rightarrow> Level \<Rightarrow> bool" where
  "a < b \<longleftrightarrow> level_index a < level_index b"

instance
proof
  fix a b c :: Level
  show "a < b \<longleftrightarrow> a \<le> b \<and> \<not> b \<le> a" by (auto simp: less_Level_def less_eq_Level_def)
  show "a \<le> a" by (simp add: less_eq_Level_def)
  show "a \<le> b \<Longrightarrow> b \<le> c \<Longrightarrow> a \<le> c" by (simp add: less_eq_Level_def)
  show "a \<le> b \<Longrightarrow> b \<le> a \<Longrightarrow> a = b" by (simp add: less_eq_Level_def)
  show "a \<le> b \<or> b \<le> a" by (auto simp: less_eq_Level_def)
qed

end

text \<open>
  A \<^verbatim>\<open>Level\<close> is any Go \<^verbatim>\<open>int\<close>; only the six constants index the table. The configured level is kept as
  an integer, because the environment may hold any number.
\<close>

section \<open>The standard logger\<close>

text \<open>
  The part of \<^verbatim>\<open>log.Logger\<close> that is used: \<^verbatim>\<open>Output\<close> writes the header of a line, the message and a
  newline unless the message ends in one. The header depends on the clock, on the flags and on the
  caller found at the call depth: \<open>stamp\<close> gives it.
\<close>

record std_logger =
  lg_prefix :: string
  lg_flag :: int
  lg_written :: "string list"

type_synonym stamp = "string \<Rightarrow> int \<Rightarrow> nat \<Rightarrow> string"

definition end_line :: "string \<Rightarrow> string" where
  "end_line s = (if s = [] \<or> last s \<noteq> CHR 0x0A then s @ [CHR 0x0A] else s)"

definition Output :: "stamp \<Rightarrow> nat \<Rightarrow> string \<Rightarrow> std_logger \<Rightarrow> std_logger" where
  "Output stamp depth s lg =
     lg\<lparr>lg_written := lg_written lg @ [stamp (lg_prefix lg) (lg_flag lg) depth @ end_line s]\<rparr>"

datatype OutputFn = LoggerOutput | DropOutput

fun run_output :: "OutputFn \<Rightarrow> stamp \<Rightarrow> nat \<Rightarrow> string \<Rightarrow> std_logger \<Rightarrow> std_logger" where
  "run_output LoggerOutput stamp depth s lg = Output stamp depth s lg"
| "run_output DropOutput stamp depth s lg = lg"

definition calldepth :: nat where
  "calldepth = 3"

section \<open>The default logger\<close>

text \<open>The table has one entry per level; \<^const>\<open>None\<close> is the nil function of a fresh array.\<close>

record DefaultLogger =
  dl_logger :: std_logger
  dl_out :: "OutputFn option list"

definition configured_level :: "(string \<Rightarrow> string) \<Rightarrow> string \<Rightarrow> int \<Rightarrow> int" where
  \<comment> \<open>the level after the override by the environment variable \<^verbatim>\<open>RPCX_LOG_LEVEL\<close>\<close>
  "configured_level quote env lv =
     (if env \<noteq> []
      then (case Atoi quote env of (v, None) \<Rightarrow> v | (_, Some _) \<Rightarrow> lv)
      else lv)"

definition fill_out :: "int \<Rightarrow> OutputFn option list \<Rightarrow> OutputFn option list" where
  \<comment> \<open>the loop of the constructor\<close>
  "fill_out level out0 =
     fold (\<lambda>i out. out[i := Some (if int i \<le> level then LoggerOutput else DropOutput)])
       [level_index LvError ..< LvMax] out0"

definition NewDefaultLogger :: "(string \<Rightarrow> string) \<Rightarrow> string \<Rightarrow> string \<Rightarrow> int \<Rightarrow> int \<Rightarrow> DefaultLogger" where
  "NewDefaultLogger quote env pfx flag lv =
     (let level = configured_level quote env lv;
          out0 = replicate LvMax None;
          out1 = out0[level_index LvPanic := Some LoggerOutput];
          out2 = out1[level_index LvFatal := Some LoggerOutput]
      in \<lparr>dl_logger = \<lparr>lg_prefix = pfx, lg_flag = flag, lg_written = []\<rparr>,
          dl_out = fill_out level out2\<rparr>)"

definition log_header :: "string \<Rightarrow> string \<Rightarrow> string" where
  "log_header lvl msg = lvl @ '': '' @ msg"

text \<open>
  What a call of the logger leaves behind: it returns, it ends the process with a status, or it
  panics with a text. \<open>NilCall\<close> is the panic of calling a nil entry of the table.
\<close>

datatype log_end = Returned | Exited int | Panicked string | NilCall

definition call_out :: "stamp \<Rightarrow> Level \<Rightarrow> string \<Rightarrow> DefaultLogger \<Rightarrow> DefaultLogger \<times> log_end" where
  \<comment> \<open>\<^verbatim>\<open>_ = l.out[level](calldepth, s)\<close>\<close>
  "call_out stamp lv s l =
     (case dl_out l ! level_index lv of
        None \<Rightarrow> (l, NilCall)
      | Some f \<Rightarrow> (l\<lparr>dl_logger := run_output f stamp calldepth s (dl_logger l)\<rparr>, Returned))"

definition then_end :: "log_end \<Rightarrow> DefaultLogger \<times> log_end \<Rightarrow> DefaultLogger \<times> log_end" where
  \<comment> \<open>a statement that ends the call, after one that may have panicked\<close>
  "then_end e r = (case snd r of Returned \<Rightarrow> (fst r, e) | _ \<Rightarrow> r)"

record 'v fmt_lib =
  Sprint :: "'v list \<Rightarrow> string"
  Sprintf :: "string \<Rightarrow> 'v list \<Rightarrow> string"

definition DL_Debug :: "'v fmt_lib \<Rightarrow> stamp \<Rightarrow> 'v list \<Rightarrow> DefaultLogger \<Rightarrow> DefaultLogger \<times> log_end" where
  "DL_Debug lib stamp v l = call_out stamp LvDebug (log_header ''DEBUG'' (Sprint lib v)) l"

definition DL_Debugf :: "'v fmt_lib \<Rightarrow> stamp \<Rightarrow> string \<Rightarrow> 'v list \<Rightarrow> DefaultLogger \<Rightarrow> DefaultLogger \<times> log_end" where
  "DL_Debugf lib stamp fmt v l = call_out stamp LvDebug (log_header ''DEBUG'' (Sprintf lib fmt v)) l"

definition DL_Info :: "'v fmt_lib \<Rightarrow> stamp \<Rightarrow> 'v list \<Rightarrow> DefaultLogger \<Rightarrow> DefaultLogger \<times> log_end" where
  "DL_Info lib stamp v l = call_out stamp LvInfo (log_header ''INFO'' (Sprint lib v)) l"

definition DL_Infof :: "'v fmt_lib \<Rightarrow> stamp \<Rightarrow> string \<Rightarrow> 'v list \<Rightarrow> DefaultLogger \<Rightarrow> DefaultLogger \<times> log_end" where
  "DL_Infof lib stamp fmt v l = call_out stamp LvInfo (log_header ''INFO'' (Sprintf lib fmt v)) l"

definition DL_Warn :: "'v fmt_lib \<Rightarrow> stamp \<Rightarrow> 'v list \<Rightarrow> DefaultLogger \<Rightarrow> DefaultLogger \<times> log_end" where
  "DL_Warn lib stamp v l = call_out stamp LvWarn (log_header ''WARN'' (Sprint lib v)) l"

definition DL_Warnf :: "'v fmt_lib \<Rightarrow> stamp \<Rightarrow> string \<Rightarrow> 'v list \<Rightarrow> DefaultLogger \<Rightarrow> DefaultLogger \<times> log_end" where
  "DL_Warnf lib stamp fmt v l = call_out stamp LvWarn (log_header ''WARN'' (Sprintf lib fmt v)) l"

definition DL_Error :: "'v fmt_lib \<Rightarrow> stamp \<Rightarrow> 'v list \<Rightarrow> DefaultLogger \<Rightarrow> DefaultLogger \<times> log_end" where
  "DL_Error lib stamp v l = call_out stamp LvError (log_header ''ERROR'' (Sprint lib v)) l"

definition DL_Errorf :: "'v fmt_lib \<Rightarrow> stamp \<Rightarrow> string \<Rightarrow> 'v list \<Rightarrow> DefaultLogger \<Rightarrow> DefaultLogger \<times> log_end" where
  "DL_Errorf lib stamp fmt v l = call_out stamp LvError (log_header ''ERROR'' (Sprintf lib fmt v)) l"

definition DL_Fatal :: "'v fmt_lib \<Rightarrow> stamp \<Rightarrow> 'v list \<Rightarrow> DefaultLogger \<Rightarrow> DefaultLogger \<times> log_end" where
  "DL_Fatal lib stamp v l = then_end (Exited 1) (call_out stamp LvFatal (log_header ''FATAL'' (Sprint lib v)) l)"

definition DL_Fatalf :: "'v fmt_lib \<Rightarrow> stamp \<Rightarrow> string \<Rightarrow> 'v list \<Rightarrow> DefaultLogger \<Rightarrow> DefaultLogger \<times> log_end" where
  "DL_Fatalf lib stamp fmt v l =
     then_end (Exited 1) (call_out stamp LvFatal (log_header ''FATAL'' (Sprintf lib fmt v)) l)"

definition DL_Panic :: "'v fmt_lib \<Rightarrow> stamp \<Rightarrow> 'v list \<Rightarrow> DefaultLogger \<Rightarrow> DefaultLogger \<times> log_end" where
  "DL_Panic lib stamp v l =
     then_end (Panicked (Sprint lib v)) (call_out stamp LvPanic (log_header ''PANIC'' (Sprint lib v)) l)"

definition DL_Panicf :: "'v fmt_lib \<Rightarrow> stamp \<Rightarrow> string \<Rightarrow> 'v list \<Rightarrow> DefaultLogger \<Rightarrow> DefaultLogger \<times> log_end" where
  "DL_Panicf lib stamp fmt v l =
     then_end (Panicked (Sprintf lib fmt v)) (call_out stamp LvPanic (log_header ''PANIC'' (Sprintf lib fmt v)) l)"


lemmas logger_methods =
  DL_Debug_def DL_Debugf_def DL_Info_def DL_Infof_def DL_Warn_def DL_Warnf_def
  DL_Error_def DL_Errorf_def DL_Fatal_def DL_Fatalf_def DL_Panic_def DL_Panicf_def

section \<open>The interface and the package functions\<close>

text \<open>
  A call through the interface \<^verbatim>\<open>Logger\<close>: the level names the method, a format makes it the variant
  with an \<^verbatim>\<open>f\<close>.
\<close>

datatype 'v log_call = Log Level "'v list" | Logf Level string "'v list"

fun call_logger :: "'v fmt_lib \<Rightarrow> stamp \<Rightarrow> 'v log_call \<Rightarrow> DefaultLogger \<Rightarrow> DefaultLogger \<times> log_end" where
  "call_logger lib stamp (Log LvDebug v) = DL_Debug lib stamp v"
| "call_logger lib stamp (Logf LvDebug fmt v) = DL_Debugf lib stamp fmt v"
| "call_logger lib stamp (Log LvInfo v) = DL_Info lib stamp v"
| "call_logger lib stamp (Logf LvInfo fmt v) = DL_Infof lib stamp fmt v"
| "call_logger lib stamp (Log LvWarn v) = DL_Warn lib stamp v"
| "call_logger lib stamp (Logf LvWarn fmt v) = DL_Warnf lib stamp fmt v"
| "call_logger lib stamp (Log LvError v) = DL_Error lib stamp v"
| "call_logger lib stamp (Logf LvError fmt v) = DL_Errorf lib stamp fmt v"
| "call_logger lib stamp (Log LvFatal v) = DL_Fatal lib stamp v"
| "call_logger lib stamp (Logf LvFatal fmt v) = DL_Fatalf lib stamp fmt v"
| "call_logger lib stamp (Log LvPanic v) = DL_Panic lib stamp v"
| "call_logger lib stamp (Logf LvPanic fmt v) = DL_Panicf lib stamp fmt v"

definition package_logger :: "(string \<Rightarrow> string) \<Rightarrow> string \<Rightarrow> DefaultLogger" where
  \<comment> \<open>the variable \<^verbatim>\<open>l\<close> of the package: errors and worse, with date, time and short file name\<close>
  "package_logger quote env = NewDefaultLogger quote env [] (3 + 16) (int (level_index LvError))"

definition package_call :: "'v fmt_lib \<Rightarrow> stamp \<Rightarrow> 'v log_call \<Rightarrow> DefaultLogger \<Rightarrow> DefaultLogger \<times> log_end" where
  \<comment> \<open>the functions \<^verbatim>\<open>log.Debug\<close> to \<^verbatim>\<open>log.Panicf\<close>, each of which passes its arguments to \<^verbatim>\<open>l\<close>\<close>
  "package_call lib stamp c l = call_logger lib stamp c l"

text \<open>A sequence of calls stops at the first one that does not return.\<close>

fun run_logs :: "('c \<Rightarrow> 'l \<Rightarrow> 'l \<times> log_end) \<Rightarrow> 'c list \<Rightarrow> 'l \<Rightarrow> 'l \<times> log_end" where
  "run_logs call [] l = (l, Returned)"
| "run_logs call (c # cs) l =
     (case call c l of (l', Returned) \<Rightarrow> run_logs call cs l' | r \<Rightarrow> r)"

text \<open>The promise: each call adds its own lines and ends in its own way.\<close>

fun run_spec :: "('c \<Rightarrow> string list) \<Rightarrow> ('c \<Rightarrow> log_end) \<Rightarrow> 'c list \<Rightarrow> string list \<times> log_end" where
  "run_spec wanted ending [] = ([], Returned)"
| "run_spec wanted ending (c # cs) =
     (if ending c = Returned
      then (wanted c @ fst (run_spec wanted ending cs), snd (run_spec wanted ending cs))
      else (wanted c, ending c))"

locale logger =
  fixes log_one :: "'c \<Rightarrow> 'l \<Rightarrow> 'l \<times> log_end"
    and log_lines :: "'l \<Rightarrow> string list"
    and log_inv :: "'l \<Rightarrow> bool"
    and wanted :: "'c \<Rightarrow> string list"
    and ending :: "'c \<Rightarrow> log_end"
  assumes log_one_lines: "log_inv l \<Longrightarrow> log_lines (fst (log_one c l)) = log_lines l @ wanted c"
    and log_one_end: "log_inv l \<Longrightarrow> snd (log_one c l) = ending c"
    and log_one_inv: "log_inv l \<Longrightarrow> log_inv (fst (log_one c l))"
begin

lemma run_logs_spec:
  "log_inv l \<Longrightarrow>
     log_lines (fst (run_logs log_one cs l)) = log_lines l @ fst (run_spec wanted ending cs) \<and>
     snd (run_logs log_one cs l) = snd (run_spec wanted ending cs)"
proof (induction cs arbitrary: l)
  case Nil
  then show ?case by simp
next
  case (Cons c cs)
  obtain l' e where one: "log_one c l = (l', e)" by (cases "log_one c l")
  have "log_lines l' = log_lines l @ wanted c" "e = ending c" "log_inv l'"
    using log_one_lines [OF Cons.prems, of c] log_one_end [OF Cons.prems, of c]
      log_one_inv [OF Cons.prems, of c] one by simp_all
  then show ?case using Cons.IH [of l'] one by (cases "ending c") simp_all
qed

lemma run_logs_prefix: "log_inv l \<Longrightarrow> prefix (log_lines l) (log_lines (fst (run_logs log_one cs l)))"
  by (simp add: run_logs_spec)

end

section \<open>The table of output functions\<close>

definition enabled :: "int \<Rightarrow> Level \<Rightarrow> bool" where
  \<comment> \<open>which levels a configured level lets through: panics and fatal errors always\<close>
  "enabled level lv \<longleftrightarrow> lv \<le> LvFatal \<or> int (level_index lv) \<le> level"

definition logger_at :: "string \<Rightarrow> int \<Rightarrow> int \<Rightarrow> DefaultLogger \<Rightarrow> bool" where
  "logger_at pfx flag level l \<longleftrightarrow>
     lg_prefix (dl_logger l) = pfx \<and> lg_flag (dl_logger l) = flag \<and> length (dl_out l) = LvMax \<and>
     (\<forall>lv. dl_out l ! level_index lv = Some (if enabled level lv then LoggerOutput else DropOutput))"

lemma fill_out_eq:
  "fill_out level [a, b, c, d, e, f] =
     [a, b] @ map (\<lambda>i. Some (if int i \<le> level then LoggerOutput else DropOutput)) [2, 3, 4, 5]"
  by (simp add: fill_out_def LvMax_def upt_rec)

lemma new_logger_at: "logger_at pfx flag (configured_level quote env lv) (NewDefaultLogger quote env pfx flag lv)"
proof -
  have "dl_out (NewDefaultLogger quote env pfx flag lv) =
      [Some LoggerOutput, Some LoggerOutput] @
      map (\<lambda>i. Some (if int i \<le> configured_level quote env lv then LoggerOutput else DropOutput)) [2, 3, 4, 5]"
    by (simp add: NewDefaultLogger_def Let_def LvMax_def fill_out_eq numeral_eq_Suc)
  then have "dl_out (NewDefaultLogger quote env pfx flag lv) ! level_index lvl =
      Some (if enabled (configured_level quote env lv) lvl then LoggerOutput else DropOutput)" for lvl
    by (cases lvl) (simp_all add: enabled_def less_eq_Level_def)
  moreover have "length (dl_out (NewDefaultLogger quote env pfx flag lv)) = LvMax"
    by (simp add: NewDefaultLogger_def Let_def LvMax_def fill_out_eq numeral_eq_Suc)
  ultimately show ?thesis by (simp add: logger_at_def NewDefaultLogger_def Let_def)
qed

section \<open>What the logger promises\<close>

fun level_name :: "Level \<Rightarrow> string" where
  "level_name LvPanic = ''PANIC''"
| "level_name LvFatal = ''FATAL''"
| "level_name LvError = ''ERROR''"
| "level_name LvWarn = ''WARN''"
| "level_name LvInfo = ''INFO''"
| "level_name LvDebug = ''DEBUG''"

fun call_level :: "'v log_call \<Rightarrow> Level" where
  "call_level (Log lv v) = lv"
| "call_level (Logf lv fmt v) = lv"

fun call_text :: "'v fmt_lib \<Rightarrow> 'v log_call \<Rightarrow> string" where
  "call_text lib (Log lv v) = Sprint lib v"
| "call_text lib (Logf lv fmt v) = Sprintf lib fmt v"

definition wanted_lines :: "'v fmt_lib \<Rightarrow> stamp \<Rightarrow> string \<Rightarrow> int \<Rightarrow> int \<Rightarrow> 'v log_call \<Rightarrow> string list" where
  "wanted_lines lib stamp pfx flag level c =
     (if enabled level (call_level c)
      then [stamp pfx flag 3 @ end_line (level_name (call_level c) @ '': '' @ call_text lib c)] else [])"

definition call_end :: "'v fmt_lib \<Rightarrow> 'v log_call \<Rightarrow> log_end" where
  "call_end lib c =
     (case call_level c of
        LvFatal \<Rightarrow> Exited 1 | LvPanic \<Rightarrow> Panicked (call_text lib c) | _ \<Rightarrow> Returned)"

lemma call_out_at:
  "logger_at pfx flag level l \<Longrightarrow>
     call_out stamp lv s l =
       (l\<lparr>dl_logger := run_output (if enabled level lv then LoggerOutput else DropOutput) stamp 3 s (dl_logger l)\<rparr>,
        Returned)"
  by (simp add: call_out_def logger_at_def calldepth_def)

lemma logger_at_run_output [simp]:
  "logger_at pfx flag level (l\<lparr>dl_logger := run_output f stamp k s (dl_logger l)\<rparr>) = logger_at pfx flag level l"
  by (cases f) (simp_all add: logger_at_def Output_def)

lemma package_call_at:
  assumes "logger_at pfx flag level l"
  shows "package_call lib stamp c l =
    (l\<lparr>dl_logger :=
         run_output (if enabled level (call_level c) then LoggerOutput else DropOutput) stamp 3
           (level_name (call_level c) @ '': '' @ call_text lib c) (dl_logger l)\<rparr>,
     call_end lib c)"
proof (cases c)
  case (Log lv v)
  then show ?thesis
    by (cases lv) (simp_all add: package_call_def logger_methods call_out_at [OF assms] then_end_def call_end_def log_header_def)
next
  case (Logf lv fmt v)
  then show ?thesis
    by (cases lv) (simp_all add: package_call_def logger_methods call_out_at [OF assms] then_end_def call_end_def log_header_def)
qed

interpretation dl: logger
  "package_call lib stamp" "\<lambda>l. lg_written (dl_logger l)" "logger_at pfx flag level"
  "wanted_lines lib stamp pfx flag level" "call_end lib"
  for lib :: "'v fmt_lib" and stamp pfx flag level
proof
  fix l :: DefaultLogger and c :: "'v log_call"
  assume at: "logger_at pfx flag level l"
  show "lg_written (dl_logger (fst (package_call lib stamp c l))) =
      lg_written (dl_logger l) @ wanted_lines lib stamp pfx flag level c"
    using at by (simp add: package_call_at [OF at] wanted_lines_def Output_def logger_at_def)
  show "snd (package_call lib stamp c l) = call_end lib c"
    by (simp add: package_call_at [OF at])
  show "logger_at pfx flag level (fst (package_call lib stamp c l))"
    using at by (simp add: package_call_at [OF at])
qed

text \<open>
  C25: The logger shows exactly the messages it was configured for. After any sequence of calls on a
  new logger, the lines written are those of the calls whose level is a panic, a fatal error or at
  most the configured level (the argument, or the number in the environment variable), in order, each
  with its level's name, up to and including the first fatal error or panic; that call ends the
  sequence with exit status 1 or with a panic carrying its text, whatever the level, and no call ever
  meets a nil entry of the table.
\<close>

theorem logger_shows_enabled_levels:
  "(let r = run_logs (package_call lib stamp) cs (NewDefaultLogger quote env pfx flag lv)
    in (lg_written (dl_logger (fst r)), snd r)) =
   run_spec (wanted_lines lib stamp pfx flag (configured_level quote env lv)) (call_end lib) cs"
  using dl.run_logs_spec [OF new_logger_at, where lib = lib and stamp = stamp and cs = cs]
  by (simp add: Let_def prod_eq_iff) (simp add: NewDefaultLogger_def Let_def)

text \<open>The logger of the package, with nothing in the environment, writes errors and drops warnings.\<close>

lemma package_logger_default:
  "enabled (configured_level quote [] (int (level_index LvError))) lv \<longleftrightarrow> lv \<le> LvError"
  by (cases lv) (simp_all add: configured_level_def enabled_def less_eq_Level_def)

lemma package_logger_at: "logger_at [] 19 (configured_level quote env 2) (package_logger quote env)"
  using new_logger_at [of "[]" 19 quote env 2] by (simp add: package_logger_def)

text \<open>
  A value of the environment that is not a number, or is out of range, leaves the argument's level.
\<close>

lemma configured_level_unreadable:
  "snd (Atoi quote env) \<noteq> None \<Longrightarrow> configured_level quote env lv = lv"
  by (auto simp: configured_level_def split: prod.split option.split)

end
