(* ===== verification/Generator.thy ===== *)
theory Generator
  imports Prelude "HOL-Library.Sublist"
begin

text \<open>
  The generator of client stubs, \<^verbatim>\<open>gen/main.go\<close>: a \<^verbatim>\<open>protoc\<close> plugin that prints, for every service of a
  \<^verbatim>\<open>.proto\<close> file, a Go interface and a client over \<^verbatim>\<open>XClient\<close>. The library \<^verbatim>\<open>protogen\<close> is a parameter: it
  describes the files, makes and prints a generated file, qualifies identifiers, and reads the option of
  a method. What is documented of it are the laws \<open>protogen_documented\<close>; the text is that before
  formatting. The templates are those of the code, filled in by \<^verbatim>\<open>fmt.Sprintf\<close>.
\<close>

section \<open>The first letter\<close>

text \<open>
  \<^verbatim>\<open>string(s[0])\<close> takes the first byte as a code point, so the result is one of the first 256 runes,
  which \<^verbatim>\<open>ToUpper\<close> maps below U+0400 and UTF-8 encodes in at most two bytes.
\<close>

definition rune_upper :: "nat \<Rightarrow> nat" where
  "rune_upper r =
     (if 97 \<le> r \<and> r \<le> 122 \<or> 0xE0 \<le> r \<and> r \<le> 0xF6 \<or> 0xF8 \<le> r \<and> r \<le> 0xFE then r - 32
      else if r = 0xB5 then 0x39C else if r = 0xFF then 0x178 else r)"

definition utf8 :: "nat \<Rightarrow> string" where
  \<comment> \<open>the encoding of a rune below U+0800\<close>
  "utf8 r = (if r < 0x80 then [char_of r] else [char_of (0xC0 + r div 64), char_of (0x80 + r mod 64)])"

definition upperFirstLatter :: "string \<Rightarrow> string" where
  "upperFirstLatter s =
     (case s of
        [] \<Rightarrow> []
      | [c] \<Rightarrow> utf8 (rune_upper (of_char c))
      | c # cs \<Rightarrow> utf8 (rune_upper (of_char c)) @ cs)"

lemma upperFirst_Cons: "upperFirstLatter (c # cs) = utf8 (rune_upper (of_char c)) @ cs"
  by (cases cs) (simp_all add: upperFirstLatter_def)

lemma upperFirst_upper: "(of_char c :: nat) < 0x61 \<Longrightarrow> upperFirstLatter (c # cs) = c # cs"
  by (simp add: upperFirst_Cons rune_upper_def utf8_def)

section \<open>What the plugin is given\<close>

record GoIdent =
  gi_GoName :: string
  gi_GoImportPath :: string

record 'o proto_method =
  pm_GoName :: string
  pm_Input :: GoIdent
  pm_Output :: GoIdent
  pm_Options :: 'o

record 'o proto_service =
  ps_GoName :: string
  ps_Methods :: "'o proto_method list"

record 'o proto_file =
  pf_Generate :: bool
  pf_GeneratedFilenamePrefix :: string
  pf_GoImportPath :: string
  pf_GoPackageName :: string
  pf_Services :: "'o proto_service list"

text \<open>
  The library: \<open>NewGeneratedFile\<close> makes a file of a name and an import path, \<open>gen_P\<close> is \<^verbatim>\<open>g.P\<close>,
  \<open>QualifiedGoIdent\<close> names an identifier inside a file and notes its import, \<open>Ident\<close> makes the identifier of
  an import path and a name, and \<open>GetExtension\<close> is the method option \<^verbatim>\<open>method_option_id\<close> of a descriptor's options, \<^const>\<open>None\<close> when the value is not a
  \<^verbatim>\<open>uint32\<close>, which the type assertion answers with a panic.
\<close>

datatype p_arg = AString string | AIdent GoIdent | AUint32 u32

record ('o, 'g) protogen =
  NewGeneratedFile :: "string \<Rightarrow> string \<Rightarrow> 'g"
  gen_P :: "p_arg list \<Rightarrow> 'g \<Rightarrow> 'g"
  QualifiedGoIdent :: "GoIdent \<Rightarrow> 'g \<Rightarrow> string \<times> 'g"
  Ident :: "string \<Rightarrow> string \<Rightarrow> GoIdent"
  GetExtension :: "'o \<Rightarrow> u32 option"

text \<open>The plugin's state: the files made so far and the set of supported features.\<close>

record ('o, 'g) gen_plugin =
  pl_Files :: "'o proto_file list"
  pl_SupportedFeatures :: u64
  pl_genFiles :: "'g list"

section \<open>Templates\<close>

text \<open>
  \<^verbatim>\<open>fmt.Sprintf\<close> for strings: the verbs \<^verbatim>\<open>%s\<close>, which takes the next argument, and \<^verbatim>\<open>%[n]s\<close>, which takes the
  \<open>n\<close>th and goes on after it. \<open>k\<close> arguments have been passed so far. No template has another verb.
\<close>

definition sprintf_arg :: "string list \<Rightarrow> nat \<Rightarrow> string" where
  "sprintf_arg args k = (if k < length args then args ! k else ''%!s(MISSING)'')"

function sprintf_from :: "nat \<Rightarrow> string list \<Rightarrow> string \<Rightarrow> string" where
  "sprintf_from k args [] = []"
| "sprintf_from k args (c # cs) =
     (if c = CHR ''%'' \<and> take 1 cs = ''s'' then sprintf_arg args k @ sprintf_from (k + 1) args (drop 1 cs)
      else if c = CHR ''%'' \<and> take 1 cs = ''['' \<and> take 2 (drop 2 cs) = '']s'' then
        (let n = of_char (hd (drop 1 cs)) - 48
         in sprintf_arg args (n - 1) @ sprintf_from n args (drop 4 cs))
      else c # sprintf_from k args cs)"
  by pat_completeness auto
termination
  by (relation "measure (\<lambda>(k, args, s). length s)") auto

lemma sprintf_steps:
  "c \<noteq> CHR ''%'' \<Longrightarrow> sprintf_from k args (c # cs) = c # sprintf_from k args cs"
  "sprintf_from k args (CHR ''%'' # CHR ''s'' # cs) = sprintf_arg args k @ sprintf_from (k + 1) args cs"
  "sprintf_from k args (CHR ''%'' # CHR ''['' # d # CHR '']'' # CHR ''s'' # cs) =
     sprintf_arg args (of_char d - 48 - 1) @ sprintf_from (of_char d - 48) args cs"
  by (simp_all add: Let_def)

declare sprintf_from.simps(2) [simp del]

definition Sprintf :: "string \<Rightarrow> string list \<Rightarrow> string" where
  "Sprintf fmt args = sprintf_from 0 args fmt"

definition tabs :: "nat \<Rightarrow> string \<Rightarrow> string" where
  "tabs k s = replicate k (CHR 0x09) @ s"

fun unlines :: "string list \<Rightarrow> string" where
  \<comment> \<open>a raw string of several lines\<close>
  "unlines [] = []"
| "unlines [l] = l"
| "unlines (l # m # ls) = l @ CHR 0x0A # unlines (m # ls)"

section \<open>Printing\<close>

definition contextPackage :: string where
  "contextPackage = ''context''"

definition rpcxClientPackage :: string where
  "rpcxClientPackage = ''github.com/hankeyyh/a-simple-rpc/client''"

definition rpcxProtocolPackage :: string where
  "rpcxProtocolPackage = ''github.com/hankeyyh/a-simple-rpc/protocol''"

definition method_template :: string where
  "method_template = ''%[1]s(ctx context.Context, args *%[2]s, reply *%[3]s) (err error)''"

definition generateMethod :: "('o, 'g) protogen \<Rightarrow> 'o proto_method \<Rightarrow> 'g \<Rightarrow> 'g outcome" where
  "generateMethod lib m g =
     (case GetExtension lib (pm_Options m) of
        None \<Rightarrow> Panic
      | Some methodOptionId \<Rightarrow>
          let g = gen_P lib [AUint32 methodOptionId] g;
              methodName = upperFirstLatter (pm_GoName m);
              (inType, g) = QualifiedGoIdent lib (pm_Input m) g;
              (outType, g) = QualifiedGoIdent lib (pm_Output m) g
          in Return (gen_P lib [AString (Sprintf method_template [methodName, inType, outType])] g))"

definition stub_template :: string where
  "stub_template = unlines
     [''func (c *%sClient) %s(ctx context.Context, args *%s)(reply *%s, err error){'',
      tabs 3 ''reply = &%s{}'',
      tabs 3 ''err = c.xclient.Call(ctx,\"%s\",args, reply)'',
      tabs 3 ''return reply, err'',
      tabs 2 ''}'']"

definition generateClientCode :: "('o, 'g) protogen \<Rightarrow> 'o proto_service \<Rightarrow> 'o proto_method \<Rightarrow> 'g \<Rightarrow> 'g" where
  "generateClientCode lib service m g =
     (let methodName = upperFirstLatter (pm_GoName m);
          serviceName = upperFirstLatter (ps_GoName service);
          (inType, g) = QualifiedGoIdent lib (pm_Input m) g;
          (outType, g) = QualifiedGoIdent lib (pm_Output m) g
      in gen_P lib [AString (Sprintf stub_template [serviceName, methodName, inType, outType, outType, pm_GoName m])] g)"

definition close_template :: string where
  "close_template = unlines [''func (c *%sClient) Close() error {'', tabs 2 ''return c.xclient.Close()'', tabs 1 ''}'']"

definition generateClientCloseCode :: "('o, 'g) protogen \<Rightarrow> 'o proto_service \<Rightarrow> 'g \<Rightarrow> 'g" where
  "generateClientCloseCode lib service g =
     (let serviceName = upperFirstLatter (ps_GoName service)
      in gen_P lib [AString (Sprintf close_template [serviceName])] g)"

definition client_template :: string where
  \<comment> \<open>the raw string of \<^verbatim>\<open>genService\<close>\<close>
  "client_template = unlines
     [''// %[1]s is a client wrapped XClient.'',
      tabs 2 ''type %[1]sClient struct{'',
      tabs 3 ''xclient client.XClient'',
      tabs 2 ''}'',
      [],
      tabs 2 ''// new%[1]sClient wraps a XClient as %[1]sClient.'',
      tabs 2 ''// You can pass a shared XClient object created by NewXClientFor%[1]s.'',
      tabs 2 ''func New%[1]sClient(xclient client.XClient) *%[1]sClient {'',
      tabs 3 ''return &%[1]sClient{xclient: xclient}'',
      tabs 2 ''}'',
      [],
      tabs 2 ''// NewXClientFor%[1]s creates a XClient.'',
      tabs 2 ''// You can configure this client with more options such as etcd registry, serialize type, select algorithm and fail mode.'',
      tabs 2 ''func NewXClientFor%[1]s(failMode client.FailMode, selectMode client.SelectMode, d client.ServiceDiscovery, opt client.Option) client.XClient {'',
      tabs 3 ''opt.SerializeType = protocol.ProtoBuffer'',
      [],
      tabs 3 ''xclient := client.NewXClient(\"%[1]s\", failMode, selectMode, d, opt)'',
      [],
      tabs 3 ''return xclient'',
      tabs 2 ''}'',
      tabs 1 []]"

text \<open>A loop whose body may panic.\<close>

fun for_each :: "('a \<Rightarrow> 's \<Rightarrow> 's outcome) \<Rightarrow> 'a list \<Rightarrow> 's \<Rightarrow> 's outcome" where
  "for_each body [] s = Return s"
| "for_each body (x # xs) s = (case body x s of Return s' \<Rightarrow> for_each body xs s' | Panic \<Rightarrow> Panic)"

definition genService :: "('o, 'g) protogen \<Rightarrow> 'o proto_service \<Rightarrow> 'g \<Rightarrow> 'g outcome" where
  "genService lib service g =
     (let serviceName = upperFirstLatter (ps_GoName service);
          g = gen_P lib [AString ''//================== interface skeleton ===================''] g;
          g = gen_P lib [AString (Sprintf ''type %s interface {'' [serviceName])] g;
          g = gen_P lib [] g
      in case for_each (generateMethod lib) (ps_Methods service) g of
           Panic \<Rightarrow> Panic
         | Return g \<Rightarrow>
             let g = gen_P lib [AString ''}''] g;
                 g = gen_P lib [] g;
                 g = gen_P lib [AString ''//================== client stub ===================''] g;
                 g = gen_P lib [AString (Sprintf client_template [serviceName])] g;
                 g = fold (generateClientCode lib service) (ps_Methods service) g
             in Return (generateClientCloseCode lib service g))"

definition generateFileContent :: "('o, 'g) protogen \<Rightarrow> 'o proto_file \<Rightarrow> 'g \<Rightarrow> 'g outcome" where
  "generateFileContent lib file g =
     (if length (pf_Services file) = 0 then Return g
      else
        let g = gen_P lib [AString ''// Reference imports to suppress errors if they are not otherwise used.''] g;
            g = gen_P lib [AString ''var _ = '', AIdent (Ident lib contextPackage ''TODO'')] g;
            g = gen_P lib [AString ''var _ = '', AIdent (Ident lib rpcxClientPackage ''NewClient'')] g;
            g = gen_P lib [AString ''var _ = '', AIdent (Ident lib rpcxProtocolPackage ''NewMessage'')] g;
            g = gen_P lib [] g
        in for_each (genService lib) (pf_Services file) g)"

text \<open>
  \<^verbatim>\<open>NewGeneratedFile\<close> adds the empty file to the plugin and \<^verbatim>\<open>g\<close> is a pointer to it; the file is written
  only here, so it is added with its text.
\<close>

definition generateFile :: "('o, 'g) protogen \<Rightarrow> 'o proto_file \<Rightarrow> ('o, 'g) gen_plugin \<Rightarrow> ('o, 'g) gen_plugin outcome" where
  "generateFile lib file gen =
     (let filename = pf_GeneratedFilenamePrefix file @ ''_simplerpc.pb.go'';
          g = NewGeneratedFile lib filename (pf_GoImportPath file);
          g = gen_P lib [AString ''// Code generated by protoc-gen-simple-rpc. DO NOT EDIT.''] g;
          g = gen_P lib [] g;
          g = gen_P lib [AString ''package '', AString (pf_GoPackageName file)] g;
          g = gen_P lib [] g
      in case generateFileContent lib file g of
           Panic \<Rightarrow> Panic
         | Return g \<Rightarrow> Return (gen\<lparr>pl_genFiles := pl_genFiles gen @ [g]\<rparr>))"

definition gen_main :: "('o, 'g) protogen \<Rightarrow> ('o, 'g) gen_plugin \<Rightarrow> ('o, 'g) gen_plugin outcome" where
  \<comment> \<open>the function that \<^verbatim>\<open>main\<close> hands to \<^verbatim>\<open>protogen\<close>; the feature is \<^verbatim>\<open>FEATURE_PROTO3_OPTIONAL\<close>\<close>
  "gen_main lib plugin =
     for_each (\<lambda>f pl. if \<not> pf_Generate f then Return pl else generateFile lib f pl)
       (pl_Files plugin) (plugin\<lparr>pl_SupportedFeatures := 1\<rparr>)"

section \<open>What the library promises\<close>

text \<open>
  A file as a reader sees it, \<open>look g\<close>: its name, its import path and its lines. \<^verbatim>\<open>g.P\<close> prints its arguments
  one after the other as a line, an identifier under its qualified name. The qualified name \<open>qual\<close> depends
  on the file's package and the identifier, as it does unless two imported packages have the same
  name.
\<close>

record GeneratedFile =
  gf_name :: string
  gf_import :: string
  gf_text :: "string list"

fun shown :: "(string \<Rightarrow> GoIdent \<Rightarrow> string) \<Rightarrow> string \<Rightarrow> p_arg \<Rightarrow> string" where
  "shown qual path (AString s) = s"
| "shown qual path (AIdent i) = qual path i"
| "shown qual path (AUint32 n) = dec_of_nat (unat n)"

definition add_text :: "string list \<Rightarrow> GeneratedFile \<Rightarrow> GeneratedFile" where
  "add_text ls g = g\<lparr>gf_text := gf_text g @ ls\<rparr>"

definition protogen_documented ::
    "('o, 'g) protogen \<Rightarrow> ('g \<Rightarrow> GeneratedFile) \<Rightarrow> (string \<Rightarrow> GoIdent \<Rightarrow> string) \<Rightarrow> bool" where
  "protogen_documented lib look qual \<longleftrightarrow>
     (\<forall>n path. look (NewGeneratedFile lib n path) = \<lparr>gf_name = n, gf_import = path, gf_text = []\<rparr>) \<and>
     (\<forall>args g. look (gen_P lib args g) = add_text [concat (map (shown qual (gf_import (look g))) args)] (look g)) \<and>
     (\<forall>path n. Ident lib path n = \<lparr>gi_GoName = n, gi_GoImportPath = path\<rparr>) \<and>
     (\<forall>i g. fst (QualifiedGoIdent lib i g) = qual (gf_import (look g)) i \<and> look (snd (QualifiedGoIdent lib i g)) = look g)"

lemma add_text_add_text [simp]: "add_text ms (add_text ls g) = add_text (ls @ ms) g"
  by (simp add: add_text_def)

lemma add_text_Nil [simp]: "add_text [] g = g"
  by (simp add: add_text_def)

lemma add_text_sel [simp]:
  "gf_import (add_text ls g) = gf_import g" "gf_name (add_text ls g) = gf_name g"
  "gf_text (add_text ls g) = gf_text g @ ls"
  by (simp_all add: add_text_def)

section \<open>What a file should hold\<close>

text \<open>The text of a generated file, written out; \<open>qual\<close> names the types.\<close>

definition method_readable :: "('o, 'g) protogen \<Rightarrow> 'o proto_method \<Rightarrow> bool" where
  "method_readable lib m \<longleftrightarrow> GetExtension lib (pm_Options m) \<noteq> None"

definition interface_lines ::
    "('o, 'g) protogen \<Rightarrow> (string \<Rightarrow> GoIdent \<Rightarrow> string) \<Rightarrow> string \<Rightarrow> 'o proto_method \<Rightarrow> string list" where
  "interface_lines lib qual path m =
     [dec_of_nat (unat (the (GetExtension lib (pm_Options m)))),
      upperFirstLatter (pm_GoName m) @ ''(ctx context.Context, args *'' @ qual path (pm_Input m) @
        '', reply *'' @ qual path (pm_Output m) @ '') (err error)'']"

definition NL :: string where "NL = [CHR 0x0A]"
definition TAB :: string where "TAB = [CHR 0x09]"

definition stub_text ::
    "(string \<Rightarrow> GoIdent \<Rightarrow> string) \<Rightarrow> string \<Rightarrow> 'o proto_service \<Rightarrow> 'o proto_method \<Rightarrow> string" where
  "stub_text qual path service m =
     ''func (c *'' @ upperFirstLatter (ps_GoName service) @ ''Client) '' @ upperFirstLatter (pm_GoName m) @
     ''(ctx context.Context, args *'' @ qual path (pm_Input m) @ '')(reply *'' @ qual path (pm_Output m) @ '', err error){'' @ NL @
     TAB @ TAB @ TAB @ ''reply = &'' @ qual path (pm_Output m) @ ''{}'' @ NL @
     TAB @ TAB @ TAB @ ''err = c.xclient.Call(ctx,\"'' @ pm_GoName m @ ''\",args, reply)'' @ NL @
     TAB @ TAB @ TAB @ ''return reply, err'' @ NL @
     TAB @ TAB @ ''}''"

definition close_text :: "'o proto_service \<Rightarrow> string" where
  "close_text service =
     ''func (c *'' @ upperFirstLatter (ps_GoName service) @ ''Client) Close() error {'' @ NL @
     TAB @ TAB @ ''return c.xclient.Close()'' @ NL @ TAB @ ''}''"

definition client_text :: "string \<Rightarrow> string" where
  \<comment> \<open>the type of the client and its constructors, for a service named \<open>n\<close>\<close>
  "client_text n =
     ''// '' @ n @ '' is a client wrapped XClient.'' @ NL @
     TAB @ TAB @ ''type '' @ n @ ''Client struct{'' @ NL @
     TAB @ TAB @ TAB @ ''xclient client.XClient'' @ NL @
     TAB @ TAB @ ''}'' @ NL @ NL @
     TAB @ TAB @ ''// new'' @ n @ ''Client wraps a XClient as '' @ n @ ''Client.'' @ NL @
     TAB @ TAB @ ''// You can pass a shared XClient object created by NewXClientFor'' @ n @ ''.'' @ NL @
     TAB @ TAB @ ''func New'' @ n @ ''Client(xclient client.XClient) *'' @ n @ ''Client {'' @ NL @
     TAB @ TAB @ TAB @ ''return &'' @ n @ ''Client{xclient: xclient}'' @ NL @
     TAB @ TAB @ ''}'' @ NL @ NL @
     TAB @ TAB @ ''// NewXClientFor'' @ n @ '' creates a XClient.'' @ NL @
     TAB @ TAB @ ''// You can configure this client with more options such as etcd registry, serialize type, select algorithm and fail mode.'' @ NL @
     TAB @ TAB @ ''func NewXClientFor'' @ n @ ''(failMode client.FailMode, selectMode client.SelectMode, d client.ServiceDiscovery, opt client.Option) client.XClient {'' @ NL @
     TAB @ TAB @ TAB @ ''opt.SerializeType = protocol.ProtoBuffer'' @ NL @ NL @
     TAB @ TAB @ TAB @ ''xclient := client.NewXClient(\"'' @ n @ ''\", failMode, selectMode, d, opt)'' @ NL @ NL @
     TAB @ TAB @ TAB @ ''return xclient'' @ NL @
     TAB @ TAB @ ''}'' @ NL @ TAB"

definition service_lines ::
    "('o, 'g) protogen \<Rightarrow> (string \<Rightarrow> GoIdent \<Rightarrow> string) \<Rightarrow> string \<Rightarrow> 'o proto_service \<Rightarrow> string list" where
  "service_lines lib qual path service =
     [''//================== interface skeleton ==================='',
      ''type '' @ upperFirstLatter (ps_GoName service) @ '' interface {'', ''''] @
     concat (map (interface_lines lib qual path) (ps_Methods service)) @
     [''}'', '''', ''//================== client stub ==================='', client_text (upperFirstLatter (ps_GoName service))] @
     map (stub_text qual path service) (ps_Methods service) @ [close_text service]"

definition reference_lines :: "(string \<Rightarrow> GoIdent \<Rightarrow> string) \<Rightarrow> string \<Rightarrow> string list" where
  "reference_lines qual path =
     [''// Reference imports to suppress errors if they are not otherwise used.'',
      ''var _ = '' @ qual path \<lparr>gi_GoName = ''TODO'', gi_GoImportPath = ''context''\<rparr>,
      ''var _ = '' @ qual path \<lparr>gi_GoName = ''NewClient'', gi_GoImportPath = ''github.com/hankeyyh/a-simple-rpc/client''\<rparr>,
      ''var _ = '' @ qual path \<lparr>gi_GoName = ''NewMessage'', gi_GoImportPath = ''github.com/hankeyyh/a-simple-rpc/protocol''\<rparr>,
      '''']"

definition file_spec :: "('o, 'g) protogen \<Rightarrow> (string \<Rightarrow> GoIdent \<Rightarrow> string) \<Rightarrow> 'o proto_file \<Rightarrow> GeneratedFile" where
  "file_spec lib qual f =
     \<lparr>gf_name = pf_GeneratedFilenamePrefix f @ ''_simplerpc.pb.go'', gf_import = pf_GoImportPath f,
      gf_text =
        [''// Code generated by protoc-gen-simple-rpc. DO NOT EDIT.'', '''',
         ''package '' @ pf_GoPackageName f, ''''] @
        (if pf_Services f = [] then []
         else reference_lines qual (pf_GoImportPath f) @
           concat (map (service_lines lib qual (pf_GoImportPath f)) (pf_Services f)))\<rparr>"

definition service_readable :: "('o, 'g) protogen \<Rightarrow> 'o proto_service \<Rightarrow> bool" where
  "service_readable lib s \<longleftrightarrow> list_all (method_readable lib) (ps_Methods s)"

definition file_readable :: "('o, 'g) protogen \<Rightarrow> 'o proto_file \<Rightarrow> bool" where
  "file_readable lib f \<longleftrightarrow> list_all (service_readable lib) (pf_Services f)"

section \<open>The templates filled in\<close>

lemma Sprintf_method:
  "Sprintf method_template [n, i, u] = n @ ''(ctx context.Context, args *'' @ i @ '', reply *'' @ u @ '') (err error)''"
  by (simp add: sprintf_steps Sprintf_def method_template_def sprintf_arg_def)

lemma Sprintf_interface: "Sprintf ''type %s interface {'' [n] = ''type '' @ n @ '' interface {''"
  by (simp add: sprintf_steps Sprintf_def sprintf_arg_def)

lemma Sprintf_stub:
  "Sprintf stub_template [upperFirstLatter (ps_GoName service), upperFirstLatter (pm_GoName m), qual path (pm_Input m),
     qual path (pm_Output m), qual path (pm_Output m), pm_GoName m] = stub_text qual path service m"
  by (simp add: sprintf_steps Sprintf_def stub_template_def tabs_def numeral_eq_Suc sprintf_arg_def stub_text_def NL_def TAB_def)

lemma Sprintf_close: "Sprintf close_template [upperFirstLatter (ps_GoName service)] = close_text service"
  by (simp add: sprintf_steps Sprintf_def close_template_def tabs_def numeral_eq_Suc sprintf_arg_def close_text_def NL_def TAB_def)

lemma Sprintf_client: "Sprintf client_template [n] = client_text n"
  by (simp add: sprintf_steps Sprintf_def client_template_def tabs_def numeral_eq_Suc sprintf_arg_def client_text_def NL_def TAB_def)

section \<open>The generator writes it\<close>

text \<open>
  What a printing function does, seen through \<open>look\<close>: if \<open>ok\<close>, it adds the lines \<open>F\<close> yields for the import
  path of the file, otherwise it panics.
\<close>

definition writes :: "('g \<Rightarrow> GeneratedFile) \<Rightarrow> bool \<Rightarrow> (string \<Rightarrow> string list) \<Rightarrow> 'g \<Rightarrow> 'g outcome \<Rightarrow> bool" where
  "writes look ok F g r \<longleftrightarrow>
     (if ok then \<exists>g'. r = Return g' \<and> look g' = add_text (F (gf_import (look g))) (look g) else r = Panic)"

lemma writes_for_each:
  assumes "\<And>x g. x \<in> set xs \<Longrightarrow> writes look (ok x) (F x) g (body x g)"
  shows "writes look (list_all ok xs) (\<lambda>path. concat (map (\<lambda>x. F x path) xs)) g (for_each body xs g)"
  using assms
proof (induction xs arbitrary: g)
  case Nil
  then show ?case by (simp add: writes_def)
next
  case (Cons x xs)
  have first: "writes look (ok x) (F x) g (body x g)" using Cons.prems by simp
  show ?case
  proof (cases "ok x")
    case False
    then show ?thesis using first by (simp add: writes_def)
  next
    case True
    then obtain g' where g': "body x g = Return g'" "look g' = add_text (F x (gf_import (look g))) (look g)"
      using first by (auto simp: writes_def)
    have "writes look (list_all ok xs) (\<lambda>path. concat (map (\<lambda>x. F x path) xs)) g' (for_each body xs g')"
      using Cons.IH Cons.prems by simp
    then show ?thesis using True g' by (auto simp: writes_def split: if_splits)
  qed
qed

lemma fold_writes:
  assumes "\<And>x g. look (body x g) = add_text [F x (gf_import (look g))] (look g)"
  shows "look (fold body xs g) = add_text (map (\<lambda>x. F x (gf_import (look g))) xs) (look g)"
  by (induction xs arbitrary: g) (simp_all add: assms)

lemma looked:
  assumes "protogen_documented lib look qual"
  shows "look (NewGeneratedFile lib n path) = \<lparr>gf_name = n, gf_import = path, gf_text = []\<rparr>"
    and "look (gen_P lib args g) = add_text [concat (map (shown qual (gf_import (look g))) args)] (look g)"
    and "fst (QualifiedGoIdent lib i g) = qual (gf_import (look g)) i" "look (snd (QualifiedGoIdent lib i g)) = look g"
    and "Ident lib path n = \<lparr>gi_GoName = n, gi_GoImportPath = path\<rparr>"
  using assms unfolding protogen_documented_def by blast+

lemma generateMethod_writes:
  assumes "protogen_documented lib look qual"
  shows "writes look (method_readable lib m) (\<lambda>path. interface_lines lib qual path m) g (generateMethod lib m g)"
  by (cases "GetExtension lib (pm_Options m)")
    (simp_all add: writes_def method_readable_def interface_lines_def generateMethod_def Let_def case_prod_beta
      looked [OF assms] Sprintf_method)

lemma generateClientCode_writes:
  assumes "protogen_documented lib look qual"
  shows "look (generateClientCode lib service m g) = add_text [stub_text qual (gf_import (look g)) service m] (look g)"
  by (simp add: generateClientCode_def Let_def case_prod_beta looked [OF assms] Sprintf_stub)

lemma generateClientCloseCode_writes:
  assumes "protogen_documented lib look qual"
  shows "look (generateClientCloseCode lib service g) = add_text [close_text service] (look g)"
  by (simp add: generateClientCloseCode_def looked [OF assms] Sprintf_close)

lemma genService_writes:
  assumes "protogen_documented lib look qual"
  shows "writes look (service_readable lib s) (\<lambda>path. service_lines lib qual path s) g (genService lib s g)"
proof -
  define h where "h = gen_P lib [] (gen_P lib [AString (Sprintf ''type %s interface {'' [upperFirstLatter (ps_GoName s)])]
    (gen_P lib [AString ''//================== interface skeleton ===================''] g))"
  have h: "look h = add_text [''//================== interface skeleton ==================='',
      ''type '' @ upperFirstLatter (ps_GoName s) @ '' interface {'', ''''] (look g)"
    by (simp add: h_def looked [OF assms] Sprintf_interface)
  have each: "writes look (list_all (method_readable lib) (ps_Methods s))
      (\<lambda>path. concat (map (\<lambda>m. interface_lines lib qual path m) (ps_Methods s))) h (for_each (generateMethod lib) (ps_Methods s) h)"
    by (rule writes_for_each) (rule generateMethod_writes [OF assms])
  note stubs = fold_writes [where look = look and body = "generateClientCode lib s" and F = "\<lambda>m path. stub_text qual path s m",
      OF generateClientCode_writes [OF assms]]
  show ?thesis
  proof (cases "for_each (generateMethod lib) (ps_Methods s) h")
    case Panic
    then show ?thesis
      using each by (auto simp: writes_def genService_def Let_def h_def [symmetric] service_readable_def split: if_splits)
  next
    case (Return g')
    then have "list_all (method_readable lib) (ps_Methods s)"
        and "look g' = add_text (concat (map (\<lambda>m. interface_lines lib qual (gf_import (look g)) m) (ps_Methods s))) (look h)"
      using each by (auto simp: writes_def h split: if_splits)
    then show ?thesis
      using Return
      by (simp add: writes_def genService_def Let_def h_def [symmetric] service_readable_def looked [OF assms] stubs
          generateClientCloseCode_writes [OF assms] Sprintf_client h service_lines_def)
  qed
qed

lemma generateFileContent_writes:
  assumes "protogen_documented lib look qual"
  shows "writes look (file_readable lib f) (\<lambda>path. if pf_Services f = [] then [] else reference_lines qual path @
      concat (map (service_lines lib qual path) (pf_Services f))) g (generateFileContent lib f g)"
proof (cases "pf_Services f = []")
  case True
  then show ?thesis by (simp add: writes_def generateFileContent_def file_readable_def)
next
  case False
  define h where "h = gen_P lib [] (gen_P lib [AString ''var _ = '', AIdent (Ident lib rpcxProtocolPackage ''NewMessage'')]
    (gen_P lib [AString ''var _ = '', AIdent (Ident lib rpcxClientPackage ''NewClient'')]
    (gen_P lib [AString ''var _ = '', AIdent (Ident lib contextPackage ''TODO'')]
    (gen_P lib [AString ''// Reference imports to suppress errors if they are not otherwise used.''] g))))"
  have h: "look h = add_text (reference_lines qual (gf_import (look g))) (look g)"
    by (simp add: h_def looked [OF assms] reference_lines_def contextPackage_def rpcxClientPackage_def rpcxProtocolPackage_def)
  have "writes look (list_all (service_readable lib) (pf_Services f))
      (\<lambda>path. concat (map (\<lambda>s. service_lines lib qual path s) (pf_Services f))) h (for_each (genService lib) (pf_Services f) h)"
    by (rule writes_for_each) (rule genService_writes [OF assms])
  then show ?thesis
    using False h by (auto simp: writes_def generateFileContent_def Let_def h_def [symmetric] file_readable_def)
qed

text \<open>The plugin with one more file that looks as it should.\<close>

lemma generateFile_writes:
  assumes "protogen_documented lib look qual"
  shows "if file_readable lib f
    then \<exists>g. generateFile lib f gen = Return (gen\<lparr>pl_genFiles := pl_genFiles gen @ [g]\<rparr>) \<and> look g = file_spec lib qual f
    else generateFile lib f gen = Panic"
proof -
  define h where "h = gen_P lib [] (gen_P lib [AString ''package '', AString (pf_GoPackageName f)] (gen_P lib []
    (gen_P lib [AString ''// Code generated by protoc-gen-simple-rpc. DO NOT EDIT.'']
    (NewGeneratedFile lib (pf_GeneratedFilenamePrefix f @ ''_simplerpc.pb.go'') (pf_GoImportPath f)))))"
  have h: "look h = \<lparr>gf_name = pf_GeneratedFilenamePrefix f @ ''_simplerpc.pb.go'', gf_import = pf_GoImportPath f,
      gf_text = [''// Code generated by protoc-gen-simple-rpc. DO NOT EDIT.'', '''', ''package '' @ pf_GoPackageName f, '''']\<rparr>"
    by (simp add: h_def looked [OF assms] add_text_def)
  have run: "generateFile lib f gen = (case generateFileContent lib f h of
      Panic \<Rightarrow> Panic | Return g \<Rightarrow> Return (gen\<lparr>pl_genFiles := pl_genFiles gen @ [g]\<rparr>))"
    by (simp add: generateFile_def Let_def h_def)
  show ?thesis
    using generateFileContent_writes [OF assms, of f h] h run
    by (auto simp: writes_def file_spec_def add_text_def split: if_splits)
qed

lemma generate_files:
  assumes "protogen_documented lib look qual"
  shows "if list_all (file_readable lib) (filter pf_Generate fs)
    then \<exists>gs. for_each (\<lambda>f pl. if \<not> pf_Generate f then Return pl else generateFile lib f pl) fs pl =
        Return (pl\<lparr>pl_genFiles := pl_genFiles pl @ gs\<rparr>) \<and> map look gs = map (file_spec lib qual) (filter pf_Generate fs)
    else for_each (\<lambda>f pl. if \<not> pf_Generate f then Return pl else generateFile lib f pl) fs pl = Panic"
proof (induction fs arbitrary: pl)
  case Nil
  then show ?case by simp
next
  case (Cons f fs)
  show ?case
  proof (cases "pf_Generate f \<and> file_readable lib f")
    case True
    then obtain g where g: "generateFile lib f pl = Return (pl\<lparr>pl_genFiles := pl_genFiles pl @ [g]\<rparr>)" "look g = file_spec lib qual f"
      using generateFile_writes [OF assms, of f pl] by auto
    show ?thesis
    proof (cases "list_all (file_readable lib) (filter pf_Generate fs)")
      case ok: True
      then obtain gs where "for_each (\<lambda>f pl. if \<not> pf_Generate f then Return pl else generateFile lib f pl) fs
          (pl\<lparr>pl_genFiles := pl_genFiles pl @ [g]\<rparr>) = Return (pl\<lparr>pl_genFiles := pl_genFiles pl @ g # gs\<rparr>)"
          "map look gs = map (file_spec lib qual) (filter pf_Generate fs)"
        using Cons.IH [of "pl\<lparr>pl_genFiles := pl_genFiles pl @ [g]\<rparr>"] by auto
      then show ?thesis using True ok g by (auto intro: exI [of _ "g # gs"])
    qed (use True g Cons.IH [of "pl\<lparr>pl_genFiles := pl_genFiles pl @ [g]\<rparr>"] in simp)
  next
    case False
    then show ?thesis
      using Cons.IH [of pl] generateFile_writes [OF assms, of f pl] by (cases "pf_Generate f") simp_all
  qed
qed

section \<open>A library for the examples\<close>

definition plain_protogen :: "(u32, GeneratedFile) protogen" where
  \<comment> \<open>identifiers of the same package unqualified, the option value as it stands\<close>
  "plain_protogen =
     (let qual = (\<lambda>path i. if gi_GoImportPath i = path then gi_GoName i else gi_GoImportPath i @ CHR ''.'' # gi_GoName i)
      in \<lparr>NewGeneratedFile = (\<lambda>n path. \<lparr>gf_name = n, gf_import = path, gf_text = []\<rparr>),
          gen_P = (\<lambda>args g. add_text [concat (map (shown qual (gf_import g)) args)] g),
          QualifiedGoIdent = (\<lambda>i g. (qual (gf_import g) i, g)),
          Ident = (\<lambda>path n. \<lparr>gi_GoName = n, gi_GoImportPath = path\<rparr>), GetExtension = Some\<rparr>)"

definition plain_qual :: "string \<Rightarrow> GoIdent \<Rightarrow> string" where
  "plain_qual path i = (if gi_GoImportPath i = path then gi_GoName i else gi_GoImportPath i @ CHR ''.'' # gi_GoName i)"

lemma plain_documented: "protogen_documented plain_protogen id plain_qual"
  by (simp add: protogen_documented_def plain_protogen_def plain_qual_def [abs_def])

definition add_method :: "u32 proto_method" where
  "add_method =
     \<lparr>pm_GoName = ''Add'', pm_Input = \<lparr>gi_GoName = ''Args'', gi_GoImportPath = ''pb''\<rparr>,
      pm_Output = \<lparr>gi_GoName = ''Reply'', gi_GoImportPath = ''pb''\<rparr>, pm_Options = 7\<rparr>"

definition add_file :: "u32 proto_file" where
  "add_file =
     \<lparr>pf_Generate = True, pf_GeneratedFilenamePrefix = ''arith'', pf_GoImportPath = ''pb'', pf_GoPackageName = ''pb'',
      pf_Services = [\<lparr>ps_GoName = ''Arith'', ps_Methods = [add_method]\<rparr>]\<rparr>"

section \<open>Properties\<close>

text \<open>
  C32: The generator writes one file for each \<^verbatim>\<open>.proto\<close> file it is asked for, in their order and beside
  the files already there, named after it with the suffix \<^verbatim>\<open>_simplerpc.pb.go\<close>: the package clause and,
  when the file has services, the imports and for each service the interface, the client type with its
  constructors, for each method a stub that takes the method's input type, returns its output type and
  calls the method by its name, and \<^verbatim>\<open>Close\<close>. It panics exactly when a method of such a file has an
  option value that is no \<^verbatim>\<open>uint32\<close>. Every method adds two lines to the interface, the first of which is
  the bare number of its option.
\<close>

theorem generator_writes_services:
  assumes "protogen_documented lib look qual"
  shows "if list_all (file_readable lib) (filter pf_Generate (pl_Files plugin))
    then \<exists>gs. gen_main lib plugin = Return (plugin\<lparr>pl_SupportedFeatures := 1, pl_genFiles := pl_genFiles plugin @ gs\<rparr>) \<and>
      map look gs = map (file_spec lib qual) (filter pf_Generate (pl_Files plugin))
    else gen_main lib plugin = Panic"
  using generate_files [OF assms, of "pl_Files plugin" "plugin\<lparr>pl_SupportedFeatures := 1\<rparr>"]
  by (auto simp: gen_main_def split: if_splits)

theorem generator_writes_services_witness:
  "\<exists>g. gen_main plain_protogen \<lparr>pl_Files = [add_file], pl_SupportedFeatures = 0, pl_genFiles = []\<rparr> =
      Return \<lparr>pl_Files = [add_file], pl_SupportedFeatures = 1, pl_genFiles = [g]\<rparr> \<and>
    gf_name g = ''arith_simplerpc.pb.go'' \<and>
    gf_text g ! 13 = ''Add(ctx context.Context, args *Args, reply *Reply) (err error)'' \<and>
    prefix ''func (c *ArithClient) Add(ctx context.Context, args *Args)(reply *Reply, err error){'' (gf_text g ! 18)"
proof -
  have "list_all (file_readable plain_protogen) (filter pf_Generate [add_file])"
    by (simp add: file_readable_def service_readable_def method_readable_def add_file_def plain_protogen_def Let_def)
  then obtain gs where run: "gen_main plain_protogen \<lparr>pl_Files = [add_file], pl_SupportedFeatures = 0, pl_genFiles = []\<rparr> =
      Return \<lparr>pl_Files = [add_file], pl_SupportedFeatures = 1, pl_genFiles = gs\<rparr>"
      and gs: "gs = map (file_spec plain_protogen plain_qual) (filter pf_Generate [add_file])"
    using generator_writes_services [OF plain_documented, of "\<lparr>pl_Files = [add_file], pl_SupportedFeatures = 0, pl_genFiles = []\<rparr>"]
    by auto
  have "pf_Generate add_file" by (simp add: add_file_def)
  then show ?thesis
    using run unfolding gs
    by (simp add: file_spec_def add_file_def reference_lines_def service_lines_def interface_lines_def stub_text_def add_method_def
        plain_qual_def upperFirst_Cons rune_upper_def utf8_def char_of_def bit_Suc_0_iff NL_def TAB_def)
qed

text \<open>
  A stub calls the method its interface declares. When the name of a method begins with a capital
  letter, as the names do that \<^verbatim>\<open>protogen\<close> derives, the method of the interface, the method of the
  client and the method name passed to \<^verbatim>\<open>XClient.Call\<close> are the same.
\<close>

theorem stub_calls_interface_method:
  assumes "pm_GoName m = c # cs" and "65 \<le> (of_char c :: nat)" and "(of_char c :: nat) \<le> 90"
  shows "prefix (pm_GoName m @ ''('') (interface_lines lib qual path m ! 1) \<and>
     prefix (''func (c *'' @ upperFirstLatter (ps_GoName s) @ ''Client) '' @ pm_GoName m @ ''('') (stub_text qual path s m) \<and>
     sublist (''c.xclient.Call(ctx,\"'' @ pm_GoName m @ ''\",'') (stub_text qual path s m)"
proof -
  have name: "upperFirstLatter (pm_GoName m) = pm_GoName m"
    using assms by (simp add: upperFirst_upper)
  have call: "sublist b (a @ b @ e)" for a b e :: string
    by simp
  show ?thesis
    using call [of "''c.xclient.Call(ctx,\"'' @ pm_GoName m @ ''\",''"
        "''func (c *'' @ upperFirstLatter (ps_GoName s) @ ''Client) '' @ pm_GoName m @
         ''(ctx context.Context, args *'' @ qual path (pm_Input m) @ '')(reply *'' @
         qual path (pm_Output m) @ '', err error){'' @ NL @ TAB @ TAB @ TAB @ ''reply = &'' @
         qual path (pm_Output m) @ ''{}'' @ NL @ TAB @ TAB @ TAB @ ''err = ''"
        "''args, reply)'' @ NL @ TAB @ TAB @ TAB @ ''return reply, err'' @ NL @ TAB @ TAB @ ''}''"]
    by (simp add: interface_lines_def stub_text_def name)
qed

theorem stub_calls_interface_method_witness:
  "prefix ''Add('' (interface_lines plain_protogen plain_qual ''pb'' add_method ! 1) \<and>
   sublist ''c.xclient.Call(ctx,\"Add\",''
     (stub_text plain_qual ''pb'' \<lparr>ps_GoName = ''Arith'', ps_Methods = [add_method]\<rparr> add_method)"
proof -
  have "pm_GoName add_method = CHR ''A'' # ''dd''" by (simp add: add_method_def)
  from stub_calls_interface_method [OF this, where s = "\<lparr>ps_GoName = ''Arith'', ps_Methods = [add_method]\<rparr>"
      and lib = plain_protogen and qual = plain_qual and path = "''pb''"]
  show ?thesis by (simp add: add_method_def)
qed

text \<open>Inside the braces of an interface the number of the option stands on a line of its own.\<close>

lemma interface_holds_a_number:
  "interface_lines plain_protogen plain_qual ''pb'' add_method =
     [''7'', ''Add(ctx context.Context, args *Args, reply *Reply) (err error)'']"
  by (simp add: interface_lines_def plain_protogen_def plain_qual_def add_method_def upperFirst_Cons rune_upper_def utf8_def
      dec_of_nat.simps char_of_def bit_Suc_0_iff Let_def)

text \<open>The first byte is taken as a rune: a name beginning with a letter outside ASCII changes its bytes.\<close>

lemma upperFirst_breaks_utf8:
  "upperFirstLatter [CHR 0xC3, CHR 0xA9] = [CHR 0xC3, CHR 0x83, CHR 0xA9]"
  by (simp add: upperFirst_Cons rune_upper_def utf8_def char_of_def bit_Suc_0_iff)

end
