(* ===== verification/Spec2Isabelle.thy ===== *)
theory Spec2Isabelle
  imports Session Heartbeat Broadcast Gateway Consul_Plugin Logging Generator
begin

text \<open>
  A verification of a-simple-rpc, an RPC framework in Go: servers register Go objects whose methods can
  be called over TCP with a binary protocol, or over HTTP on the same port; clients find servers through
  a discovery, keep a connection to each, and retry or broadcast calls.

  \<^bold>\<open>How the program works, and how it is modelled.\<close> A client call is entered in the pending table of a
  connection under a fresh sequence number, encoded as a message (twelve header bytes, then the
  length-prefixed path, method, metadata and payload) and written. The server's loop for the connection
  reads messages and starts one goroutine for each; it finds the service and the method by reflection, takes the
  argument and the reply from pools, decodes, calls, encodes, and writes a response with the request's
  sequence number, by which the client's input goroutine finds the call. Sequential code is a function
  from states to results and states; panics are values of \<^typ>\<open>'a outcome\<close>, errors are values of
  \<^typ>\<open>go_error\<close> in a sum or an option. Goroutines that interleave are inductive step relations, one step for
  each critical section or channel operation, and properties of them hold for every schedule.

  \<^bold>\<open>Theories and sources\<close> (paths below \<^verbatim>\<open>src/\<close>):
  \<^item> \<open>Prelude\<close>: machine integers, strings, outcomes, Go maps as association lists (the order of
    the list is the order of \<^verbatim>\<open>range\<close>, left open), errors, \<open>step_invariant\<close> (the contract of an invariant);
    \<open>Prefix_Codec\<close>: the contract of self-delimiting encodings; \<open>Go_Bytes\<close>, \<open>Go_Text\<close>, \<open>Go_Url\<close>: what is
    used of \<^verbatim>\<open>encoding/binary\<close>, \<^verbatim>\<open>io\<close>, slices, \<^verbatim>\<open>strings\<close>, \<^verbatim>\<open>strconv\<close> and \<^verbatim>\<open>net/url\<close>.
  \<^item> \<open>Header\<close>, \<open>Message\<close>, \<open>Message_Wire\<close>: \<^verbatim>\<open>protocol/message.go\<close>. The header accessors on bytes refine an
    abstract record; encoder and decoder with the \<^verbatim>\<open>uint32\<close> arithmetic and the slice panics of the code;
    layout, round trips, streams, malformed input.
  \<^item> \<open>Reflect\<close>, \<open>Codec\<close>: the values and types behind \<^verbatim>\<open>interface{}\<close>; \<^verbatim>\<open>codec/codec.go\<close>, \<^verbatim>\<open>share/share.go\<close>.
  \<^item> \<open>Plugin\<close>: \<^verbatim>\<open>error/multi_error.go\<close>, \<^verbatim>\<open>server/plugin.go\<close>; \<open>Pool\<close>: \<^verbatim>\<open>server/pool.go\<close>; \<open>Registry\<close>:
    registration in \<^verbatim>\<open>server/server.go\<close>, \<^verbatim>\<open>server/service.go\<close>.
  \<^item> \<open>Server\<close>: handling of requests in \<^verbatim>\<open>server/server.go\<close> (\<^verbatim>\<open>handleRequest\<close>, \<^verbatim>\<open>processOneRequest\<close>, the loop of
    \<^verbatim>\<open>serveConn\<close>), with \<open>handle_spec\<close>, a specification without pools and shared error variable, that the
    handler is proved to refine; \<open>Lifecycle\<close>: \<^verbatim>\<open>Serve\<close>, the accept loop, the goroutines of connections and
    \<^verbatim>\<open>Close\<close> as a step relation, \<^verbatim>\<open>server/listener.go\<close>. \<^verbatim>\<open>closeConn\<close> is two steps, the deletion under the mutex
    and the closing after it.
  \<^item> \<open>Converter\<close>, \<open>Gateway\<close>: \<^verbatim>\<open>server/converter.go\<close>, \<^verbatim>\<open>server/gateway.go\<close>, with \<open>gateway_outcome\<close>, a specification
    written from the request alone. The handler is first compared with \<open>http_spec\<close>, which has no pools but
    shares the handler's pure parts, on top of the refinement of \<open>Server\<close>; \<open>answered_as\<close> then says that status,
    body and every header field are those \<open>gateway_outcome\<close> demands.
  \<^item> \<open>Client\<close>, \<open>Client_Inv\<close>: \<^verbatim>\<open>client/client.go\<close> as a step relation, and its invariants (sequence numbers,
    waiting calls, closing); \<open>Heartbeat\<close>: \<^verbatim>\<open>Connect\<close>, the heartbeat goroutine beside the steps of the client,
    \<^verbatim>\<open>client/connection.go\<close>, \<^verbatim>\<open>client/option.go\<close>; \<open>Session\<close>: rounds of the input loop over a stream of responses.
  \<^item> \<open>Discovery\<close>: the discoveries and \<^verbatim>\<open>client/selector.go\<close>, with the notification of clients as a step
    relation; \<open>XClient\<close>: \<^verbatim>\<open>client/xclient.go\<close>, \<^verbatim>\<open>client/mode.go\<close>, over an environment \<open>rpc_env\<close> that stands for
    the connections; \<open>Broadcast\<close>: \<^verbatim>\<open>Broadcast\<close> as a step relation.
  \<^item> \<open>Consul_Plugin\<close>: \<^verbatim>\<open>server_plugin/consul.go\<close>; \<open>Logging\<close>: \<^verbatim>\<open>log/\<close>; \<open>Generator\<close>: \<^verbatim>\<open>gen/main.go\<close>, with the
    templates of the code filled in by \<^verbatim>\<open>fmt.Sprintf\<close>, compared with the text of a file written out.
  \<^item> This theory: properties that span client and server.

  \<^bold>\<open>Interfaces.\<close> Where a component relies on another by contract, the contract is a locale, with what
  follows from it proved inside and an interpretation on the model of the code: \<open>prefix_codec\<close> and \<open>framed_codec\<close>
  (integers, frames), \<open>object_pool\<close> (the type pools), \<open>plugin_container\<close>, \<open>service_discovery\<close> (all three
  discoveries), \<open>server_selector\<close>, \<open>logger\<close>, and \<open>step_invariant\<close> (server, client, heartbeat).

  \<^bold>\<open>What is shown.\<close> The wire format loses nothing and frames are never confused. Whatever is picked from the
  pools, handling a request is what its specification says, and requests of a connection do not influence
  each other. In every schedule of a client (up to \<open>2 ^ 64\<close> calls, after which sequence numbers wrap) a
  response reaches the call it belongs to, no call hangs after the connection ended, nothing is sent after
  the end. A session as a whole completes every call with its own result. The gateway runs a method as the
  protocol does, reports every failure, and carries metadata over HTTP without loss. The server tracks
  exactly its open connections, and \<^verbatim>\<open>Close\<close> closes them, up to the moment in \<^verbatim>\<open>closeConn\<close> between deleting and
  closing. Retries are bounded and every result of a call is explained by its attempts; calls go to the
  servers known at the moment, and those are dialled where they were announced; a broadcast, the notification of clients and the heartbeat are covered in all interleavings. Theorems also
  document where the code falls short of what it means to do: a service error that is never sent, a
  retry that reports success after a failure, a race in \<^verbatim>\<open>Broadcast\<close>, a malformed body that is accepted,
  one-way calls over HTTP, a connection missed by \<^verbatim>\<open>Close\<close>, a service that stays in Consul, an IPv6 address
  that cannot be dialled, among others.

  \<^bold>\<open>Choices and bounds.\<close> What the program leaves to chance is an argument: the pooled objects picked
  (\<open>picks\<close>), the random number of the selector, the order of a map, the times at which the shutdown flag is seen,
  the result of writing to a socket. Loops are structural recursion, or recursion on the unread input
  (\<open>serve_loop\<close>, \<open>decode_meta_loop\<close>) with a termination proof, so no fuel is needed; \<open>input_rounds\<close> counts the
  rounds of a loop that waits for more input, one for each response. Fields such as \<open>completions\<close>, \<open>assigned\<close> and
  \<open>attempts\<close> are history variables: they record what happened and nothing reads them. Integers have the
  width of the code where it matters (\<^verbatim>\<open>uint32\<close> lengths, \<^verbatim>\<open>uint64\<close> sequence numbers, byte-sized
  serialization types, the 64-bit \<^verbatim>\<open>int\<close> of \<^verbatim>\<open>Atoi\<close>).

  \<^bold>\<open>Parameters.\<close> The marshalling libraries and \<^verbatim>\<open>reflect\<close>'s objects (\<open>golib\<close>), JSON unmarshalling and
  \<^verbatim>\<open>strcase\<close> (\<open>http_lib\<close>), the Consul agent (\<open>agent_api\<close>, \<open>consul_api\<close>), dialling (\<open>dialer\<close>), \<^verbatim>\<open>protogen\<close> with its
  generated files (\<open>protogen\<close>), the rendering of arbitrary values by \<^verbatim>\<open>fmt\<close> (\<open>fmt_lib\<close>), the user's plugins, the
  matcher of HTTP requests and the multiplexer (\<open>dispatch\<close>) are arguments. What is assumed of them is named: \<open>serving\<close> (types are kept, \<^verbatim>\<open>Reset\<close> gives the zero value),
  \<open>unmarshal_kept\<close>, \<open>carries\<close> (a codec returns what it was given), \<open>agent_documented\<close> and \<open>queries_documented\<close>,
  \<open>protogen_documented\<close>, \<open>first_match\<close> (the first matcher gets a connection), \<open>dials\<close> (connecting connects to what it was
  given).

  \<^bold>\<open>Simplifications.\<close> A service method is a function of its argument and its reply object: the receiver
  and the context it gets are left out, so services have no state of their own. The handlers of several
  requests run one after the other, in any order (\<open>process_all\<close>); they share the pools, the registry, the
  connection they write to and the counter; the interleavings of the counter are in \<open>Lifecycle\<close>. A write to a connection happens as a whole or fails without
  a trace; the part that a failed write may have sent is not modelled.

  \<^bold>\<open>Not modelled.\<close> Deadlines, socket options, buffer sizes and log output of the components (no result depends
  on them); the contents of the contexts passed along, except the sequence number kept for cancellation and
  the request metadata; the body of the HTTP server; \<^verbatim>\<open>panic\<close>s that end the process
  (they are the end of a run); the generated code and the tests; data races outside the critical sections.
\<close>

section \<open>Properties\<close>

text \<open>
  C3: a call that the service answers comes back with the service's reply. The request the client writes
  for a pending call, handled by the server, is answered with bytes that the client's input loop reads,
  matches to that very call, and decodes into its reply; the call is completed once, without an error,
  and leaves the table, and the connection goes on.
\<close>

theorem call_end_to_end:
  assumes "serving up lib (sv_registry svr)"
    and "map_of (pending c) q = Some i" and "\<not> isHeartBeat (calls c i)" and "Codecs st = Some cd"
    and "handle_spec lib (serviceMap (sv_registry svr)) (call_request (calls c i) q st p) = Reply bs"
    and "wire_ok lim ((response_base (call_request (calls c i) q st p))\<lparr>Payload := bs\<rparr>)"
    and "bs \<noteq> []" and "codec_Decode lib cd bs (ReplyVal (calls c i)) = (None, v)"
    and "processOneRequest lib picks svr (received (call_request (calls c i) q st p)) = (Some out, svr')"
    and "c' = client_gets lib lim (out @ rest) c"
  shows "calls c' i = (calls c i)\<lparr>ReplyVal := v\<rparr> \<and> completions c' i = completions c i + 1 \<and>
    map_of (pending c') q = None \<and> input_at c' = Reading"
proof -
  let ?res = "(response_base (call_request (calls c i) q st p))\<lparr>Payload := bs\<rparr>"
  have r: "render (call_request (calls c i) q st p)
      (handle_spec lib (serviceMap (sv_registry svr)) (call_request (calls c i) q st p)) = Return (?res, None)"
    using assms(5) by simp
  note sa = server_answers [OF assms(1,4,3) r]
  have out: "out = Encode ?res" using sa(1) [where picks = picks] assms(9) by simp
  have q: "Seq (Header ?res) = q" by (rule sa(2))
  have m: "map_of (pending c) (Seq (Header ?res)) = Some i" by (simp only: q assms(2))
  have ap: "apply_response lib (received ?res) (calls c i) = ((calls c i)\<lparr>ReplyVal := v\<rparr>, None)"
    using sa(3,5) assms(4,7,8)
    by (simp add: apply_response_def Let_def NormalStatus_def ErrorStatus_def response_base_def)
  show ?thesis
    using client_gets_response [OF assms(6) m, of lib rest] ap unfolding assms(10) out q by simp
qed

definition demo_reply :: message where
  "demo_reply = (response_base (call_request (calls demo_client 0) 0 JSON [21]))\<lparr>Payload := [42]\<rparr>"

lemma demo_wire:
  assumes "length (frame_body m) < 2 ^ 32" "wf_header (Header m)" "CheckMagicNumber (Header m)" "gomap_ok (Metadata m)"
  shows "wire_ok 0 m"
  using assms by (simp add: wire_ok_def within_limit_def)

lemma demo_call_fields:
  "ca_ServicePath (calls demo_client 0) = ''Arith''" "ca_ServiceMethod (calls demo_client 0) = ''Double''"
  "\<not> isHeartBeat (calls demo_client 0)" "ReplyVal (calls demo_client 0) = 0" "Error (calls demo_client 0) = None"
  "ca_Metadata (calls demo_client 0) = []"
  by (simp_all add: demo_client_def Call_begin_eq send_lock_def isHeartBeat_def new_call_def NewClient_def spawn_call_def
      add_task_def drop_task_def make_chan_def)

lemma magic_kept: "wf_header h \<Longrightarrow> CheckMagicNumber (SetMessageType h mt) = CheckMagicNumber h"
  "wf_header h \<Longrightarrow> CheckMagicNumber (SetMessageStatusType h ms) = CheckMagicNumber h"
  by (simp_all add: CheckMagicNumber_def SetMessageType_def SetMessageStatusType_def wf_header_def)

lemma call_request_magic: "Codecs st = Some cd \<Longrightarrow> CheckMagicNumber (Header (call_request ca q st p))"
  using request_of_header [of st cd ca q] view_NewMessage(2) by (simp add: call_request_def header_view_select)

theorem call_end_to_end_witness:
  "\<exists>out. fst (processOneRequest nat_lib (None, None) (demo_server demo_double) (received (call_request (calls demo_client 0) 0 JSON [21]))) = Some out \<and>
    ReplyVal (calls (client_gets nat_lib 0 (out @ [1, 2]) demo_client) 0) = 42"
proof -
  let ?req = "call_request (calls demo_client 0) 0 JSON [21]"
  have s: "serving (\<lambda>_. False) nat_lib (sv_registry (demo_server demo_double))"
    by (simp add: demo_lookups demo_serving)
  have path: "ServicePath ?req = ''Arith''" "ServiceMethod ?req = ''Double''" "Payload ?req = [21]" "Metadata ?req = []"
    by (simp_all add: call_request_def request_of_fields demo_call_fields)
  note flags = call_request_flags [OF Codecs_simps(1), of "calls demo_client 0" 0 "[21]"]
  have h: "handle_spec nat_lib (serviceMap (sv_registry (demo_server demo_double))) ?req = Reply [42]"
    using path flags by (simp add: handle_spec_def demo_lookups invoke_spec_def demo_decode service_call_def demo_double_def)
  have w: "wire_ok 0 ((response_base ?req)\<lparr>Payload := [42]\<rparr>)"
    using flags(1) call_request_magic [OF Codecs_simps(1), of "calls demo_client 0" 0 "[21]"] path
    by (intro demo_wire) (simp_all add: response_base_def frame_body_def meta_bytes_def magic_kept gomap_ok_def)
  obtain out svr' where p: "processOneRequest nat_lib (None, None) (demo_server demo_double) (received ?req) = (out, svr')"
    by fastforce
  have "render ?req (handle_spec nat_lib (serviceMap (sv_registry (demo_server demo_double))) ?req) =
      Return ((response_base ?req)\<lparr>Payload := [42]\<rparr>, None)"
    using h by simp
  then obtain bs where bs: "out = Some bs"
    using server_answers(1) [OF s Codecs_simps(1) demo_call_fields(3), of 0 "[21]" _ None "(None, None)"] p by auto
  have "codec_Decode nat_lib JSONCodec [42] (ReplyVal (calls demo_client 0)) = (None, 42)"
    by (simp add: JSONCodec_Decode_def nat_lib_def)
  from call_end_to_end [OF s _ demo_call_fields(3) Codecs_simps(1) h w _ this p [unfolded bs] refl, of "[1, 2]"]
  show ?thesis by (simp add: demo_client_fields p bs)
qed

text \<open>
  A call that the server rejects comes back with the server's reason. An unknown service or method,
  an undecodable argument or a reply that cannot be encoded is reported to exactly the calling call as a
  service error with the server's text, its reply is left alone, and the connection goes on.
\<close>

theorem rejection_end_to_end:
  assumes "serving up lib (sv_registry svr)"
    and "map_of (pending c) q = Some i" and "\<not> isHeartBeat (calls c i)" and "Codecs st = Some cd"
    and "handle_spec lib (serviceMap (sv_registry svr)) (call_request (calls c i) q st p) = Failed e"
    and "render (call_request (calls c i) q st p) (Failed e) = Return (res, err)" and "wire_ok lim res"
    and "processOneRequest lib picks svr (received (call_request (calls c i) q st p)) = (Some out, svr')"
    and "c' = client_gets lib lim (out @ rest) c"
  shows "Error (calls c' i) = Some (ServiceError (err_string e)) \<and> ReplyVal (calls c' i) = ReplyVal (calls c i) \<and>
    completions c' i = completions c i + 1 \<and> map_of (pending c') q = None \<and> input_at c' = Reading"
proof -
  have r: "render (call_request (calls c i) q st p)
      (handle_spec lib (serviceMap (sv_registry svr)) (call_request (calls c i) q st p)) = Return (res, err)"
    using assms(5,6) by simp
  have err: "err = Some e" using assms(6) by simp
  note sa = server_answers [OF assms(1,4,3) r]
  have out: "out = Encode res" using sa(1) [where picks = picks] assms(8) by simp
  have m: "map_of (pending c) (Seq (Header res)) = Some i" by (simp only: sa(2) assms(2))
  have ap: "apply_response lib (received res) (calls c i) =
      ((calls c i)\<lparr>ca_ResMetadata := Metadata res, Error := Some (ServiceError (err_string e))\<rparr>, None)"
    using sa(4-6) err by (simp add: apply_response_def Let_def gomap_get_def)
  show ?thesis
    using client_gets_response [OF assms(7) m, of lib rest] ap unfolding assms(9) out sa(2) by simp
qed

theorem rejection_end_to_end_witness:
  "\<exists>out. fst (processOneRequest nat_lib (None, None) \<lparr>sv_registry = new_registry :: (nat, unit) registry, handlerMsgNum = 0\<rparr>
      (received (call_request (calls demo_client 0) 0 JSON [21]))) = Some out \<and>
    Error (calls (client_gets nat_lib 0 (out @ []) demo_client) 0) = Some (ServiceError ''can't find service Arith'')"
proof -
  let ?req = "call_request (calls demo_client 0) 0 JSON [21]"
  let ?svr = "\<lparr>sv_registry = new_registry :: (nat, unit) registry, handlerMsgNum = 0\<rparr>"
  let ?e = "NewError ''can't find service Arith''"
  have s: "serving (\<lambda>_. False) nat_lib (sv_registry ?svr)"
    using new_registry_inv [OF nat_lib_Reset] by (simp add: serving_def types_kept_def nat_lib_has_type)
  have path: "ServicePath ?req = ''Arith''" "ServiceMethod ?req = ''Double''"
    by (simp_all add: call_request_def request_of_fields demo_call_fields)
  note flags = call_request_flags [OF Codecs_simps(1), of "calls demo_client 0" 0 "[21]"]
  have h: "handle_spec nat_lib (serviceMap (sv_registry ?svr)) ?req = Failed ?e"
    using path by (simp add: handle_spec_def new_registry_def)
  obtain res err where r: "render ?req (Failed ?e) = Return (res, err)" by simp
  have w: "wire_ok 0 res"
    using r flags(1) call_request_magic [OF Codecs_simps(1), of "calls demo_client 0" 0 "[21]"] path
    by (intro demo_wire) (auto simp: response_base_def frame_body_def meta_bytes_def magic_kept gomap_ok_def ServiceErrorKey_def)
  obtain out svr' where p: "processOneRequest nat_lib (None, None) ?svr (received ?req) = (out, svr')"
    by fastforce
  have "render ?req (handle_spec nat_lib (serviceMap (sv_registry ?svr)) ?req) = Return (res, err)"
    using h r by simp
  then obtain bs where bs: "out = Some bs"
    using server_answers(1) [OF s Codecs_simps(1) demo_call_fields(3), of 0 "[21]" res err "(None, None)"] p by auto
  from rejection_end_to_end [OF s _ demo_call_fields(3) Codecs_simps(1) h r w p [unfolded bs] refl, of "[]"]
  show ?thesis by (simp add: demo_client_fields p bs)
qed

text \<open>
  C40: a heartbeat comes back. The server answers a heartbeat with the request itself, marked as a
  response, so if the codec carries the client's time stamp, the heartbeat call ends without an error
  and with a reply equal to its argument, whatever the server's services are.
\<close>

theorem heartbeat_end_to_end:
  assumes "map_of (pending c) q = Some i" and "isHeartBeat (calls c i)"
    and "carries lib JSONCodec (Args (calls c i)) (ReplyVal (calls c i)) p" and "p \<noteq> []"
    and "ca_Metadata (calls c i) = []"
    and "req = call_request (calls c i) q JSON p" and "wire_ok lim req"
    and "processOneRequest lib picks svr (received req) = (Some out, svr')"
    and "c' = client_gets lib lim (out @ rest) c"
  shows "calls c' i = (calls c i)\<lparr>ReplyVal := Args (calls c i)\<rparr> \<and> completions c' i = completions c i + 1 \<and>
    map_of (pending c') q = None \<and> input_at c' = Reading"
proof -
  note flags = call_request_flags [OF Codecs_simps(1), of "calls c i" q p]
  let ?res = "upd_Header (\<lambda>h. SetMessageType h Response) req"
  have hb: "IsHeartbeat (Header (received req))" using flags(2) assms(2,6) by simp
  have "out = Encode (upd_Header (\<lambda>h. SetMessageType h Response) (received req))"
    using assms(8) hb by (simp add: processOneRequest_def Let_def)
  then have out: "out = Encode ?res"
    by (simp add: received_def Encode_def)
  have view: "header_view (Header ?res) = (header_view (Header req))\<lparr>v_type := Response\<rparr>"
    using view_Response [OF flags(1)] assms(6) by simp
  have fields: "Seq (Header ?res) = q" "SerializeType (Header ?res) = JSON" "MessageStatusType (Header ?res) = NormalStatus"
    using view flags(4-6) assms(6) by (simp_all add: header_view_select)
  have w: "wire_ok lim ?res"
    using assms(7) by (simp add: wire_ok_def magic_kept frame_body_def)
  have m: "map_of (pending c) (Seq (Header ?res)) = Some i" by (simp only: fields(1) assms(1))
  have "Payload ?res = p" "Metadata ?res = []"
    using assms(5,6) by (simp_all add: call_request_def request_of_fields)
  then have ap: "apply_response lib (received ?res) (calls c i) = ((calls c i)\<lparr>ReplyVal := Args (calls c i)\<rparr>, None)"
    using fields assms(3,4) by (simp add: apply_response_def Let_def NormalStatus_def ErrorStatus_def carries_def)
  show ?thesis
    using client_gets_response [OF w m, of lib rest] ap unfolding assms(9) out fields(1) by simp
qed

definition beating_client :: "nat client" where
  "beating_client = (NewClient JSON demo_call)\<lparr>pending := [(0, 0)], calls := (\<lambda>_. demo_call\<lparr>Args := 77\<rparr>)\<rparr>"

theorem heartbeat_end_to_end_witness:
  "\<exists>out. fst (processOneRequest nat_lib (None, None) (demo_server demo_double) (received (call_request (calls beating_client 0) 0 JSON [77]))) = Some out \<and>
    ReplyVal (calls (client_gets nat_lib 0 (out @ []) beating_client) 0) = 77"
proof -
  let ?ca = "demo_call\<lparr>Args := 77\<rparr>"
  let ?req = "call_request ?ca 0 JSON [77]"
  have ca: "calls beating_client 0 = ?ca" "map_of (pending beating_client) 0 = Some 0" by (simp_all add: beating_client_def)
  have hb: "isHeartBeat ?ca" "ca_Metadata ?ca = []" "Args ?ca = 77" by (simp_all add: isHeartBeat_def demo_call_def new_call_def)
  note flags = call_request_flags [OF Codecs_simps(1), of ?ca 0 "[77]"]
  have path: "ServicePath ?req = []" "ServiceMethod ?req = []" "Payload ?req = [77]" "Metadata ?req = []"
    by (simp_all add: call_request_def request_of_fields demo_call_def new_call_def)
  have w: "wire_ok 0 ?req"
    using flags(1) call_request_magic [OF Codecs_simps(1), of ?ca 0 "[77]"] path
    by (intro demo_wire) (simp_all add: frame_body_def meta_bytes_def)
  have "carries nat_lib JSONCodec (Args ?ca) (ReplyVal ?ca) [77]"
    by (simp add: carries_def hb(3) JSONCodec_Encode_def JSONCodec_Decode_def nat_lib_def)
  note rule = heartbeat_end_to_end [of beating_client 0 0, unfolded ca(1), OF ca(2) hb(1) this _ hb(2) refl w]
  obtain bs svr' where p: "processOneRequest nat_lib (None, None) (demo_server demo_double) (received ?req) = (Some bs, svr')"
    using flags(2) hb(1) by (simp add: processOneRequest_def Let_def)
  from rule [OF _ p refl, of "[]"] show ?thesis
    using p ca(1) hb(3) by simp
qed

text \<open>
  C2: a whole connection works. The requests of any number of pending calls, written one after the other
  in any order, are all handed out by the server's loop; processed in any order, with any choice of pooled
  objects, and answered in any order, they lead the client's input loop to complete every one of the calls
  exactly once with the result of its own request, to take it out of the table, and to leave every other
  call, and the bytes after the responses, alone.
\<close>

theorem session_end_to_end:
  assumes "serving up lib (sv_registry svr)" and "Codecs st = Some cd"
    and "list_all (sound_job lib lim cd (serviceMap (sv_registry svr)) st c) jobs"
    and "distinct (map (fst \<circ> snd) jobs)" and "input_at c = Reading"
    and "serveConn (\<lambda>_. False) lim \<lparr>rd_bytes = concat (map (Encode \<circ> job_request st c) jobs), rd_err = EOF\<rparr> =
      (map Process ds, how)"
    and "mset reqs = mset ds" and "process_all lib picks svr reqs = (map Some ws, svr')" and "mset bss = mset ws"
  shows "\<exists>c'. input_rounds lib lim (length bss) \<lparr>rd_bytes = concat bss @ rest, rd_err = e\<rparr> c =
      (\<lparr>rd_bytes = rest, rd_err = e\<rparr>, c') \<and>
    jobs_done lib cd (serviceMap (sv_registry svr)) st jobs c c' \<and> how = EndClientClosed"
proof -
  let ?sm = "serviceMap (sv_registry svr)"
  let ?req = "job_request st c" and ?res = "job_response lib ?sm st c"
  have sound: "sound_job lib lim cd ?sm st c j" if "j \<in> set jobs" for j
    using assms(3) that by (simp add: list_all_iff)
  have "list_all (wire_ok lim) (map ?req jobs)"
    using sound by (auto simp: list_all_iff sound_job_def)
  then have ev: "map Process ds = map Process (map (received \<circ> ?req) jobs)" "how = EndClientClosed"
    using serve_loop_stream [of lim "map ?req jobs"] assms(6) by (simp_all add: serveConn_def comp_def)
  have "inj Process" by (simp add: inj_def)
  then have ds: "ds = map (received \<circ> ?req) jobs" using ev(1) by (simp only: inj_map_eq_map)
  have "map Some ws = map (answer_spec lib ?sm) reqs"
    using process_all_spec [OF assms(1), of picks reqs] assms(8) by auto
  then have "image_mset Some (mset ws) = image_mset (answer_spec lib ?sm) (mset reqs)"
    by (simp only: flip: mset_map)
  also have "\<dots> = image_mset Some (mset (map (\<lambda>j. Encode (?res j)) jobs))"
    using sound_job_answer(1) [OF assms(2) sound] unfolding assms(7) ds
    by (auto simp: image_mset.compositionality comp_def intro!: image_mset_cong)
  finally have "mset bss = mset (map (\<lambda>j. Encode (?res j)) jobs)"
    using assms(9) injD [OF multiset.inj_map [of Some]] by simp
  then show ?thesis
    using responses_delivered [OF assms(2-5)] ev(2) by blast
qed

text \<open>Two calls, one of which asks for a method that is not there; they are answered in the reverse order.\<close>

definition session_client :: "nat client" where
  "session_client = (NewClient JSON demo_call)
     \<lparr>pending := [(0, 0), (1, 1)],
      calls := (\<lambda>i. if i = 0 then new_call [] ''Arith'' ''Double'' 21 0 0 else new_call [] ''Arith'' ''Nope'' 7 0 1)\<rparr>"

definition first_job :: job where "first_job = (0, 0, [21])"
definition second_job :: job where "second_job = (1, 1, [7])"

lemma session_jobs:
  "fst first_job = 0" "fst (snd first_job) = 0" "snd (snd first_job) = [21]"
  "fst second_job = 1" "fst (snd second_job) = 1" "snd (snd second_job) = [7]"
  by (simp_all add: first_job_def second_job_def)

lemma session_fields:
  "pending session_client = [(0, 0), (1, 1)]" "input_at session_client = Reading"
  "calls session_client 0 = new_call [] ''Arith'' ''Double'' 21 0 0" "calls session_client 1 = new_call [] ''Arith'' ''Nope'' 7 0 1"
  "calls session_client (Suc 0) = new_call [] ''Arith'' ''Nope'' 7 0 1"
  by (simp_all add: session_client_def NewClient_def)

lemma session_call_fields:
  "\<not> isHeartBeat (new_call [] ''Arith'' sm v w ch)" "ReplyVal (new_call [] ''Arith'' sm v w ch) = w"
  "Error (new_call [] ''Arith'' sm v w ch) = None"
  by (simp_all add: isHeartBeat_def new_call_def)

lemma session_request_fields:
  "ServicePath (call_request (new_call [] ''Arith'' sm v w ch) q JSON p) = ''Arith''"
  "ServiceMethod (call_request (new_call [] ''Arith'' sm v w ch) q JSON p) = sm"
  "Payload (call_request (new_call [] ''Arith'' sm v w ch) q JSON p) = p"
  "Metadata (call_request (new_call [] ''Arith'' sm v w ch) q JSON p) = []"
  by (simp_all add: call_request_def request_of_fields new_call_def)

lemma session_handled:
  "handle_spec nat_lib (serviceMap (demo_registry demo_double)) (job_request JSON session_client first_job) = Reply [42]"
  "handle_spec nat_lib (serviceMap (demo_registry demo_double)) (job_request JSON session_client second_job) =
    Failed (NewError ''can't find method Nope'')"
  using call_request_flags [OF Codecs_simps(1), of "calls session_client 0" 0 "[21]"]
  by (simp_all add: job_request_def session_jobs session_fields handle_spec_def session_request_fields demo_lookups invoke_spec_def
      demo_decode service_call_def demo_double_def session_call_fields)

lemma session_decode: "JSONCodec_Decode nat_lib [42] w = (None, 42)"
  by (simp add: JSONCodec_Decode_def nat_lib_def)

lemma session_sound:
  "list_all (sound_job nat_lib 0 JSONCodec (serviceMap (demo_registry demo_double)) JSON session_client) [first_job, second_job]"
proof -
  note flags = call_request_flags [OF Codecs_simps(1)] call_request_magic [OF Codecs_simps(1)]
  have req: "wire_ok 0 (job_request JSON session_client first_job)" "wire_ok 0 (job_request JSON session_client second_job)"
    by (auto intro!: demo_wire simp: flags job_request_def session_jobs session_fields session_request_fields frame_body_def meta_bytes_def)
  have res: "wire_ok 0 (job_response nat_lib (serviceMap (demo_registry demo_double)) JSON session_client first_job)"
    "wire_ok 0 (job_response nat_lib (serviceMap (demo_registry demo_double)) JSON session_client second_job)"
    unfolding job_response_def session_handled
    by (auto intro!: demo_wire simp: flags job_request_def session_jobs session_fields session_request_fields response_base_def
        frame_body_def meta_bytes_def magic_kept gomap_ok_def ServiceErrorKey_def)
  show ?thesis
    using req res by (simp add: sound_job_def session_jobs session_handled session_fields session_call_fields session_decode)
qed

theorem session_end_to_end_witness:
  "\<exists>w0 w1 svr' c'. process_all nat_lib [] (demo_server demo_double)
      (rev (map (received \<circ> job_request JSON session_client) [first_job, second_job])) = ([Some w1, Some w0], svr') \<and>
    input_rounds nat_lib 0 2 \<lparr>rd_bytes = w0 @ w1 @ [9], rd_err = EOF\<rparr> session_client =
      (\<lparr>rd_bytes = [9], rd_err = EOF\<rparr>, c') \<and>
    ReplyVal (calls c' 0) = 42 \<and> Error (calls c' 1) = Some (ServiceError ''can't find method Nope'')"
proof -
  let ?svr = "demo_server demo_double"
  let ?jobs = "[first_job, second_job]"
  let ?reqs = "rev (map (received \<circ> job_request JSON session_client) ?jobs)"
  have serving: "serving (\<lambda>_. False) nat_lib (sv_registry ?svr)" by (simp add: demo_lookups demo_serving)
  have sound: "list_all (sound_job nat_lib 0 JSONCodec (serviceMap (sv_registry ?svr)) JSON session_client) ?jobs"
    using session_sound by (simp only: demo_lookups)
  have wire: "list_all (wire_ok 0) (map (job_request JSON session_client) ?jobs)"
    using sound by (simp add: sound_job_def)
  have conn: "serveConn (\<lambda>_. False) 0 \<lparr>rd_bytes = concat (map (Encode \<circ> job_request JSON session_client) ?jobs), rd_err = EOF\<rparr> =
      (map Process (map (received \<circ> job_request JSON session_client) ?jobs), EndClientClosed)"
    using serve_loop_stream [OF wire] by (simp add: serveConn_def comp_def)
  obtain svr' where p: "process_all nat_lib [] ?svr ?reqs =
      (map (answer_spec nat_lib (serviceMap (sv_registry ?svr))) ?reqs, svr')"
    using process_all_spec [OF serving, of "[]" ?reqs] by blast
  obtain w0 w1 where w: "map (answer_spec nat_lib (serviceMap (sv_registry ?svr))) ?reqs = [Some w1, Some w0]"
    using sound_job_answer(1) [OF Codecs_simps(1)] sound by simp blast
  have outs: "process_all nat_lib [] ?svr ?reqs = (map Some [w1, w0], svr')" using p w by simp
  have distinct_jobs: "distinct (map (fst \<circ> snd) ?jobs)" by (simp add: session_jobs)
  have "mset ?reqs = mset (map (received \<circ> job_request JSON session_client) ?jobs)"
    by (rule mset_rev)
  from session_end_to_end [OF serving Codecs_simps(1) sound distinct_jobs session_fields(2) conn this outs, of "[w0, w1]" "[9]" EOF]
  obtain c' where run: "input_rounds nat_lib 0 2 \<lparr>rd_bytes = w0 @ w1 @ [9], rd_err = EOF\<rparr> session_client =
      (\<lparr>rd_bytes = [9], rd_err = EOF\<rparr>, c')"
    and d: "jobs_done nat_lib JSONCodec (serviceMap (sv_registry ?svr)) JSON ?jobs session_client c'"
    by (auto simp: numeral_2_eq_2)
  have "ReplyVal (calls c' 0) = 42" "Error (calls c' 1) = Some (ServiceError ''can't find method Nope'')"
    using d by (simp_all add: jobs_done_def session_jobs demo_lookups session_handled job_result_def session_fields session_call_fields session_decode)
  then show ?thesis using run outs by auto
qed

text \<open>
  The health check that the Consul plugin registers passes: the gateway answers the path of the announced
  URL with status 200, whatever the server's services are.
\<close>

lemma consul_health_check_passes:
  assumes "ck_HTTP (ar_Check (registration_of c name host port)) = ''http://'' @ cp_HeartbeatAddr c @ rq_Path r"
  shows "handleGatewayRequest lib hl picks r reg = (Return (WriteHeader 200 new_response), reg)"
  using assms by (simp add: registration_of_def handleGatewayRequest_def)

end
